(* ===== verification/Prelude.thy ===== *)
theory Prelude
  imports Main
begin

text \<open>
  What the components share: Go's 64-bit integers and durations, instants, the error values of the
  program and \<open>errors.Is\<close>, the string functions of the \<open>strings\<close> package the program calls, and
  the collections of rules the component proofs use.

  A Go \<open>string\<close> or \<open>[]byte\<close> is a \<open>string\<close> here: a list of bytes (an Isabelle character is a
  byte), so lengths are Go's lengths in bytes.
\<close>

named_theorems go_simps \<open>unfolding rules for the small functions of the model\<close>
named_theorems inv_intros \<open>preservation rules of the components' invariants\<close>

section \<open>Integers, durations, instants\<close>

text \<open>
  Go's \<open>int\<close>, \<open>int64\<close> and \<open>time.Duration\<close> are 64-bit two's complement. A value is an \<open>int\<close>
  here and the wrap-around is written out (\<open>wrap64\<close>) at each operation that could leave the range.
  \<open>time.Duration\<close> counts nanoseconds; \<open>time.Time.Sub\<close> and \<open>time.Since\<close> saturate at the ends of the
  range (\<open>sat64\<close>) instead of wrapping.
\<close>

definition min_int64 :: int where "min_int64 = - 9223372036854775808"
definition max_int64 :: int where "max_int64 = 9223372036854775807"

definition in_int64 :: "int \<Rightarrow> bool" where
  "in_int64 i \<longleftrightarrow> min_int64 \<le> i \<and> i \<le> max_int64"

definition wrap64 :: "int \<Rightarrow> int" where
  "wrap64 i = (i + 9223372036854775808) mod 18446744073709551616 - 9223372036854775808"

definition sat64 :: "int \<Rightarrow> int" where
  "sat64 i = max min_int64 (min max_int64 i)"

lemmas int64_defs = min_int64_def max_int64_def in_int64_def

lemma wrap64_id [simp]: "in_int64 i \<Longrightarrow> wrap64 i = i"
  by (simp add: wrap64_def int64_defs)

lemma wrap64_range [simp]: "in_int64 (wrap64 i)"
proof -
  have "0 \<le> (i + 9223372036854775808) mod 18446744073709551616"
    "(i + 9223372036854775808) mod 18446744073709551616 < 18446744073709551616" by simp_all
  then show ?thesis unfolding wrap64_def int64_defs by linarith
qed

lemma wrap64_succ: "in_int64 b \<Longrightarrow> min_int64 \<le> a \<Longrightarrow> a < b \<Longrightarrow> wrap64 (a + 1) = a + 1"
  by (rule wrap64_id) (simp add: int64_defs)

lemma sat64_id [simp]: "in_int64 i \<Longrightarrow> sat64 i = i"
  by (simp add: sat64_def int64_defs)

lemma sat64_range [simp]: "in_int64 (sat64 i)"
  by (simp add: sat64_def int64_defs)

lemma sat64_ge_iff: "min_int64 < d \<Longrightarrow> d \<le> max_int64 \<Longrightarrow> d \<le> sat64 i \<longleftrightarrow> d \<le> i"
  by (auto simp: sat64_def)

lemma sat64_gt_iff: "min_int64 \<le> d \<Longrightarrow> d < max_int64 \<Longrightarrow> d < sat64 i \<longleftrightarrow> d < i"
  by (auto simp: sat64_def)

text \<open>
  An instant is the number of nanoseconds since the Unix epoch. The zero \<open>time.Time\<close> is January 1,
  year 1, 00:00:00 UTC.
\<close>

type_synonym time = int
type_synonym duration = int

definition nanosecond :: duration where "nanosecond = 1"
definition millisecond :: duration where "millisecond = 1000000"
definition second :: duration where "second = 1000000000"
definition minute :: duration where "minute = 60000000000"
definition hour :: duration where "hour = 3600000000000"

lemmas duration_defs = nanosecond_def millisecond_def second_def minute_def hour_def

definition zero_time :: time where "zero_time = - 62135596800 * 1000000000"

definition time_sub :: "time \<Rightarrow> time \<Rightarrow> duration" where
  "time_sub t u = sat64 (t - u)"

section \<open>Errors\<close>

text \<open>
  The error values of the program: its sentinels, the sentinels of the packages it compares against
  (\<open>pgx.ErrNoRows\<close>, \<open>context.Canceled\<close>, \<open>context.DeadlineExceeded\<close>), any other error with its text,
  and \<open>fmt.Errorf\<close> with \<open>%w\<close>, which keeps the wrapped error: \<open>Wrap p e\<close> prints as \<open>p\<close>
  followed by the text of \<open>e\<close>.
\<close>

datatype go_error =
    ErrNotFound
  | ErrDuplicate
  | ErrCircuitOpen
  | ErrNoRows
  | Canceled
  | DeadlineExceeded
  | ErrText string
  | Wrap string go_error

fun Error :: "go_error \<Rightarrow> string" where
  "Error ErrNotFound = ''not found''"
| "Error ErrDuplicate = ''idempotency: duplicate request''"
| "Error ErrCircuitOpen = ''circuit breaker: circuit is open''"
| "Error ErrNoRows = ''no rows in result set''"
| "Error Canceled = ''context canceled''"
| "Error DeadlineExceeded = ''context deadline exceeded''"
| "Error (ErrText s) = s"
| "Error (Wrap p e) = p @ Error e"

fun errors_Is :: "go_error \<Rightarrow> go_error \<Rightarrow> bool" where
  "errors_Is (Wrap p e) target \<longleftrightarrow> Wrap p e = target \<or> errors_Is e target"
| "errors_Is e target \<longleftrightarrow> e = target"

lemma errors_Is_refl [simp]: "errors_Is e e"
  by (cases e) auto

text \<open>A call either returns or panics.\<close>

datatype 'a outcome = Returns 'a | Panics string

section \<open>Strings\<close>

definition HasPrefix :: "string \<Rightarrow> string \<Rightarrow> bool" where
  "HasPrefix s p \<longleftrightarrow> take (length p) s = p"

fun Join :: "string list \<Rightarrow> string \<Rightarrow> string" where
  "Join [] sep = []"
| "Join [x] sep = x"
| "Join (x # xs) sep = x @ sep @ Join xs sep"

lemma HasPrefix_append [simp]: "HasPrefix (p @ s) p"
  by (simp add: HasPrefix_def)

lemma HasPrefix_iff: "HasPrefix s p \<longleftrightarrow> (\<exists>r. s = p @ r)"
  by (metis HasPrefix_def HasPrefix_append append_take_drop_id)

text \<open>
  \<open>strings.TrimSpace\<close> removes leading and trailing white space as \<open>unicode.IsSpace\<close> defines it, over
  UTF-8: six ASCII characters and the encodings of U+0085, U+00A0, U+1680, U+2000 to U+200A, U+2028,
  U+2029, U+202F, U+205F and U+3000. \<open>strip_space\<close> removes one space at the front, \<open>strip_ecaps\<close> one
  space at the front of the reversed string.
\<close>

definition ascii_space :: "char \<Rightarrow> bool" where
  "ascii_space c \<longleftrightarrow> c \<in> {CHR 0x09, CHR 0x0A, CHR 0x0B, CHR 0x0C, CHR 0x0D, CHR 0x20}"

definition space2 :: "char \<Rightarrow> char \<Rightarrow> bool" where
  "space2 a b \<longleftrightarrow> a = CHR 0xC2 \<and> b \<in> {CHR 0x85, CHR 0xA0}"

definition space3 :: "char \<Rightarrow> char \<Rightarrow> char \<Rightarrow> bool" where
  "space3 a b c \<longleftrightarrow>
     (a = CHR 0xE1 \<and> b = CHR 0x9A \<and> c = CHR 0x80) \<or>
     (a = CHR 0xE2 \<and> b = CHR 0x80 \<and>
        c \<in> {CHR 0x80, CHR 0x81, CHR 0x82, CHR 0x83, CHR 0x84, CHR 0x85, CHR 0x86, CHR 0x87,
             CHR 0x88, CHR 0x89, CHR 0x8A, CHR 0xA8, CHR 0xA9, CHR 0xAF}) \<or>
     (a = CHR 0xE2 \<and> b = CHR 0x81 \<and> c = CHR 0x9F) \<or>
     (a = CHR 0xE3 \<and> b = CHR 0x80 \<and> c = CHR 0x80)"

definition strip_space :: "string \<Rightarrow> string option" where
  "strip_space s = (case s of
      [] \<Rightarrow> None
    | a # r \<Rightarrow> if ascii_space a then Some r
        else (case r of
            [] \<Rightarrow> None
          | b # r' \<Rightarrow> if space2 a b then Some r'
              else (case r' of [] \<Rightarrow> None | c # r'' \<Rightarrow> if space3 a b c then Some r'' else None)))"

definition strip_ecaps :: "string \<Rightarrow> string option" where
  "strip_ecaps s = (case s of
      [] \<Rightarrow> None
    | a # r \<Rightarrow> if ascii_space a then Some r
        else (case r of
            [] \<Rightarrow> None
          | b # r' \<Rightarrow> if space2 b a then Some r'
              else (case r' of [] \<Rightarrow> None | c # r'' \<Rightarrow> if space3 c b a then Some r'' else None)))"

lemma strip_space_length: "strip_space s = Some r \<Longrightarrow> length r < length s"
  by (auto simp: strip_space_def split: list.splits if_splits)

lemma strip_ecaps_length: "strip_ecaps s = Some r \<Longrightarrow> length r < length s"
  by (auto simp: strip_ecaps_def split: list.splits if_splits)

function trim_left :: "string \<Rightarrow> string" where
  "trim_left s = (case strip_space s of None \<Rightarrow> s | Some r \<Rightarrow> trim_left r)"
  by pat_completeness auto
termination
  by (relation "measure length") (auto dest: strip_space_length)

function trim_tfel :: "string \<Rightarrow> string" where
  "trim_tfel s = (case strip_ecaps s of None \<Rightarrow> s | Some r \<Rightarrow> trim_tfel r)"
  by pat_completeness auto
termination
  by (relation "measure length") (auto dest: strip_ecaps_length)

declare trim_left.simps [simp del] trim_tfel.simps [simp del]

definition TrimSpace :: "string \<Rightarrow> string" where
  "TrimSpace s = rev (trim_tfel (rev (trim_left s)))"

lemma strip_trim_left [simp]: "strip_space (trim_left s) = None"
proof (induction s rule: trim_left.induct)
  case (1 s)
  show ?case
    by (cases "strip_space s") (auto simp: trim_left.simps [of s] 1)
qed

lemma strip_trim_tfel [simp]: "strip_ecaps (trim_tfel s) = None"
proof (induction s rule: trim_tfel.induct)
  case (1 s)
  show ?case
    by (cases "strip_ecaps s") (auto simp: trim_tfel.simps [of s] 1)
qed

lemma trim_left_id: "strip_space s = None \<Longrightarrow> trim_left s = s"
  by (simp add: trim_left.simps [of s])

lemma trim_tfel_id: "strip_ecaps s = None \<Longrightarrow> trim_tfel s = s"
  by (simp add: trim_tfel.simps [of s])

lemma TrimSpace_Nil [simp]: "TrimSpace [] = []"
  by (simp add: TrimSpace_def trim_left_id trim_tfel_id strip_space_def strip_ecaps_def)

section \<open>Decimal numerals\<close>

text \<open>\<open>strconv.Itoa\<close>.\<close>

definition digit_char :: "nat \<Rightarrow> char" where
  "digit_char d = char_of (48 + d)"

fun dec_digits :: "nat \<Rightarrow> string" where
  "dec_digits n = (if n < 10 then [digit_char n] else dec_digits (n div 10) @ [digit_char (n mod 10)])"

declare dec_digits.simps [simp del]

definition Itoa :: "int \<Rightarrow> string" where
  "Itoa i = (if i < 0 then CHR ''-'' # dec_digits (nat (- i)) else dec_digits (nat i))"

section \<open>Lists\<close>

lemma last_replicate_append: "last (xs @ replicate (Suc n) x) = x"
  by simp

lemma foldl_invariant:
  assumes "P s" and "\<And>s x. P s \<Longrightarrow> P (f s x)"
  shows "P (foldl f s xs)"
  using assms(1) by (induction xs arbitrary: s) (auto intro: assms(2))

end
