(* ===== verification/Breaker.thy ===== *)
theory Breaker
  imports Prelude
begin

text \<open>
  The circuit breaker of \<open>internal/infra/outbound/httpclient/breaker.go\<close>: its state, its five
  methods, an abstract specification (three states, each with the one number that matters in it) and
  the refinement between the two, the type invariant, what trips it, how long it stays open and which
  state changes its callback can see.

  Every method holds the mutex from its first to its last statement, so a concurrent use of a breaker
  is an interleaving of whole method calls: a list of \<open>breaker_op\<close>. The readings of \<open>time.Now\<close>
  are arguments.
\<close>

section \<open>State and methods\<close>

datatype cbState = stateClosed | stateOpen | stateHalfOpen

fun cbState_String :: "cbState \<Rightarrow> string" where
  "cbState_String stateClosed = ''closed''"
| "cbState_String stateOpen = ''open''"
| "cbState_String stateHalfOpen = ''half-open''"

record BreakerConfig =
  MaxFailures :: int
  OpenTimeout :: duration
  HalfOpenProbes :: int

definition defaultBreakerConfig :: BreakerConfig where
  "defaultBreakerConfig =
     \<lparr>MaxFailures = 5, OpenTimeout = 30 * second, HalfOpenProbes = 2\<rparr>"

text \<open>
  \<open>onChange\<close> says whether a callback is registered (the Go field is not nil); \<open>changes\<close> records its
  calls, the newest last.
\<close>

record CircuitBreaker =
  cb_state :: cbState
  failures :: int
  probes :: int
  lastFailure :: time
  cb_cfg :: BreakerConfig
  onChange :: bool
  changes :: "(string \<times> string) list"

definition NewCircuitBreaker :: "BreakerConfig \<Rightarrow> bool \<Rightarrow> CircuitBreaker" where
  "NewCircuitBreaker cfg cb =
     \<lparr>cb_state = stateClosed, failures = 0, probes = 0, lastFailure = zero_time,
      cb_cfg = cfg, onChange = cb, changes = []\<rparr>"

definition transition :: "cbState \<Rightarrow> CircuitBreaker \<Rightarrow> CircuitBreaker" where
  "transition nxt cb =
     (if cb_state cb = nxt then cb
      else
        let frm = cbState_String (cb_state cb);
            cb' = cb\<lparr>cb_state := nxt, failures := 0, probes := 0\<rparr>
        in if onChange cb then cb'\<lparr>changes := changes cb @ [(frm, cbState_String nxt)]\<rparr> else cb')"

definition Allow :: "time \<Rightarrow> CircuitBreaker \<Rightarrow> go_error option \<times> CircuitBreaker" where
  "Allow now cb = (case cb_state cb of
      stateClosed \<Rightarrow> (None, cb)
    | stateOpen \<Rightarrow>
        (if time_sub now (lastFailure cb) \<ge> OpenTimeout (cb_cfg cb)
         then (None, transition stateHalfOpen cb)
         else (Some ErrCircuitOpen, cb))
    | stateHalfOpen \<Rightarrow> (None, cb))"

definition RecordSuccess :: "CircuitBreaker \<Rightarrow> CircuitBreaker" where
  "RecordSuccess cb = (case cb_state cb of
      stateClosed \<Rightarrow> cb\<lparr>failures := 0\<rparr>
    | stateOpen \<Rightarrow> cb
    | stateHalfOpen \<Rightarrow>
        (let cb' = cb\<lparr>probes := wrap64 (probes cb + 1)\<rparr>
         in if probes cb' \<ge> HalfOpenProbes (cb_cfg cb') then transition stateClosed cb' else cb'))"

definition RecordFailure :: "time \<Rightarrow> CircuitBreaker \<Rightarrow> CircuitBreaker" where
  "RecordFailure now cb0 =
     (let cb = cb0\<lparr>lastFailure := now\<rparr>
      in case cb_state cb of
           stateClosed \<Rightarrow>
             (let cb' = cb\<lparr>failures := wrap64 (failures cb + 1)\<rparr>
              in if failures cb' \<ge> MaxFailures (cb_cfg cb') then transition stateOpen cb' else cb')
         | stateOpen \<Rightarrow> cb
         | stateHalfOpen \<Rightarrow> transition stateOpen (cb\<lparr>probes := 0\<rparr>))"

definition State :: "CircuitBreaker \<Rightarrow> string" where
  "State cb = cbState_String (cb_state cb)"

lemmas breaker_defs = NewCircuitBreaker_def transition_def Allow_def RecordSuccess_def
  RecordFailure_def Let_def

section \<open>Runs\<close>

datatype breaker_op = OpAllow time | OpSuccess | OpFailure time

fun breaker_step :: "CircuitBreaker \<Rightarrow> breaker_op \<Rightarrow> CircuitBreaker" where
  "breaker_step cb (OpAllow t) = snd (Allow t cb)"
| "breaker_step cb OpSuccess = RecordSuccess cb"
| "breaker_step cb (OpFailure t) = RecordFailure t cb"

definition breaker_run :: "CircuitBreaker \<Rightarrow> breaker_op list \<Rightarrow> CircuitBreaker" where
  "breaker_run = foldl breaker_step"

lemma breaker_run_simps [simp]:
  "breaker_run cb [] = cb"
  "breaker_run cb (op # ops) = breaker_run (breaker_step cb op) ops"
  "breaker_run cb (ops @ ops') = breaker_run (breaker_run cb ops) ops'"
  by (simp_all add: breaker_run_def)

text \<open>No method touches the configuration or the callback.\<close>

lemma breaker_step_cfg [simp]:
  "cb_cfg (breaker_step cb op) = cb_cfg cb" "onChange (breaker_step cb op) = onChange cb"
  by (cases op; cases "cb_state cb"; simp add: breaker_defs)+

lemma breaker_run_cfg [simp]:
  "cb_cfg (breaker_run cb ops) = cb_cfg cb" "onChange (breaker_run cb ops) = onChange cb"
  by (induction ops arbitrary: cb) simp_all

section \<open>The type invariant\<close>

text \<open>
  The configuration holds 64-bit values. While closed the failure count is below the threshold and
  while probing the success count is below the number of probes, so neither counter can overflow;
  each counter is zero in the states that do not use it.
\<close>

definition cfg_ok :: "BreakerConfig \<Rightarrow> bool" where
  "cfg_ok c \<longleftrightarrow> in_int64 (MaxFailures c) \<and> in_int64 (OpenTimeout c) \<and> in_int64 (HalfOpenProbes c)"

definition breaker_inv :: "CircuitBreaker \<Rightarrow> bool" where
  "breaker_inv cb \<longleftrightarrow> cfg_ok (cb_cfg cb) \<and> 0 \<le> failures cb \<and> 0 \<le> probes cb \<and>
     (case cb_state cb of
        stateClosed \<Rightarrow> probes cb = 0 \<and> (failures cb = 0 \<or> failures cb < MaxFailures (cb_cfg cb))
      | stateOpen \<Rightarrow> failures cb = 0 \<and> probes cb = 0
      | stateHalfOpen \<Rightarrow> failures cb = 0 \<and> (probes cb = 0 \<or> probes cb < HalfOpenProbes (cb_cfg cb)))"

lemma counter_succ:
  assumes "in_int64 m" "0 \<le> n" "n = 0 \<or> n < m"
  shows "wrap64 (n + 1) = n + 1"
  using assms by (intro wrap64_id) (auto simp: int64_defs)

lemma breaker_inv_new [simp, inv_intros]: "cfg_ok c \<Longrightarrow> breaker_inv (NewCircuitBreaker c b)"
  by (simp add: breaker_inv_def NewCircuitBreaker_def)

lemma closed_failures_succ:
  "breaker_inv cb \<Longrightarrow> cb_state cb = stateClosed \<Longrightarrow> wrap64 (failures cb + 1) = failures cb + 1"
  by (rule counter_succ [of "MaxFailures (cb_cfg cb)"]) (auto simp: breaker_inv_def cfg_ok_def)

lemma half_open_probes_succ:
  "breaker_inv cb \<Longrightarrow> cb_state cb = stateHalfOpen \<Longrightarrow> wrap64 (probes cb + 1) = probes cb + 1"
  by (rule counter_succ [of "HalfOpenProbes (cb_cfg cb)"]) (auto simp: breaker_inv_def cfg_ok_def)

lemma Allow_inv [inv_intros]: "breaker_inv cb \<Longrightarrow> breaker_inv (snd (Allow t cb))"
  by (cases "cb_state cb") (auto simp: breaker_inv_def breaker_defs)

lemma RecordSuccess_inv [inv_intros]:
  assumes "breaker_inv cb" shows "breaker_inv (RecordSuccess cb)"
proof (cases "cb_state cb")
  case stateHalfOpen
  with assms half_open_probes_succ [OF assms] show ?thesis
    by (auto simp: breaker_inv_def breaker_defs)
qed (use assms in \<open>auto simp: breaker_inv_def breaker_defs\<close>)

lemma RecordFailure_inv [inv_intros]:
  assumes "breaker_inv cb" shows "breaker_inv (RecordFailure t cb)"
proof (cases "cb_state cb")
  case stateClosed
  with assms closed_failures_succ [OF assms] show ?thesis
    by (auto simp: breaker_inv_def breaker_defs)
qed (use assms in \<open>auto simp: breaker_inv_def breaker_defs\<close>)

lemma breaker_step_inv [inv_intros]: "breaker_inv cb \<Longrightarrow> breaker_inv (breaker_step cb op)"
  by (cases op) (auto intro: inv_intros)

lemma breaker_run_inv [inv_intros]: "breaker_inv cb \<Longrightarrow> breaker_inv (breaker_run cb ops)"
  unfolding breaker_run_def by (rule foldl_invariant [of breaker_inv]) (auto intro: inv_intros)


section \<open>The abstract specification and the refinement\<close>

text \<open>
  What the breaker promises, with no counters that are not in use: \<open>Closed n\<close> after \<open>n\<close> consecutive
  failures, \<open>Open t\<close> with the last failure at \<open>t\<close>, \<open>Probing k\<close> after \<open>k\<close> consecutive successes.
\<close>

datatype breaker_spec = Closed int | Open time | Probing int

fun spec_step :: "BreakerConfig \<Rightarrow> breaker_spec \<Rightarrow> breaker_op \<Rightarrow> breaker_spec" where
  "spec_step c (Closed n) (OpAllow t) = Closed n"
| "spec_step c (Closed n) OpSuccess = Closed 0"
| "spec_step c (Closed n) (OpFailure t) =
     (if n + 1 \<ge> MaxFailures c then Open t else Closed (n + 1))"
| "spec_step c (Open u) (OpAllow t) =
     (if time_sub t u \<ge> OpenTimeout c then Probing 0 else Open u)"
| "spec_step c (Open u) OpSuccess = Open u"
| "spec_step c (Open u) (OpFailure t) = Open t"
| "spec_step c (Probing k) (OpAllow t) = Probing k"
| "spec_step c (Probing k) OpSuccess =
     (if k + 1 \<ge> HalfOpenProbes c then Closed 0 else Probing (k + 1))"
| "spec_step c (Probing k) (OpFailure t) = Open t"

definition spec_run :: "BreakerConfig \<Rightarrow> breaker_spec \<Rightarrow> breaker_op list \<Rightarrow> breaker_spec" where
  "spec_run c = foldl (spec_step c)"

lemma spec_run_simps [simp]:
  "spec_run c s [] = s"
  "spec_run c s (op # ops) = spec_run c (spec_step c s op) ops"
  by (simp_all add: spec_run_def)

definition abs_breaker :: "CircuitBreaker \<Rightarrow> breaker_spec" where
  "abs_breaker cb = (case cb_state cb of
      stateClosed \<Rightarrow> Closed (failures cb)
    | stateOpen \<Rightarrow> Open (lastFailure cb)
    | stateHalfOpen \<Rightarrow> Probing (probes cb))"

definition spec_rejects :: "BreakerConfig \<Rightarrow> breaker_spec \<Rightarrow> time \<Rightarrow> bool" where
  "spec_rejects c s t \<longleftrightarrow> (case s of Open u \<Rightarrow> time_sub t u < OpenTimeout c | _ \<Rightarrow> False)"

lemma abs_breaker_new [simp]: "abs_breaker (NewCircuitBreaker c b) = Closed 0"
  by (simp add: abs_breaker_def NewCircuitBreaker_def)

lemma new_breaker_cfg [simp]:
  "cb_cfg (NewCircuitBreaker c b) = c" "onChange (NewCircuitBreaker c b) = b"
  "cb_state (NewCircuitBreaker c b) = stateClosed" "changes (NewCircuitBreaker c b) = []"
  "failures (NewCircuitBreaker c b) = 0" "probes (NewCircuitBreaker c b) = 0"
  by (simp_all add: NewCircuitBreaker_def)

lemma abs_breaker_step:
  assumes "breaker_inv cb"
  shows "abs_breaker (breaker_step cb op) = spec_step (cb_cfg cb) (abs_breaker cb) op"
proof (cases "cb_state cb")
  case stateClosed
  with closed_failures_succ [OF assms] show ?thesis
    by (cases op) (auto simp: abs_breaker_def breaker_defs)
next
  case stateOpen
  then show ?thesis by (cases op) (auto simp: abs_breaker_def breaker_defs)
next
  case stateHalfOpen
  with half_open_probes_succ [OF assms] show ?thesis
    by (cases op) (auto simp: abs_breaker_def breaker_defs)
qed

lemma abs_breaker_run:
  "breaker_inv cb \<Longrightarrow> abs_breaker (breaker_run cb ops) = spec_run (cb_cfg cb) (abs_breaker cb) ops"
  by (induction ops arbitrary: cb) (simp_all add: abs_breaker_step breaker_step_inv)

lemma Allow_rejects_iff:
  "fst (Allow t cb) = (if spec_rejects (cb_cfg cb) (abs_breaker cb) t then Some ErrCircuitOpen else None)"
  by (cases "cb_state cb") (auto simp: spec_rejects_def abs_breaker_def breaker_defs)

text \<open>
  C15: the breaker refines its specification. Any sequence of calls on a new breaker leads to the state
  the three-state specification computes, and \<open>Allow\<close> rejects a request exactly when the
  specification is open and less than \<open>OpenTimeout\<close> has passed since the last failure.
\<close>

theorem breaker_refines_spec:
  assumes "cfg_ok c"
  shows "abs_breaker (breaker_run (NewCircuitBreaker c b) ops) = spec_run c (Closed 0) ops \<and>
         fst (Allow t (breaker_run (NewCircuitBreaker c b) ops)) =
           (if spec_rejects c (spec_run c (Closed 0) ops) t then Some ErrCircuitOpen else None)"
  using abs_breaker_run [OF breaker_inv_new [OF assms], of b ops]
  by (simp add: Allow_rejects_iff)

lemma default_cfg_ok [simp]: "cfg_ok defaultBreakerConfig"
  by (simp add: cfg_ok_def defaultBreakerConfig_def int64_defs duration_defs)

theorem breaker_refines_spec_witness:
  "abs_breaker (breaker_run (NewCircuitBreaker defaultBreakerConfig True)
     (replicate 5 (OpFailure 7))) = Open 7 \<and>
   fst (Allow 8 (breaker_run (NewCircuitBreaker defaultBreakerConfig True)
     (replicate 5 (OpFailure 7)))) = Some ErrCircuitOpen"
  using breaker_refines_spec [OF default_cfg_ok, of True "replicate 5 (OpFailure 7)" 8]
  by (simp add: numeral_eq_Suc defaultBreakerConfig_def spec_rejects_def time_sub_def sat64_def
      int64_defs duration_defs)

section \<open>What trips it\<close>

text \<open>\<open>failure_streak\<close>: the failures since the last success; \<open>Allow\<close> does not count.\<close>

fun streak_step :: "int \<Rightarrow> breaker_op \<Rightarrow> int" where
  "streak_step n (OpAllow t) = n"
| "streak_step n OpSuccess = 0"
| "streak_step n (OpFailure t) = n + 1"

definition failure_streak :: "breaker_op list \<Rightarrow> int" where
  "failure_streak = foldl streak_step 0"

text \<open>\<open>stays_closed s ops\<close>: the specification is closed before and after every one of the calls.\<close>

fun stays_closed :: "CircuitBreaker \<Rightarrow> breaker_op list \<Rightarrow> bool" where
  "stays_closed cb [] \<longleftrightarrow> cb_state cb = stateClosed"
| "stays_closed cb (op # ops) \<longleftrightarrow> cb_state cb = stateClosed \<and> stays_closed (breaker_step cb op) ops"

fun streaks_below :: "int \<Rightarrow> int \<Rightarrow> breaker_op list \<Rightarrow> bool" where
  "streaks_below m n [] \<longleftrightarrow> n < m"
| "streaks_below m n (op # ops) \<longleftrightarrow> n < m \<and> streaks_below m (streak_step n op) ops"

lemma all_nat_split: "(\<forall>k. P (case k of 0 \<Rightarrow> a | Suc j \<Rightarrow> f j)) \<longleftrightarrow> P a \<and> (\<forall>j. P (f j))"
  by (metis nat.case nat.exhaust)

lemma streaks_below_iff:
  "streaks_below m n ops \<longleftrightarrow> (\<forall>k. foldl streak_step n (take k ops) < m)"
proof (induction ops arbitrary: n)
  case Nil
  then show ?case by simp
next
  case (Cons op ops)
  have "foldl streak_step n (take k (op # ops)) =
      (case k of 0 \<Rightarrow> n | Suc j \<Rightarrow> foldl streak_step (streak_step n op) (take j ops))" for k
    by (cases k) simp_all
  then have "(\<forall>k. foldl streak_step n (take k (op # ops)) < m) \<longleftrightarrow>
      n < m \<and> (\<forall>k. foldl streak_step (streak_step n op) (take k ops) < m)"
    using all_nat_split [of "\<lambda>x. x < m"] by simp
  then show ?case by (simp add: Cons.IH)
qed


lemma streaks_below_head: "streaks_below m n ops \<Longrightarrow> n < m"
  by (cases ops) simp_all

lemma stays_closed_head: "stays_closed cb ops \<Longrightarrow> cb_state cb = stateClosed"
  by (cases ops) simp_all

lemma closed_step:
  assumes "breaker_inv cb" "cb_state cb = stateClosed"
  shows "cb_state (breaker_step cb op) = stateClosed \<longleftrightarrow>
           (streak_step (failures cb) op < MaxFailures (cb_cfg cb) \<or> (\<forall>t. op \<noteq> OpFailure t))"
    and "cb_state (breaker_step cb op) = stateClosed \<Longrightarrow>
           failures (breaker_step cb op) = streak_step (failures cb) op"
proof -
  note w = closed_failures_succ [OF assms]
  show "cb_state (breaker_step cb op) = stateClosed \<longleftrightarrow>
      (streak_step (failures cb) op < MaxFailures (cb_cfg cb) \<or> (\<forall>t. op \<noteq> OpFailure t))"
    by (cases op) (simp_all add: breaker_defs assms w not_le)
  show "cb_state (breaker_step cb op) = stateClosed \<Longrightarrow>
      failures (breaker_step cb op) = streak_step (failures cb) op"
    by (cases op) (simp_all add: breaker_defs assms w split: if_splits)
qed

lemma stays_closed_iff:
  assumes "breaker_inv cb" "cb_state cb = stateClosed" "failures cb < MaxFailures (cb_cfg cb)"
    "0 < MaxFailures (cb_cfg cb)"
  shows "stays_closed cb ops \<longleftrightarrow> streaks_below (MaxFailures (cb_cfg cb)) (failures cb) ops"
  using assms
proof (induction ops arbitrary: cb)
  case Nil
  then show ?case by simp
next
  case (Cons op ops)
  note inv = breaker_step_inv [OF Cons.prems(1), of op]
  note step = closed_step [OF Cons.prems(1,2), of op]
  show ?case
  proof (cases "cb_state (breaker_step cb op) = stateClosed")
    case True
    then have lt: "streak_step (failures cb) op < MaxFailures (cb_cfg cb)"
      using step(1) Cons.prems(3,4) by (cases op) auto
    show ?thesis
      using Cons.IH [OF inv True] step(2) [OF True] lt Cons.prems by simp
  next
    case False
    then have "\<not> streak_step (failures cb) op < MaxFailures (cb_cfg cb)"
      using step(1) by blast
    with False show ?thesis
      by (auto dest: stays_closed_head streaks_below_head)
  qed
qed

text \<open>
  C37: \<open>MaxFailures\<close> consecutive failures, and nothing else, trip the breaker. With a positive
  threshold a new breaker is closed throughout a sequence of calls exactly when no prefix of the
  sequence ends in \<open>MaxFailures\<close> failures with no success between them.
\<close>

theorem breaker_trips_iff:
  assumes "cfg_ok c" "0 < MaxFailures c"
  shows "stays_closed (NewCircuitBreaker c b) ops \<longleftrightarrow>
           (\<forall>k. failure_streak (take k ops) < MaxFailures c)"
  using stays_closed_iff [OF breaker_inv_new [OF assms(1)], of b ops] assms(2)
  by (simp add: streaks_below_iff failure_streak_def)

theorem breaker_trips_iff_witness:
  "\<not> stays_closed (NewCircuitBreaker defaultBreakerConfig True) (replicate 5 (OpFailure 7))"
proof -
  have "failure_streak (take 5 (replicate 5 (OpFailure 7))) = 5"
    by (simp add: failure_streak_def numeral_eq_Suc)
  then have "\<not> (\<forall>k. failure_streak (take k (replicate 5 (OpFailure 7)))
      < MaxFailures defaultBreakerConfig)"
    by (intro notI) (drule spec [of _ 5], simp add: defaultBreakerConfig_def)
  moreover have "0 < MaxFailures defaultBreakerConfig" by (simp add: defaultBreakerConfig_def)
  ultimately show ?thesis using breaker_trips_iff [OF default_cfg_ok] by blast
qed

section \<open>While it is open\<close>

text \<open>
  A call on an open breaker whose last failure was at \<open>t\<^sub>0\<close> comes too early to probe: \<open>Allow\<close> before
  the timeout is over, a failure recorded no earlier than \<open>t\<^sub>0\<close>, any success.
\<close>

fun too_early :: "duration \<Rightarrow> time \<Rightarrow> breaker_op \<Rightarrow> bool" where
  "too_early d t0 (OpAllow t) \<longleftrightarrow> t - t0 < d"
| "too_early d t0 OpSuccess \<longleftrightarrow> True"
| "too_early d t0 (OpFailure t) \<longleftrightarrow> t0 \<le> t"

lemma sat64_less: "in_int64 d \<Longrightarrow> 0 \<le> d \<Longrightarrow> x < d \<Longrightarrow> sat64 x < d"
  by (auto simp: sat64_def int64_defs)

lemma open_step:
  assumes "cb_state cb = stateOpen" "t0 \<le> lastFailure cb" "cfg_ok (cb_cfg cb)"
    "0 \<le> OpenTimeout (cb_cfg cb)"
    "too_early (OpenTimeout (cb_cfg cb)) t0 op"
  shows "cb_state (breaker_step cb op) = stateOpen" "t0 \<le> lastFailure (breaker_step cb op)"
proof -
  have "op = OpAllow t \<Longrightarrow> time_sub t (lastFailure cb) < OpenTimeout (cb_cfg cb)" for t
    using assms unfolding time_sub_def by (intro sat64_less) (auto simp: cfg_ok_def)
  then show "cb_state (breaker_step cb op) = stateOpen" "t0 \<le> lastFailure (breaker_step cb op)"
    using assms by (cases op; force simp: breaker_defs)+
qed

lemma open_run:
  assumes "cb_state cb = stateOpen" "t0 \<le> lastFailure cb" "cfg_ok (cb_cfg cb)"
    "0 \<le> OpenTimeout (cb_cfg cb)"
    "list_all (too_early (OpenTimeout (cb_cfg cb)) t0) ops"
  shows "cb_state (breaker_run cb ops) = stateOpen \<and> t0 \<le> lastFailure (breaker_run cb ops)"
  using assms
proof (induction ops arbitrary: cb)
  case Nil
  then show ?case by simp
next
  case (Cons op ops)
  from Cons.prems have "too_early (OpenTimeout (cb_cfg cb)) t0 op" by simp
  note step = open_step [OF Cons.prems(1-4) this]
  show ?case using Cons.IH [OF step] Cons.prems(3-5) by simp
qed

text \<open>
  An open breaker fails fast. Whatever requests in flight report in the meantime, every \<open>Allow\<close>
  within \<open>OpenTimeout\<close> of the last failure is rejected with \<open>ErrCircuitOpen\<close> and changes nothing.
\<close>

theorem open_fails_fast:
  assumes "cfg_ok (cb_cfg cb)" "0 \<le> OpenTimeout (cb_cfg cb)" "cb_state cb = stateOpen"
    and "list_all (too_early (OpenTimeout (cb_cfg cb)) (lastFailure cb)) ops"
    and "t - lastFailure cb < OpenTimeout (cb_cfg cb)"
  shows "Allow t (breaker_run cb ops) = (Some ErrCircuitOpen, breaker_run cb ops)"
proof -
  let ?cb = "breaker_run cb ops"
  have o: "cb_state ?cb = stateOpen" and l: "lastFailure cb \<le> lastFailure ?cb"
    using open_run [OF assms(3) order_refl assms(1,2,4)] by auto
  have "time_sub t (lastFailure ?cb) < OpenTimeout (cb_cfg ?cb)"
    using assms(1,2,5) l unfolding time_sub_def by (intro sat64_less) (auto simp: cfg_ok_def)
  with o show ?thesis by (simp add: Allow_def)
qed

theorem open_fails_fast_witness:
  "let cb = breaker_run (NewCircuitBreaker defaultBreakerConfig True) (replicate 5 (OpFailure 7))
   in Allow 30000000006 (breaker_run cb [OpSuccess, OpAllow 9, OpFailure 10])
        = (Some ErrCircuitOpen, breaker_run cb [OpSuccess, OpAllow 9, OpFailure 10])"
proof -
  let ?cb = "breaker_run (NewCircuitBreaker defaultBreakerConfig True) (replicate 5 (OpFailure 7))"
  have o: "cb_state ?cb = stateOpen" "lastFailure ?cb = 7"
    by (simp_all add: numeral_eq_Suc defaultBreakerConfig_def breaker_defs wrap64_def)
  show ?thesis unfolding Let_def
    by (rule open_fails_fast)
      (use o in \<open>simp_all add: defaultBreakerConfig_def duration_defs cfg_ok_def int64_defs\<close>)
qed


section \<open>Recovery\<close>

lemma half_open_successes:
  assumes "breaker_inv cb" "cb_state cb = stateHalfOpen" "probes cb + int n < HalfOpenProbes (cb_cfg cb)"
  shows "cb_state (breaker_run cb (replicate n OpSuccess)) = stateHalfOpen \<and>
         probes (breaker_run cb (replicate n OpSuccess)) = probes cb + int n"
  using assms
proof (induction n arbitrary: cb)
  case 0
  then show ?case by simp
next
  case (Suc n)
  have s: "cb_state (RecordSuccess cb) = stateHalfOpen" "probes (RecordSuccess cb) = probes cb + 1"
    using Suc.prems(2,3) half_open_probes_succ [OF Suc.prems(1,2)] by (simp_all add: breaker_defs)
  have c: "cb_cfg (RecordSuccess cb) = cb_cfg cb"
    using breaker_step_cfg(1) [of cb OpSuccess] by simp
  show ?case
    using Suc.IH [OF RecordSuccess_inv [OF Suc.prems(1)] s(1)] Suc.prems(3) by (simp add: s c)
qed

text \<open>
  Recovery. The first \<open>Allow\<close> at least \<open>OpenTimeout\<close> after the last failure lets the request
  through and starts probing; then \<open>HalfOpenProbes\<close> consecutive successes (at least one) close the
  breaker, one fewer leave it probing, and a failure after any smaller number of successes opens it
  again with that failure as the last one.
\<close>

theorem breaker_recovers:
  fixes cb :: CircuitBreaker and n :: nat
  assumes "breaker_inv cb" "cb_state cb = stateOpen"
    and "HalfOpenProbes (cb_cfg cb) = int (Suc n)"
    and "OpenTimeout (cb_cfg cb) \<le> time_sub t (lastFailure cb)"
    and "k \<le> n"
  shows "fst (Allow t cb) = None \<and>
         cb_state (breaker_run cb (OpAllow t # replicate n OpSuccess)) = stateHalfOpen \<and>
         cb_state (breaker_run cb (OpAllow t # replicate n OpSuccess @ [OpSuccess])) = stateClosed \<and>
         abs_breaker (breaker_run cb (OpAllow t # replicate k OpSuccess @ [OpFailure u])) = Open u"
proof -
  let ?h = "snd (Allow t cb)"
  have h: "cb_state ?h = stateHalfOpen" "probes ?h = 0" "cb_cfg ?h = cb_cfg cb" "fst (Allow t cb) = None"
    using assms(2,4) by (simp_all add: breaker_defs)
  note inv = Allow_inv [OF assms(1), of t]
  have run: "cb_state (breaker_run ?h (replicate j OpSuccess)) = stateHalfOpen \<and>
      probes (breaker_run ?h (replicate j OpSuccess)) = int j" if "j \<le> n" for j
    using half_open_successes [OF inv h(1), of j] that assms(3) h by simp
  have last: "cb_state (RecordSuccess (breaker_run ?h (replicate n OpSuccess))) = stateClosed"
    using run [OF order_refl] half_open_probes_succ [OF breaker_run_inv [OF inv], of "replicate n OpSuccess"]
      assms(3) h(3) by (simp add: breaker_defs)
  have "abs_breaker (RecordFailure u (breaker_run ?h (replicate k OpSuccess))) = Open u"
    using run [OF assms(5)] by (simp add: breaker_defs abs_breaker_def)
  with h last run [OF order_refl] show ?thesis by simp
qed

theorem breaker_recovers_witness:
  "let cb = breaker_run (NewCircuitBreaker defaultBreakerConfig True) (replicate 5 (OpFailure 7))
   in cb_state (breaker_run cb (OpAllow 30000000007 # replicate 1 OpSuccess @ [OpSuccess])) = stateClosed"
proof -
  let ?cb = "breaker_run (NewCircuitBreaker defaultBreakerConfig True) (replicate 5 (OpFailure 7))"
  have o: "cb_state ?cb = stateOpen" "lastFailure ?cb = 7"
    by (simp_all add: numeral_eq_Suc defaultBreakerConfig_def breaker_defs wrap64_def)
  have i: "breaker_inv ?cb" by (rule breaker_run_inv [OF breaker_inv_new [OF default_cfg_ok]])
  show ?thesis unfolding Let_def
    using breaker_recovers [OF i o(1), of 1 30000000007 0]
    by (simp add: o(2)) (simp add: defaultBreakerConfig_def duration_defs time_sub_def sat64_def int64_defs)
qed

section \<open>What the callback sees\<close>

text \<open>
  A path of state changes: each change starts in the state the one before ended in and is one of the
  four legal ones.
\<close>

definition legal_change :: "string \<times> string \<Rightarrow> bool" where
  "legal_change c \<longleftrightarrow> c \<in> {(''closed'', ''open''), (''open'', ''half-open''),
     (''half-open'', ''open''), (''half-open'', ''closed'')}"

fun change_path :: "string \<Rightarrow> (string \<times> string) list \<Rightarrow> string \<Rightarrow> bool" where
  "change_path s [] e \<longleftrightarrow> s = e"
| "change_path s ((a, b) # cs) e \<longleftrightarrow> a = s \<and> legal_change (a, b) \<and> change_path b cs e"

lemma change_path_append [simp]:
  "change_path s (cs @ cs') e \<longleftrightarrow> (\<exists>m. change_path s cs m \<and> change_path m cs' e)"
  by (induction s cs e rule: change_path.induct) auto

lemma breaker_step_changes:
  assumes "onChange cb"
  shows "changes (breaker_step cb op) = changes cb \<and> State (breaker_step cb op) = State cb \<or>
    (\<exists>a b. changes (breaker_step cb op) = changes cb @ [(a, b)] \<and> legal_change (a, b) \<and>
       a = State cb \<and> b = State (breaker_step cb op))"
  using assms
  by (cases op; cases "cb_state cb") (simp_all add: breaker_defs State_def legal_change_def)

text \<open>
  The callback sees every state change, in order. On a breaker with a callback, the recorded calls
  lead step by step from the closed state to the state \<open>State\<close> reports, and every one is closed to
  open, open to half-open, half-open to open or half-open to closed: an open breaker never closes
  without probing.
\<close>

theorem breaker_changes_path:
  "change_path ''closed'' (changes (breaker_run (NewCircuitBreaker c True) ops))
     (State (breaker_run (NewCircuitBreaker c True) ops))"
proof (induction ops rule: rev_induct)
  case Nil
  show ?case by (simp add: State_def)
next
  case (snoc op ops)
  let ?cb = "breaker_run (NewCircuitBreaker c True) ops"
  have "onChange ?cb" by simp
  from breaker_step_changes [OF this, of op] snoc.IH show ?case by auto
qed

end
