(* ===== verification/Metrics.thy ===== *)
theory Metrics
  imports Prelude
begin

text \<open>
  \<open>internal/platform/metrics/metrics.go\<close>: the Prometheus instruments the program registers and the
  increments it makes. A counter vector is the number of increments of each combination of label
  values, a gauge vector the last value set. Sampling, exposition and the histogram's buckets belong
  to the client library and are left out; an observation of the histogram is counted.
\<close>

type_synonym counter_vec = "string list \<Rightarrow> nat"

record metrics =
  HTTPRequestsTotal :: counter_vec
  HTTPRequestDuration :: counter_vec
  EventsProcessedTotal :: counter_vec
  EventsFailedTotal :: counter_vec
  EventsDuplicateTotal :: nat
  QueueLagMessages :: "string list \<Rightarrow> int"
  OutboundRequestsTotal :: counter_vec

definition Inc :: "string list \<Rightarrow> counter_vec \<Rightarrow> counter_vec" where
  "Inc ls c = c(ls := Suc (c ls))"

lemma Inc_apply [simp]: "Inc ls c ls' = (if ls' = ls then Suc (c ls) else c ls')"
  by (simp add: Inc_def)

text \<open>
  The names under which \<open>New\<close> registers its own seven instruments (namespace, subsystem and name
  joined with underscores) with their label names. \<open>MustRegister\<close> panics on a name that is already
  registered.
\<close>

definition instruments :: "(string \<times> string list) list" where
  "instruments =
     [(''platform_http_requests_total'', [''method'', ''path'', ''status'']),
      (''platform_http_request_duration_seconds'', [''method'', ''path'']),
      (''platform_events_processed_total'', [''source'', ''status'']),
      (''platform_events_failed_total'', [''source'', ''reason'']),
      (''platform_events_duplicate_total'', []),
      (''platform_queue_lag_messages'', [''topic'']),
      (''platform_http_outbound_requests_total'', [''target'', ''method'', ''status''])]"

fun MustRegister :: "string list \<Rightarrow> (string \<times> string list) list \<Rightarrow> string list outcome" where
  "MustRegister reg [] = Returns reg"
| "MustRegister reg ((n, ls) # is) =
     (if n \<in> set reg then Panics ''duplicate metrics collector registration attempted''
      else MustRegister (reg @ [n]) is)"

definition new_metrics :: metrics where
  "new_metrics = \<lparr>HTTPRequestsTotal = (\<lambda>_. 0), HTTPRequestDuration = (\<lambda>_. 0),
     EventsProcessedTotal = (\<lambda>_. 0), EventsFailedTotal = (\<lambda>_. 0), EventsDuplicateTotal = 0,
     QueueLagMessages = (\<lambda>_. 0), OutboundRequestsTotal = (\<lambda>_. 0)\<rparr>"

text \<open>\<open>runtime\<close>: the names the Go and process collectors have registered before.\<close>

definition New_metrics :: "string list \<Rightarrow> (metrics \<times> string list) outcome" where
  "New_metrics runtime = (case MustRegister runtime instruments of
      Panics p \<Rightarrow> Panics p
    | Returns reg \<Rightarrow> Returns (new_metrics, reg))"

lemma MustRegister_Returns:
  "MustRegister reg is = Returns reg' \<longleftrightarrow>
     reg' = reg @ map fst is \<and> distinct (map fst is) \<and> set (map fst is) \<inter> set reg = {}"
  by (induction reg "is" rule: MustRegister.induct) auto

end
