(* ===== verification/HttpClient.thy ===== *)
theory HttpClient
  imports Breaker Metrics
begin

text \<open>
  The resilient HTTP client, \<open>internal/infra/outbound/httpclient/retry.go\<close> and \<open>client.go\<close>: the
  retryable statuses, the jittered exponential back-off with its float conversion, one attempt, the
  retry loop around the circuit breaker, and the outcome of \<open>Do\<close>.

  The network, the URL parser of \<open>net/http\<close>, the trace propagator, the random source, the clock and
  the cancellation of the context are parameters, collected in the record \<open>do_env\<close> and indexed by
  the attempt. Tracing spans and log lines have no effect on the result and are left out.
\<close>

section \<open>retry.go\<close>

definition baseDelay :: duration where "baseDelay = 100 * millisecond"
definition maxDelay :: duration where "maxDelay = 30 * second"

definition retryableStatus :: "int \<Rightarrow> bool" where
  "retryableStatus code \<longleftrightarrow> code = 429 \<or> code = 502 \<or> code = 503 \<or> code = 504 \<or> code \<ge> 500"

text \<open>
  \<open>time.Duration(float64(baseDelay) * math.Pow(2, float64(attempt)))\<close>. The product is exact: scaling by
  a power of two loses no bits. Its conversion to \<open>int64\<close> is exact while it fits; for a float outside
  the range (the product overflowing to infinity included) the Go specification leaves the result to
  the implementation, which \<open>oor\<close> stands for, as a function of the attempt.
\<close>

definition scaled_delay :: "(nat \<Rightarrow> int) \<Rightarrow> nat \<Rightarrow> duration" where
  "scaled_delay oor n =
     (let p = baseDelay * 2 ^ n in if p \<le> max_int64 then p else oor n)"

text \<open>\<open>rand.Int63n(n)\<close> panics unless \<open>n\<close> is positive; \<open>r\<close> is the random source's draw.\<close>

definition Int63n :: "int \<Rightarrow> int \<Rightarrow> int outcome" where
  "Int63n r n = (if n \<le> 0 then Panics ''invalid argument to Int63n'' else Returns (r mod n))"

definition backoff :: "(nat \<Rightarrow> int) \<Rightarrow> int \<Rightarrow> nat \<Rightarrow> duration outcome" where
  "backoff oor r attempt =
     (let ceiling = scaled_delay oor attempt;
          ceiling = (if ceiling > maxDelay then maxDelay else ceiling)
      in Int63n r (wrap64 (ceiling + 1)))"

lemmas backoff_defs = backoff_def scaled_delay_def Int63n_def baseDelay_def maxDelay_def

lemma pow36: "(2::int) ^ 36 = 68719476736" and pow37: "(2::int) ^ 37 = 137438953472"
  by simp_all

lemma scaled_delay_small:
  assumes "n \<le> 36" shows "scaled_delay oor n = baseDelay * 2 ^ n"
proof -
  have "(2::int) ^ n \<le> 2 ^ 36" using assms by (rule power_increasing) simp
  then show ?thesis
    by (simp add: scaled_delay_def Let_def baseDelay_def duration_defs max_int64_def pow36)
qed

lemma scaled_delay_large:
  assumes "37 \<le> n" shows "scaled_delay oor n = oor n"
proof -
  have "(2::int) ^ 37 \<le> 2 ^ n" using assms by (rule power_increasing) simp
  then show ?thesis
    by (simp add: scaled_delay_def Let_def baseDelay_def duration_defs max_int64_def)
qed

lemma backoff_small:
  assumes "n \<le> 36"
  shows "backoff oor r n = Returns (r mod (min maxDelay (baseDelay * 2 ^ n) + 1))"
proof -
  have pos: "\<not> 100000000 * 2 ^ n + 1 \<le> (0::int)" by (simp add: not_le add_pos_pos)
  show ?thesis
    by (auto simp: pos backoff_def scaled_delay_small [OF assms] Int63n_def min_def
        maxDelay_def baseDelay_def duration_defs int64_defs Let_def)
qed

text \<open>
  C32: the delay before a retry. For every attempt up to 36, whatever the platform's float conversion
  does, \<open>backoff\<close> returns a delay of at least zero and at most the smaller of 30 s and
  100 ms times \<open>2^attempt\<close>, and every delay in that range is the result for some random draw (full
  jitter).
\<close>

theorem backoff_full_jitter:
  assumes "n \<le> 36"
  shows "(\<exists>r. backoff oor r n = Returns d) \<longleftrightarrow> 0 \<le> d \<and> d \<le> min maxDelay (baseDelay * 2 ^ n)"
proof -
  define m where "m = min maxDelay (baseDelay * 2 ^ n)"
  have m: "0 < m + 1" by (simp add: m_def maxDelay_def baseDelay_def duration_defs add_pos_pos)
  have "(\<exists>r. r mod (m + 1) = d) \<longleftrightarrow> 0 \<le> d \<and> d < m + 1"
    using m by (metis mod_pos_pos_trivial pos_mod_bound pos_mod_sign)
  then show ?thesis by (simp add: backoff_small [OF assms] m_def [symmetric])
qed

theorem backoff_full_jitter_witness:
  "\<exists>r. backoff (\<lambda>_. 0) r 20 = Returns 30000000000"
  by (subst backoff_full_jitter) (simp_all add: maxDelay_def baseDelay_def duration_defs)

text \<open>
  Past attempt 36 the result depends on the platform. Where an out-of-range float converts to the
  smallest \<open>int64\<close> (as on amd64), \<open>backoff\<close> panics for every attempt from 37 on; where it converts to
  the largest (as on arm64), the delay is still between zero and 30 s.
\<close>

theorem backoff_overflow:
  assumes "37 \<le> n"
  shows "(oor n = min_int64 \<longrightarrow> backoff oor r n = Panics ''invalid argument to Int63n'') \<and>
         (oor n = max_int64 \<longrightarrow> (\<exists>d. backoff oor r n = Returns d \<and> 0 \<le> d \<and> d \<le> maxDelay))"
  by (auto simp: backoff_def scaled_delay_large [OF assms] Int63n_def Let_def maxDelay_def
      duration_defs int64_defs wrap64_def)

theorem backoff_overflow_witness:
  "backoff (\<lambda>_. min_int64) 5 37 = Panics ''invalid argument to Int63n''"
  using backoff_overflow [of 37 "\<lambda>_. min_int64" 5] by simp


section \<open>client.go: one attempt\<close>

text \<open>
  HTTP headers: canonical names mapped to values. \<open>textproto.CanonicalMIMEHeaderKey\<close> upper-cases the
  first letter and every letter after a hyphen, lower-cases the others, and leaves a key with a byte
  that is no token character as it is.
\<close>

type_synonym headers = "string \<Rightarrow> string list option"

definition is_upper :: "char \<Rightarrow> bool" where
  "is_upper c \<longleftrightarrow> 65 \<le> (of_char c :: nat) \<and> (of_char c :: nat) \<le> 90"
definition is_lower :: "char \<Rightarrow> bool" where
  "is_lower c \<longleftrightarrow> 97 \<le> (of_char c :: nat) \<and> (of_char c :: nat) \<le> 122"
definition is_digit :: "char \<Rightarrow> bool" where
  "is_digit c \<longleftrightarrow> 48 \<le> (of_char c :: nat) \<and> (of_char c :: nat) \<le> 57"
definition to_upper :: "char \<Rightarrow> char" where
  "to_upper c = (if is_lower c then char_of ((of_char c :: nat) - 32) else c)"
definition to_lower :: "char \<Rightarrow> char" where
  "to_lower c = (if is_upper c then char_of ((of_char c :: nat) + 32) else c)"

definition token_char :: "char \<Rightarrow> bool" where
  "token_char c \<longleftrightarrow> is_upper c \<or> is_lower c \<or> is_digit c \<or> c \<in> set ''!#$%&*+-.^_|~'' \<or>
     c = CHR 0x27 \<or> c = CHR 0x60"

fun canon_from :: "bool \<Rightarrow> string \<Rightarrow> string" where
  "canon_from up [] = []"
| "canon_from up (c # cs) =
     (if up then to_upper c else to_lower c) # canon_from (c = CHR ''-'') cs"

definition CanonicalHeaderKey :: "string \<Rightarrow> string" where
  "CanonicalHeaderKey k = (if list_all token_char k then canon_from True k else k)"

definition Header_Set :: "string \<Rightarrow> string \<Rightarrow> headers \<Rightarrow> headers" where
  "Header_Set k v h = h(CanonicalHeaderKey k \<mapsto> [v])"

definition Header_Get :: "string \<Rightarrow> headers \<Rightarrow> string" where
  "Header_Get k h = (case h (CanonicalHeaderKey k) of Some (v # _) \<Rightarrow> v | _ \<Rightarrow> [])"

record Response =
  StatusCode :: int
  Body :: string
  Headers :: headers

text \<open>A request as it goes out; a \<open>nil\<close> body is \<open>None\<close>.\<close>

record request =
  rq_method :: string
  rq_url :: string
  rq_body :: "string option"
  rq_headers :: headers

text \<open>What \<open>http.Client.Do\<close> gives: a status, headers, and a body whose reading can fail.\<close>

record raw_response =
  raw_status :: int
  raw_headers :: headers
  raw_body :: "go_error + string"

record Client_Config =
  cfg_BaseURL :: string
  cfg_Timeout :: duration
  cfg_MaxRetries :: int
  cfg_DefaultHeaders :: "(string \<times> string) list"
  cfg_Breaker :: BreakerConfig
  cfg_Target :: string

definition DefaultConfig :: "string \<Rightarrow> string \<Rightarrow> Client_Config" where
  "DefaultConfig base target = \<lparr>cfg_BaseURL = base, cfg_Timeout = 10 * second, cfg_MaxRetries = 3,
     cfg_DefaultHeaders = [], cfg_Breaker = defaultBreakerConfig, cfg_Target = target\<rparr>"

text \<open>
  The client; \<open>cl_headers\<close> lists the default headers in the order the loop over the map visits them,
  \<open>cl_metrics\<close> is \<open>None\<close> for a \<open>nil\<close> pointer.
\<close>

record Client =
  cl_timeout :: duration
  cl_baseURL :: string
  cl_headers :: "(string \<times> string) list"
  cl_maxRetries :: int
  cl_breaker :: CircuitBreaker
  cl_metrics :: "metrics option"
  cl_target :: string

definition New_client :: "Client_Config \<Rightarrow> metrics option \<Rightarrow> Client" where
  "New_client cfg m = \<lparr>cl_timeout = cfg_Timeout cfg, cl_baseURL = cfg_BaseURL cfg,
     cl_headers = cfg_DefaultHeaders cfg, cl_maxRetries = cfg_MaxRetries cfg,
     cl_breaker = NewCircuitBreaker (cfg_Breaker cfg) True, cl_metrics = m,
     cl_target = cfg_Target cfg\<rparr>"

text \<open>
  What a call of \<open>Do\<close> reads from outside: the checks of \<open>http.NewRequestWithContext\<close>, the header
  injection of the trace propagator, the network, the random draws, the out-of-range float
  conversion, whether the \<open>select\<close> before an attempt takes the branch of the cancelled context (and the
  context's error), the clock at the two breaker calls of an attempt, and what the other calls of the
  client do to the breaker, which they share, before each of the two.
\<close>

record do_env =
  build :: "string \<Rightarrow> string \<Rightarrow> go_error option"
  inject :: "headers \<Rightarrow> headers"
  http_Do :: "nat \<Rightarrow> request \<Rightarrow> go_error + raw_response"
  jitter :: "nat \<Rightarrow> int"
  float_oor :: "nat \<Rightarrow> int"
  ctx_done :: "nat \<Rightarrow> go_error option"
  allow_at :: "nat \<Rightarrow> time"
  fail_at :: "nat \<Rightarrow> time"
  before_allow :: "nat \<Rightarrow> breaker_op list"
  before_record :: "nat \<Rightarrow> breaker_op list"

definition the_request :: "Client \<Rightarrow> do_env \<Rightarrow> string \<Rightarrow> string \<Rightarrow> string option \<Rightarrow> request" where
  "the_request c env meth url body =
     \<lparr>rq_method = meth, rq_url = url, rq_body = body,
      rq_headers = inject env (foldl (\<lambda>h (k, v). Header_Set k v h) Map.empty (cl_headers c))\<rparr>"

definition doOnce ::
  "Client \<Rightarrow> do_env \<Rightarrow> nat \<Rightarrow> string \<Rightarrow> string \<Rightarrow> string option
     \<Rightarrow> (go_error + Response) \<times> request list" where
  "doOnce c env k meth url body = (case build env meth url of
      Some e \<Rightarrow> (Inl (Wrap ''build request: '' e), [])
    | None \<Rightarrow>
        (let rq = the_request c env meth url body
         in case http_Do env k rq of
              Inl e \<Rightarrow> (Inl e, [rq])
            | Inr raw \<Rightarrow> (case raw_body raw of
                Inl e \<Rightarrow> (Inl (Wrap ''read response body: '' e), [rq])
              | Inr b \<Rightarrow> (Inr \<lparr>StatusCode = raw_status raw, Body = b, Headers = raw_headers raw\<rparr>, [rq]))))"

section \<open>client.go: the retry loop\<close>

text \<open>
  The variables of the loop: the breaker, the last \<open>resp\<close> and \<open>err\<close>, and, for the statements below,
  the requests sent and the delays waited for.
\<close>

record loop_state =
  l_breaker :: CircuitBreaker
  l_resp :: "Response option"
  l_err :: "go_error option"
  l_sent :: "request list"
  l_slept :: "duration list"

text \<open>How the loop is left: a \<open>return nil, err\<close> in its body, a panic, or its end (or a \<open>break\<close>).\<close>

datatype loop_exit = EarlyReturn go_error | LoopPanic string | LoopEnd

definition pause :: "do_env \<Rightarrow> nat \<Rightarrow> loop_state \<Rightarrow> loop_exit option \<times> loop_state" where
  "pause env k st =
     (if k = 0 then (None, st)
      else case backoff (float_oor env) (jitter env k) (k - 1) of
             Panics p \<Rightarrow> (Some (LoopPanic p), st)
           | Returns d \<Rightarrow> (case ctx_done env k of
               Some e \<Rightarrow> (Some (EarlyReturn e), st)
             | None \<Rightarrow> (None, st\<lparr>l_slept := l_slept st @ [d]\<rparr>)))"

definition attempt_once ::
  "Client \<Rightarrow> do_env \<Rightarrow> string \<Rightarrow> string \<Rightarrow> string option \<Rightarrow> nat \<Rightarrow> loop_state
     \<Rightarrow> loop_exit option \<times> loop_state" where
  "attempt_once c env meth url body k st =
     (case Allow (allow_at env k) (breaker_run (l_breaker st) (before_allow env k)) of
        (Some cbErr, b) \<Rightarrow> (Some (EarlyReturn cbErr), st\<lparr>l_breaker := b\<rparr>)
      | (None, b) \<Rightarrow>
          (let b' = breaker_run b (before_record env k)
           in case doOnce c env k meth url body of
                (Inl e, rqs) \<Rightarrow>
                  (let st' = st\<lparr>l_resp := None, l_err := Some e, l_sent := l_sent st @ rqs,
                                l_breaker := RecordFailure (fail_at env k) b'\<rparr>
                   in if int k = cl_maxRetries c then (Some LoopEnd, st') else (None, st'))
              | (Inr r, rqs) \<Rightarrow>
                  (let st' = st\<lparr>l_resp := Some r, l_err := None, l_sent := l_sent st @ rqs\<rparr>
                   in if retryableStatus (StatusCode r) \<and> int k < cl_maxRetries c
                      then (None, st'\<lparr>l_breaker := RecordFailure (fail_at env k) b'\<rparr>)
                      else (Some LoopEnd, st'\<lparr>l_breaker := RecordSuccess b'\<rparr>))))"

function do_loop ::
  "Client \<Rightarrow> do_env \<Rightarrow> string \<Rightarrow> string \<Rightarrow> string option \<Rightarrow> nat \<Rightarrow> loop_state
     \<Rightarrow> loop_exit \<times> loop_state" where
  "do_loop c env meth url body k st =
     (if int k \<le> cl_maxRetries c
      then case pause env k st of
             (Some ex, st1) \<Rightarrow> (ex, st1)
           | (None, st1) \<Rightarrow> (case attempt_once c env meth url body k st1 of
               (Some ex, st2) \<Rightarrow> (ex, st2)
             | (None, st2) \<Rightarrow> do_loop c env meth url body (Suc k) st2)
      else (LoopEnd, st))"
  by pat_completeness auto
termination
  by (relation "measure (\<lambda>(c, env, meth, url, body, k, st). nat (cl_maxRetries c + 1 - int k))") auto

declare do_loop.simps [simp del]

text \<open>
  The labels are constants of the callers (the target of the configuration, the method of the notifier)
  and ASCII, so the metrics client takes them.
\<close>

definition recordMetric :: "Client \<Rightarrow> string \<Rightarrow> string \<Rightarrow> Client" where
  "recordMetric c meth status = (case cl_metrics c of
      None \<Rightarrow> c
    | Some m \<Rightarrow> c\<lparr>cl_metrics := Some (m\<lparr>OutboundRequestsTotal :=
        Inc [cl_target c, meth, status] (OutboundRequestsTotal m)\<rparr>)\<rparr>)"

text \<open>The loop from its first iteration, with \<open>var resp, err\<close> zero.\<close>

definition run_loop ::
  "Client \<Rightarrow> do_env \<Rightarrow> string \<Rightarrow> string \<Rightarrow> string option \<Rightarrow> loop_exit \<times> loop_state" where
  "run_loop c env meth path body =
     do_loop c env meth (cl_baseURL c @ path) body 0
       \<lparr>l_breaker = cl_breaker c, l_resp = None, l_err = None, l_sent = [], l_slept = []\<rparr>"

definition Do ::
  "Client \<Rightarrow> do_env \<Rightarrow> string \<Rightarrow> string \<Rightarrow> string option \<Rightarrow> (go_error + Response) outcome \<times> Client" where
  "Do c env meth path body =
     (let url = cl_baseURL c @ path;
          (ex, st) = run_loop c env meth path body;
          c' = c\<lparr>cl_breaker := l_breaker st\<rparr>
      in case ex of
           EarlyReturn e \<Rightarrow> (Returns (Inl e), c')
         | LoopPanic p \<Rightarrow> (Panics p, c')
         | LoopEnd \<Rightarrow> (case l_err st of
             Some e \<Rightarrow>
               (Returns (Inl (Wrap (''http client '' @ meth @ '' '' @ url @ '': '') e)),
                recordMetric c' meth ''error'')
           | None \<Rightarrow> (case l_resp st of
               None \<Rightarrow> (Panics ''invalid memory address or nil pointer dereference'', c')
             | Some r \<Rightarrow> (Returns (Inr r), recordMetric c' meth (Itoa (StatusCode r))))))"

end
