(* ===== verification/ClientProps.thy ===== *)
theory ClientProps
  imports HttpClient
begin

text \<open>
  What \<open>Do\<close> of the HTTP client returns, how often it sends, when it can panic, and how its retry loop
  uses the circuit breaker.
\<close>

section \<open>The loop, attempt by attempt\<close>

definition reply ::
  "Client \<Rightarrow> do_env \<Rightarrow> string \<Rightarrow> string \<Rightarrow> string option \<Rightarrow> nat \<Rightarrow> go_error + Response" where
  "reply c env meth url body k = fst (doOnce c env k meth url body)"

definition requests ::
  "Client \<Rightarrow> do_env \<Rightarrow> string \<Rightarrow> string \<Rightarrow> string option \<Rightarrow> nat \<Rightarrow> request list" where
  "requests c env meth url body k = snd (doOnce c env k meth url body)"

fun failed_reply :: "go_error + Response \<Rightarrow> bool" where
  "failed_reply (Inl e) \<longleftrightarrow> True"
| "failed_reply (Inr r) \<longleftrightarrow> retryableStatus (StatusCode r)"

lemma doOnce_pair: "doOnce c env k meth url body =
    (reply c env meth url body k, requests c env meth url body k)"
  by (simp add: reply_def requests_def)

lemma requests_cases:
  "requests c env meth url body k = [] \<or>
   requests c env meth url body k = [the_request c env meth url body]"
  by (simp add: requests_def doOnce_def Let_def split: option.split sum.split)

lemma length_requests: "length (requests c env meth url body k) \<le> 1"
  using requests_cases [of c env meth url body k] by auto

text \<open>The effect of one iteration on the variables of the loop.\<close>

lemma pause_fields:
  "l_breaker (snd (pause env k st)) = l_breaker st \<and> l_resp (snd (pause env k st)) = l_resp st \<and>
   l_err (snd (pause env k st)) = l_err st \<and> l_sent (snd (pause env k st)) = l_sent st"
  by (simp add: pause_def split: outcome.split option.split)

lemma pause_exit:
  "fst (pause env k st) = None \<or>
   (\<exists>e. fst (pause env k st) = Some (EarlyReturn e) \<and> ctx_done env k = Some e) \<or>
   (\<exists>p. fst (pause env k st) = Some (LoopPanic p) \<and>
        backoff (float_oor env) (jitter env k) (k - 1) = Panics p \<and> 0 < k)"
  by (auto simp: pause_def split: outcome.split option.split)

lemma attempt_exit:
  assumes "attempt_once c env meth url body k st = (x, st')" and "int k \<le> cl_maxRetries c"
  shows "(x = Some (EarlyReturn ErrCircuitOpen) \<and> l_sent st' = l_sent st) \<or>
    (l_sent st' = l_sent st @ requests c env meth url body k \<and>
     (case reply c env meth url body k of
        Inl e \<Rightarrow> l_resp st' = None \<and> l_err st' = Some e \<and>
                 x = (if int k = cl_maxRetries c then Some LoopEnd else None)
      | Inr r \<Rightarrow> l_resp st' = Some r \<and> l_err st' = None \<and>
                 x = (if retryableStatus (StatusCode r) \<and> int k < cl_maxRetries c
                      then None else Some LoopEnd)))"
proof -
  have "fst (Allow t b) \<in> {None, Some ErrCircuitOpen}" for t b
    by (simp add: Allow_def split: cbState.split)
  then have "fst (Allow (allow_at env k) (breaker_run (l_breaker st) (before_allow env k))) \<in> {None, Some ErrCircuitOpen}" .
  then show ?thesis
    using assms unfolding attempt_once_def doOnce_pair
    by (auto simp: Let_def split: prod.splits option.splits sum.splits if_splits)
qed

lemma attempt_slept: "l_slept (snd (attempt_once c env meth url body k st)) = l_slept st"
  by (auto simp: attempt_once_def Let_def split: prod.split option.split sum.split)

text \<open>Induction over the iterations: the loop is over, leaves in the pause, leaves in the attempt, or goes on.\<close>

lemma do_loop_induct [consumes 1, case_names over paused stopped again]:
  assumes "do_loop c env meth url body k st = (ex, st')"
    and "\<And>k st. \<not> int k \<le> cl_maxRetries c \<Longrightarrow> P k st LoopEnd st"
    and "\<And>k st ex st'. int k \<le> cl_maxRetries c \<Longrightarrow> pause env k st = (Some ex, st') \<Longrightarrow> P k st ex st'"
    and "\<And>k st st1 ex st'. int k \<le> cl_maxRetries c \<Longrightarrow> pause env k st = (None, st1) \<Longrightarrow>
           attempt_once c env meth url body k st1 = (Some ex, st') \<Longrightarrow> P k st ex st'"
    and "\<And>k st st1 st2 ex st'. int k \<le> cl_maxRetries c \<Longrightarrow> pause env k st = (None, st1) \<Longrightarrow>
           attempt_once c env meth url body k st1 = (None, st2) \<Longrightarrow>
           P (Suc k) st2 ex st' \<Longrightarrow> P k st ex st'"
  shows "P k st ex st'"
  using assms(1)
proof (induction "nat (cl_maxRetries c + 1 - int k)" arbitrary: k st rule: less_induct)
  case less
  show ?case
  proof (cases "int k \<le> cl_maxRetries c")
    case False
    then show ?thesis using less.prems assms(2) by (simp add: do_loop.simps [of c env meth url body k st])
  next
    case True
    obtain x st1 where p: "pause env k st = (x, st1)" by fastforce
    obtain y st2 where a: "attempt_once c env meth url body k st1 = (y, st2)" by fastforce
    note eq = less.prems [unfolded do_loop.simps [of c env meth url body k st]]
    show ?thesis
    proof (cases x)
      case (Some ex')
      then show ?thesis using eq True p assms(3) [OF True] by simp
    next
      case x: None
      show ?thesis
      proof (cases y)
        case (Some ex')
        then show ?thesis using eq True p a x assms(4) [OF True] by simp
      next
        case None
        then have "do_loop c env meth url body (Suc k) st2 = (ex, st')" using eq True p a x by simp
        then have "P (Suc k) st2 ex st'" using less.hyps True by auto
        then show ?thesis using assms(5) [OF True] p a x None by blast
      qed
    qed
  qed
qed

text \<open>The loop's end: the first reply that is not to be retried, or the last one allowed.\<close>

definition settled :: "Client \<Rightarrow> do_env \<Rightarrow> string \<Rightarrow> string \<Rightarrow> string option \<Rightarrow> nat \<Rightarrow> nat \<Rightarrow> bool" where
  "settled c env meth url body k n \<longleftrightarrow> k \<le> n \<and> int n \<le> cl_maxRetries c \<and>
     (\<forall>j. k \<le> j \<and> j < n \<longrightarrow> failed_reply (reply c env meth url body j)) \<and>
     (failed_reply (reply c env meth url body n) \<longrightarrow> int n = cl_maxRetries c)"

lemma settled_Suc:
  "settled c env meth url body (Suc k) n \<Longrightarrow> failed_reply (reply c env meth url body k) \<Longrightarrow>
   settled c env meth url body k n"
  unfolding settled_def by (metis Suc_leD Suc_leI le_neq_implies_less)

lemma do_loop_end:
  assumes "do_loop c env meth url body k st = (ex, st')"
  shows "ex = LoopEnd \<Longrightarrow> int k \<le> cl_maxRetries c \<Longrightarrow>
    (\<exists>n. settled c env meth url body k n \<and>
    (case reply c env meth url body n of
       Inl e \<Rightarrow> l_resp st' = None \<and> l_err st' = Some e
     | Inr r \<Rightarrow> l_resp st' = Some r \<and> l_err st' = None))"
  using assms
proof (induction rule: do_loop_induct)
  case (over k st)
  then show ?case by simp
next
  case (paused k st ex st')
  then show ?case using pause_exit [of env k st] by auto
next
  case (stopped k st st1 ex st')
  from attempt_exit [OF stopped(3,1)] stopped(1,4) show ?case
    by (intro exI [of _ k]) (auto simp: settled_def split: sum.splits if_splits)
next
  case (again k st st1 st2 ex st')
  from attempt_exit [OF again(3,1)]
  have "failed_reply (reply c env meth url body k)" "int (Suc k) \<le> cl_maxRetries c"
    using again(1) by (auto split: sum.splits if_splits)
  with again(4) [OF again(5)] show ?case by (auto dest: settled_Suc)
qed

lemma do_loop_early:
  assumes "do_loop c env meth url body k st = (ex, st')"
  shows "ex = EarlyReturn e \<Longrightarrow> e = ErrCircuitOpen \<or> (\<exists>j. ctx_done env j = Some e)"
  using assms
proof (induction rule: do_loop_induct)
  case (paused k st ex st')
  then show ?case using pause_exit [of env k st] by auto
next
  case (stopped k st st1 ex st')
  from attempt_exit [OF stopped(3,1)] stopped(4) show ?case by (auto split: sum.splits if_splits)
qed simp_all

lemma do_loop_panic:
  assumes "do_loop c env meth url body k st = (ex, st')"
  shows "ex = LoopPanic p \<Longrightarrow> (\<exists>j. int j \<le> cl_maxRetries c \<and> 0 < j \<and>
           backoff (float_oor env) (jitter env j) (j - 1) = Panics p)"
  using assms
proof (induction rule: do_loop_induct)
  case (paused k st ex st')
  then show ?case using pause_exit [of env k st] by auto
next
  case (stopped k st st1 ex st')
  from attempt_exit [OF stopped(3,1)] stopped(4) show ?case by (auto split: sum.splits if_splits)
qed simp_all

text \<open>What the loop sends: at most one request per attempt, all the same.\<close>

lemma do_loop_sent:
  assumes "do_loop c env meth url body k st = (ex, st')"
  shows "\<exists>rqs. l_sent st' = l_sent st @ rqs \<and> set rqs \<subseteq> {the_request c env meth url body} \<and>
           int (length rqs) \<le> max 0 (cl_maxRetries c + 1 - int k)"
  using assms
proof (induction rule: do_loop_induct)
  case (paused k st ex st')
  then show ?case using pause_fields [of env k st] by simp
next
  case (stopped k st st1 ex st')
  have "l_sent st1 = l_sent st" using stopped(2) pause_fields [of env k st] by simp
  with attempt_exit [OF stopped(3,1)] stopped(1) requests_cases [of c env meth url body k]
  show ?case by auto
next
  case (again k st st1 st2 ex st')
  have "l_sent st1 = l_sent st" using again(2) pause_fields [of env k st] by simp
  then have "l_sent st2 = l_sent st @ requests c env meth url body k" "int (Suc k) \<le> cl_maxRetries c"
    using attempt_exit [OF again(3,1)] again(1) by (auto split: sum.splits if_splits)
  with again(4) requests_cases [of c env meth url body k] show ?case by fastforce
qed simp


text \<open>The delays: the one before attempt \<open>j\<close> is at most the capped exponential for \<open>j - 1\<close>.\<close>

definition delay_ok :: "nat \<Rightarrow> duration \<Rightarrow> bool" where
  "delay_ok n d \<longleftrightarrow> 0 \<le> d \<and> d \<le> min maxDelay (baseDelay * 2 ^ n)"

fun delays_ok :: "nat \<Rightarrow> duration list \<Rightarrow> bool" where
  "delays_ok n [] \<longleftrightarrow> True"
| "delays_ok n (d # ds) \<longleftrightarrow> delay_ok n d \<and> delays_ok (Suc n) ds"

lemma backoff_delay_ok: "n \<le> 36 \<Longrightarrow> backoff oor r n = Returns d \<Longrightarrow> delay_ok n d"
  using backoff_full_jitter [of n oor d] unfolding delay_ok_def by blast

lemma do_loop_slept:
  assumes "do_loop c env meth url body k st = (ex, st')"
  shows "cl_maxRetries c \<le> 37 \<Longrightarrow>
    (\<exists>ds. l_slept st' = l_slept st @ ds \<and> delays_ok (if k = 0 then 0 else k - 1) ds)"
  using assms
proof (induction rule: do_loop_induct)
  case (paused k st ex st')
  then have "l_slept st' = l_slept st"
    by (auto simp: pause_def split: outcome.splits option.splits if_splits)
  then show ?case by simp
next
  case (stopped k st st1 ex st')
  have s: "l_slept st' = l_slept st1"
    using attempt_slept [of c env meth url body k st1] stopped(3) by simp
  show ?case
  proof (cases "k = 0")
    case True
    with stopped(2) s show ?thesis by (simp add: pause_def)
  next
    case False
    then obtain d where "backoff (float_oor env) (jitter env k) (k - 1) = Returns d"
      "l_slept st1 = l_slept st @ [d]"
      using stopped(2) by (auto simp: pause_def split: outcome.splits option.splits)
    moreover have "k - 1 \<le> 36" using stopped(1,4) by simp
    ultimately show ?thesis using False s backoff_delay_ok by fastforce
  qed
next
  case (again k st st1 st2 ex st')
  have s: "l_slept st2 = l_slept st1"
    using attempt_slept [of c env meth url body k st1] again(3) by simp
  from again(4) [OF again(5)] obtain ds where ds: "l_slept st' = l_slept st2 @ ds" "delays_ok k ds"
    by auto
  show ?case
  proof (cases "k = 0")
    case True
    with again(2) s ds show ?thesis by (simp add: pause_def)
  next
    case False
    then obtain d where "backoff (float_oor env) (jitter env k) (k - 1) = Returns d"
      "l_slept st1 = l_slept st @ [d]"
      using again(2) by (auto simp: pause_def split: outcome.splits option.splits)
    moreover have "k - 1 \<le> 36" using again(1,5) by simp
    ultimately show ?thesis using False s ds backoff_delay_ok
      by (intro exI [of _ "d # ds"]) fastforce
  qed
qed simp

section \<open>The result of Do\<close>

lemma Do_cases:
  obtains (early) e st where "run_loop c env meth path body = (EarlyReturn e, st)"
      "Do c env meth path body = (Returns (Inl e), c\<lparr>cl_breaker := l_breaker st\<rparr>)"
  | (panic) p st where "run_loop c env meth path body = (LoopPanic p, st)"
      "Do c env meth path body = (Panics p, c\<lparr>cl_breaker := l_breaker st\<rparr>)"
  | (err) e st where "run_loop c env meth path body = (LoopEnd, st)" "l_err st = Some e"
      "Do c env meth path body =
        (Returns (Inl (Wrap (''http client '' @ meth @ '' '' @ (cl_baseURL c @ path) @ '': '') e)),
         recordMetric (c\<lparr>cl_breaker := l_breaker st\<rparr>) meth ''error'')"
  | (nil) st where "run_loop c env meth path body = (LoopEnd, st)" "l_err st = None" "l_resp st = None"
      "Do c env meth path body =
        (Panics ''invalid memory address or nil pointer dereference'', c\<lparr>cl_breaker := l_breaker st\<rparr>)"
  | (ok) r st where "run_loop c env meth path body = (LoopEnd, st)" "l_err st = None" "l_resp st = Some r"
      "Do c env meth path body = (Returns (Inr r),
         recordMetric (c\<lparr>cl_breaker := l_breaker st\<rparr>) meth (Itoa (StatusCode r)))"
proof -
  obtain ex st where l: "run_loop c env meth path body = (ex, st)" by fastforce
  show thesis
  proof (cases ex)
    case LoopEnd
    then show thesis using l err nil ok
      by (cases "l_err st"; cases "l_resp st") (auto simp: Do_def Let_def)
  qed (use l early panic in \<open>auto simp: Do_def Let_def\<close>)
qed

lemma run_loop_settled:
  assumes "run_loop c env meth path body = (LoopEnd, st)" "0 \<le> cl_maxRetries c"
  obtains n where "settled c env meth (cl_baseURL c @ path) body 0 n"
    "case reply c env meth (cl_baseURL c @ path) body n of
       Inl e \<Rightarrow> l_resp st = None \<and> l_err st = Some e | Inr r \<Rightarrow> l_resp st = Some r \<and> l_err st = None"
  using do_loop_end [OF assms(1) [unfolded run_loop_def] refl] assms(2) by auto

definition settled_result ::
  "Client \<Rightarrow> do_env \<Rightarrow> string \<Rightarrow> string \<Rightarrow> string option \<Rightarrow> go_error + Response \<Rightarrow> bool" where
  "settled_result c env meth path body res \<longleftrightarrow>
     (\<exists>n. settled c env meth (cl_baseURL c @ path) body 0 n \<and>
       res = (case reply c env meth (cl_baseURL c @ path) body n of
                Inl e \<Rightarrow> Inl (Wrap (''http client '' @ meth @ '' '' @ (cl_baseURL c @ path) @ '': '') e)
              | Inr r \<Rightarrow> Inr r))"

text \<open>
  C17: what \<open>Do\<close> returns. If it returns, then either every attempt before some attempt \<open>n \<le> MaxRetries\<close>
  failed (an error or a retryable status), attempt \<open>n\<close> is the first one that did not fail or the
  last one allowed, and the result is its response or its error wrapped with the method and the URL;
  or the result is \<open>ErrCircuitOpen\<close>; or it is the error of a context that was cancelled before a
  retry.
\<close>

theorem Do_result:
  assumes "fst (Do c env meth path body) = Returns res" "0 \<le> cl_maxRetries c"
  shows "settled_result c env meth path body res \<or> res = Inl ErrCircuitOpen \<or>
         (\<exists>j e. ctx_done env j = Some e \<and> res = Inl e)"
proof (cases rule: Do_cases [of c env meth path body])
  case (early e st)
  with do_loop_early [OF early(1) [unfolded run_loop_def] refl] assms(1) show ?thesis by auto
next
  case (err e st)
  from run_loop_settled [OF err(1) assms(2)] obtain n where n: "settled c env meth (cl_baseURL c @ path) body 0 n"
    "case reply c env meth (cl_baseURL c @ path) body n of
       Inl e \<Rightarrow> l_resp st = None \<and> l_err st = Some e | Inr r \<Rightarrow> l_resp st = Some r \<and> l_err st = None" .
  have "settled_result c env meth path body res"
    unfolding settled_result_def
    by (rule exI [of _ n]) (use n err assms(1) in \<open>auto split: sum.splits\<close>)
  then show ?thesis by blast
next
  case (ok r st)
  from run_loop_settled [OF ok(1) assms(2)] obtain n where n: "settled c env meth (cl_baseURL c @ path) body 0 n"
    "case reply c env meth (cl_baseURL c @ path) body n of
       Inl e \<Rightarrow> l_resp st = None \<and> l_err st = Some e | Inr r \<Rightarrow> l_resp st = Some r \<and> l_err st = None" .
  have "settled_result c env meth path body res"
    unfolding settled_result_def
    by (rule exI [of _ n]) (use n ok assms(1) in \<open>auto split: sum.splits\<close>)
  then show ?thesis by blast
qed (use assms(1) in simp_all)


text \<open>
  Environments for the witnesses: a server that answers 503 to the first attempts and 200 from attempt
  \<open>n\<close> on, with random draws 0 and no cancellation.
\<close>

definition raw_of :: "int \<Rightarrow> raw_response" where
  "raw_of s = \<lparr>raw_status = s, raw_headers = Map.empty, raw_body = Inr ''{}''\<rparr>"

definition flaky_env :: "nat \<Rightarrow> do_env" where
  "flaky_env n = \<lparr>build = (\<lambda>_ _. None), inject = (\<lambda>h. h),
     http_Do = (\<lambda>k rq. Inr (raw_of (if k < n then 503 else 200))),
     jitter = (\<lambda>_. 0), float_oor = (\<lambda>_. min_int64), ctx_done = (\<lambda>_. None),
     allow_at = (\<lambda>k. int k), fail_at = (\<lambda>k. int k), before_allow = (\<lambda>_. []), before_record = (\<lambda>_. [])\<rparr>"

definition example_client :: Client where
  "example_client = New_client (DefaultConfig ''http://api'' ''api'') (Some new_metrics)"

lemmas flaky_simps = flaky_env_def raw_of_def example_client_def New_client_def DefaultConfig_def
  defaultBreakerConfig_def NewCircuitBreaker_def breaker_defs run_loop_def do_loop.simps
  pause_def attempt_once_def doOnce_def the_request_def Let_def backoff_defs duration_defs int64_defs
  wrap64_def retryableStatus_def

lemma flaky_Do:
  "fst (Do example_client (flaky_env 2) ''GET'' ''/'' None) =
     Returns (Inr \<lparr>StatusCode = 200, Body = ''{}'', Headers = Map.empty\<rparr>)"
  by (simp add: Do_def flaky_simps)

theorem Do_result_witness:
  "settled_result example_client (flaky_env 2) ''GET'' ''/'' None
     (Inr \<lparr>StatusCode = 200, Body = ''{}'', Headers = Map.empty\<rparr>)"
proof -
  have "0 \<le> cl_maxRetries example_client"
    by (simp add: example_client_def New_client_def DefaultConfig_def)
  from Do_result [OF flaky_Do this] show ?thesis by auto
qed

text \<open>
  A call of \<open>Do\<close> sends at most \<open>MaxRetries + 1\<close> requests, all of them the same request (method,
  URL, headers and body), and none at all when \<open>MaxRetries\<close> is negative.
\<close>

theorem Do_sends_bounded:
  "set (l_sent (snd (run_loop c env meth path body)))
       \<subseteq> {the_request c env meth (cl_baseURL c @ path) body} \<and>
   int (length (l_sent (snd (run_loop c env meth path body)))) \<le> max 0 (cl_maxRetries c + 1)"
proof -
  obtain ex st where l: "run_loop c env meth path body = (ex, st)" by fastforce
  from do_loop_sent [OF l [unfolded run_loop_def]] l show ?thesis by auto
qed

text \<open>
  C31: with \<open>MaxRetries\<close> between 0 and 37, \<open>Do\<close> returns, on every platform, whatever the network, the
  clock, the random source and the context do: it cannot panic, and before its \<open>i\<close>-th retry it waits
  between zero and the smaller of 30 s and 100 ms times \<open>2^(i-1)\<close>.
\<close>

theorem Do_returns:
  assumes "0 \<le> cl_maxRetries c" "cl_maxRetries c \<le> 37"
  shows "(\<exists>res. fst (Do c env meth path body) = Returns res) \<and>
         delays_ok 0 (l_slept (snd (run_loop c env meth path body)))"
proof -
  obtain ex st where l: "run_loop c env meth path body = (ex, st)" by fastforce
  from do_loop_slept [OF l [unfolded run_loop_def] assms(2)] l
  have d: "delays_ok 0 (l_slept (snd (run_loop c env meth path body)))" by auto
  show ?thesis
  proof (cases rule: Do_cases [of c env meth path body])
    case (panic p st)
    from do_loop_panic [OF panic(1) [unfolded run_loop_def] refl]
    obtain j where j: "int j \<le> cl_maxRetries c" "0 < j"
      "backoff (float_oor env) (jitter env j) (j - 1) = Panics p" by auto
    then have "j - 1 \<le> 36" using assms(2) by simp
    then show ?thesis using j(3) by (simp add: backoff_small)
  next
    case (nil st)
    from do_loop_end [OF nil(1) [unfolded run_loop_def] refl] assms(1) obtain n where
      "case reply c env meth (cl_baseURL c @ path) body n of
         Inl e \<Rightarrow> l_resp st = None \<and> l_err st = Some e
       | Inr r \<Rightarrow> l_resp st = Some r \<and> l_err st = None" by auto
    with nil(2,3) show ?thesis by (cases "reply c env meth (cl_baseURL c @ path) body n") auto
  qed (use d in auto)
qed

theorem Do_returns_witness:
  "\<exists>res. fst (Do example_client (flaky_env 9) ''GET'' ''/'' None) = Returns res"
  using Do_returns [of example_client "flaky_env 9" "''GET''" "''/''" None]
  by (simp add: example_client_def New_client_def DefaultConfig_def)

text \<open>
  A negative \<open>MaxRetries\<close> makes every call panic: the loop body never runs, so both \<open>resp\<close> and
  \<open>err\<close> are \<open>nil\<close> and reading the status dereferences \<open>nil\<close>.
\<close>

theorem Do_negative_retries_panics:
  assumes "cl_maxRetries c < 0"
  shows "fst (Do c env meth path body) =
           Panics ''invalid memory address or nil pointer dereference''"
  using assms by (simp add: Do_def run_loop_def do_loop.simps Let_def)

theorem Do_negative_retries_panics_witness:
  "fst (Do (example_client\<lparr>cl_maxRetries := - 1\<rparr>) (flaky_env 0) ''GET'' ''/'' None) =
     Panics ''invalid memory address or nil pointer dereference''"
  by (rule Do_negative_retries_panics) simp

section \<open>Do and the circuit breaker\<close>

text \<open>
  The operations on the breaker while one attempt runs: its own \<open>Allow\<close> and its own record, each after
  those of other calls.
\<close>

definition attempt_ops ::
  "Client \<Rightarrow> do_env \<Rightarrow> string \<Rightarrow> string \<Rightarrow> string option \<Rightarrow> nat \<Rightarrow> breaker_op list" where
  "attempt_ops c env meth url body k = before_allow env k @ [OpAllow (allow_at env k)] @ before_record env k @
     [case reply c env meth url body k of
        Inl e \<Rightarrow> OpFailure (fail_at env k)
      | Inr r \<Rightarrow> if retryableStatus (StatusCode r) \<and> int k < cl_maxRetries c
                 then OpFailure (fail_at env k) else OpSuccess]"

definition attempts_ops ::
  "Client \<Rightarrow> do_env \<Rightarrow> string \<Rightarrow> string \<Rightarrow> string option \<Rightarrow> nat \<Rightarrow> nat \<Rightarrow> breaker_op list" where
  "attempts_ops c env meth url body k n = concat (map (attempt_ops c env meth url body) [k..<n])"

lemma attempts_ops_simps:
  "attempts_ops c env meth url body k k = []"
  "k < n \<Longrightarrow> attempts_ops c env meth url body k n =
     attempt_ops c env meth url body k @ attempts_ops c env meth url body (Suc k) n"
  by (simp_all add: attempts_ops_def upt_conv_Cons)

text \<open>What the breaker answers to the \<open>Allow\<close> of attempt \<open>n\<close>, when the attempts from \<open>k\<close> on started at \<open>cb\<close>.\<close>

definition verdict ::
  "Client \<Rightarrow> do_env \<Rightarrow> string \<Rightarrow> string \<Rightarrow> string option \<Rightarrow> CircuitBreaker \<Rightarrow> nat \<Rightarrow> nat \<Rightarrow> go_error option" where
  "verdict c env meth url body cb k n = fst (Allow (allow_at env n)
     (breaker_run cb (attempts_ops c env meth url body k n @ before_allow env n)))"

lemma verdict_simps:
  "verdict c env meth url body cb k k = fst (Allow (allow_at env k) (breaker_run cb (before_allow env k)))"
  "k < n \<Longrightarrow> verdict c env meth url body cb k n =
     verdict c env meth url body (breaker_run cb (attempt_ops c env meth url body k)) (Suc k) n"
  by (simp_all add: verdict_def attempts_ops_simps)

lemma attempt_breaker:
  assumes "attempt_once c env meth url body k st = (x, st')" "int k \<le> cl_maxRetries c"
  shows "(fst (Allow (allow_at env k) (breaker_run (l_breaker st) (before_allow env k))) = Some ErrCircuitOpen \<and>
      x = Some (EarlyReturn ErrCircuitOpen) \<and>
      l_breaker st' = breaker_run (l_breaker st) (before_allow env k @ [OpAllow (allow_at env k)])) \<or>
    (fst (Allow (allow_at env k) (breaker_run (l_breaker st) (before_allow env k))) = None \<and>
      l_breaker st' = breaker_run (l_breaker st) (attempt_ops c env meth url body k) \<and>
      (x = None \<and> failed_reply (reply c env meth url body k) \<and> int k < cl_maxRetries c \<or>
       x = Some LoopEnd \<and> settled c env meth url body k k))"
proof -
  obtain v b where A: "Allow (allow_at env k) (breaker_run (l_breaker st) (before_allow env k)) = (v, b)" by fastforce
  have v: "v = None \<or> v = Some ErrCircuitOpen" using A by (auto simp: Allow_def split: cbState.splits if_splits)
  have kk: "settled c env meth url body k k \<longleftrightarrow>
      (failed_reply (reply c env meth url body k) \<longrightarrow> int k = cl_maxRetries c)"
    using assms(2) by (auto simp: settled_def)
  show ?thesis
  proof (cases v)
    case (Some e)
    with assms v A show ?thesis by (auto simp: attempt_once_def)
  next
    case None
    note eq = assms(1) [unfolded attempt_once_def A None prod.case option.case doOnce_pair Let_def]
    show ?thesis
    proof (cases "reply c env meth url body k")
      case (Inl e)
      with eq assms(2) A None kk show ?thesis by (simp add: attempt_ops_def split: if_splits) auto
    next
      case (Inr r)
      with eq assms(2) A None kk show ?thesis by (simp add: attempt_ops_def split: if_splits) auto
    qed
  qed
qed

definition loop_ops ::
  "Client \<Rightarrow> do_env \<Rightarrow> string \<Rightarrow> string \<Rightarrow> string option \<Rightarrow> nat \<Rightarrow> loop_exit \<Rightarrow> CircuitBreaker \<Rightarrow> CircuitBreaker
     \<Rightarrow> nat \<Rightarrow> bool" where
  "loop_ops c env meth url body k ex cb cb' n \<longleftrightarrow> k \<le> n \<and>
     (\<forall>j. k \<le> j \<and> j < n \<longrightarrow> int j \<le> cl_maxRetries c \<and> verdict c env meth url body cb k j = None) \<and>
     (\<forall>j. k \<le> j \<and> Suc j < n \<longrightarrow> failed_reply (reply c env meth url body j)) \<and>
     (k < n \<and> ex = LoopEnd \<and> settled c env meth url body k (n - 1) \<and>
        cb' = breaker_run cb (attempts_ops c env meth url body k n) \<or>
      verdict c env meth url body cb k n = Some ErrCircuitOpen \<and> ex = EarlyReturn ErrCircuitOpen \<and>
        cb' = breaker_run cb (attempts_ops c env meth url body k n @ before_allow env n @ [OpAllow (allow_at env n)]) \<or>
      0 < n \<and> ((\<exists>e. ctx_done env n = Some e \<and> ex = EarlyReturn e) \<or>
        (\<exists>p. backoff (float_oor env) (jitter env n) (n - 1) = Panics p \<and> ex = LoopPanic p)) \<and>
        cb' = breaker_run cb (attempts_ops c env meth url body k n))"

lemma loop_ops_Suc:
  assumes "loop_ops c env meth url body (Suc k) ex (breaker_run cb (attempt_ops c env meth url body k)) cb' n"
    and "verdict c env meth url body cb k k = None" "failed_reply (reply c env meth url body k)"
    and "int k < cl_maxRetries c"
  shows "loop_ops c env meth url body k ex cb cb' n"
proof -
  have n: "Suc k \<le> n" using assms(1) by (simp add: loop_ops_def)
  have v: "verdict c env meth url body cb k j =
      (if j = k then None else verdict c env meth url body (breaker_run cb (attempt_ops c env meth url body k)) (Suc k) j)"
    if "k \<le> j" for j
    using that assms(2) verdict_simps(2) by simp
  have s: "settled c env meth url body k (n - 1)" if "settled c env meth url body (Suc k) (n - 1)"
    using settled_Suc [OF that assms(3)] .
  have 1: "int j \<le> cl_maxRetries c \<and> verdict c env meth url body cb k j = None" if "k \<le> j" "j < n" for j
    using assms(1,4) that v [of j] unfolding loop_ops_def by (cases "j = k") auto
  have 2: "failed_reply (reply c env meth url body j)" if "k \<le> j" "Suc j < n" for j
    using assms(1,3) that unfolding loop_ops_def by (cases "j = k") auto
  show ?thesis
    using assms(1) 1 2 s n v [of n] attempts_ops_simps(2) [of k n c env meth url body]
    unfolding loop_ops_def by simp blast
qed

lemma do_loop_ops:
  assumes "do_loop c env meth url body k st = (ex, st')"
  shows "int k \<le> cl_maxRetries c \<Longrightarrow>
    \<exists>n. loop_ops c env meth url body k ex (l_breaker st) (l_breaker st') n"
  using assms
proof (induction rule: do_loop_induct)
  case (over k st)
  then show ?case by simp
next
  case (paused k st ex st')
  have b: "l_breaker st' = l_breaker st" using pause_fields [of env k st] paused(2) by simp
  have "0 < k" using paused(2) by (cases k) (simp_all add: pause_def)
  then show ?case using pause_exit [of env k st] paused(2) b
    by (intro exI [of _ k]) (auto simp: loop_ops_def attempts_ops_simps)
next
  case (stopped k st st1 ex st')
  have b: "l_breaker st1 = l_breaker st" using pause_fields [of env k st] stopped(2) by simp
  from attempt_breaker [OF stopped(3,1)] stopped(1) show ?case unfolding b
  proof (elim disjE conjE)
    assume "fst (Allow (allow_at env k) (breaker_run (l_breaker st) (before_allow env k))) = Some ErrCircuitOpen"
      "Some ex = Some (EarlyReturn ErrCircuitOpen)"
      "l_breaker st' = breaker_run (l_breaker st) (before_allow env k @ [OpAllow (allow_at env k)])"
    then have "loop_ops c env meth url body k ex (l_breaker st) (l_breaker st') k"
      by (auto simp: loop_ops_def verdict_simps(1) attempts_ops_simps(1))
    then show ?thesis ..
  next
    assume v: "fst (Allow (allow_at env k) (breaker_run (l_breaker st) (before_allow env k))) = None"
      and l: "l_breaker st' = breaker_run (l_breaker st) (attempt_ops c env meth url body k)"
      and x: "Some ex = Some LoopEnd" "settled c env meth url body k k"
    have "verdict c env meth url body (l_breaker st) k j = None" if "k \<le> j" "j < Suc k" for j
    proof -
      have "j = k" using that by simp
      then show ?thesis using v by (simp add: verdict_simps(1))
    qed
    then have "loop_ops c env meth url body k ex (l_breaker st) (l_breaker st') (Suc k)"
      using x l stopped(1) by (auto simp: loop_ops_def attempts_ops_simps)
    then show ?thesis ..
  qed simp
next
  case (again k st st1 st2 ex st')
  have b: "l_breaker st1 = l_breaker st" using pause_fields [of env k st] again(2) by simp
  have a: "fst (Allow (allow_at env k) (breaker_run (l_breaker st) (before_allow env k))) = None"
    "l_breaker st2 = breaker_run (l_breaker st) (attempt_ops c env meth url body k)"
    "failed_reply (reply c env meth url body k)" "int k < cl_maxRetries c"
    using attempt_breaker [OF again(3,1)] b by auto
  from again(4) a(4) obtain n where "loop_ops c env meth url body (Suc k) ex (l_breaker st2) (l_breaker st') n" by auto
  with loop_ops_Suc [of c env meth url body k ex "l_breaker st" "l_breaker st'" n] a
  have "loop_ops c env meth url body k ex (l_breaker st) (l_breaker st') n" by (simp add: verdict_simps(1))
  then show ?case ..
qed

lemma Do_snd:
  assumes "run_loop c env meth path body = (ex, st)"
  shows "cl_breaker (snd (Do c env meth path body)) = l_breaker st"
    "cl_maxRetries (snd (Do c env meth path body)) = cl_maxRetries c"
  by (cases rule: Do_cases [of c env meth path body];
      use assms in \<open>simp add: recordMetric_def split: option.split\<close>)+

text \<open>
  C36: how \<open>Do\<close> uses the breaker it shares with other calls. Some number \<open>n\<close> of attempts ran, each
  admitted by the breaker, and each, in this order, asked \<open>Allow\<close> once and recorded once: a failure for an
  error and for a retryable status with a retry left, a success for any other response; all but the last
  of them failed. Then either the last of them ended the loop; or the breaker rejected attempt \<open>n\<close>, which is
  what \<open>Do\<close> returns, and \<open>Allow\<close> was all that attempt did; or the pause before attempt \<open>n\<close> ended with the
  cancelled context or the panic of the delay, and that attempt did not touch the breaker. In between the
  breaker has exactly the operations of the other calls.
\<close>

theorem Do_breaker:
  assumes "0 \<le> cl_maxRetries c"
  shows "\<exists>n. let url = cl_baseURL c @ path; cb = cl_breaker c;
      res = fst (Do c env meth path body); cb' = cl_breaker (snd (Do c env meth path body));
      ran = attempts_ops c env meth url body 0 n
    in (\<forall>j < n. int j \<le> cl_maxRetries c \<and> verdict c env meth url body cb 0 j = None) \<and>
      (\<forall>j. Suc j < n \<longrightarrow> failed_reply (reply c env meth url body j)) \<and>
      (0 < n \<and> settled c env meth url body 0 (n - 1) \<and>
         fst (run_loop c env meth path body) = LoopEnd \<and> cb' = breaker_run cb ran \<or>
       verdict c env meth url body cb 0 n = Some ErrCircuitOpen \<and> res = Returns (Inl ErrCircuitOpen) \<and>
         cb' = breaker_run cb (ran @ before_allow env n @ [OpAllow (allow_at env n)]) \<or>
       0 < n \<and> cb' = breaker_run cb ran \<and>
         ((\<exists>e. ctx_done env n = Some e \<and> res = Returns (Inl e)) \<or>
          (\<exists>p. backoff (float_oor env) (jitter env n) (n - 1) = Panics p \<and> res = Panics p)))"
proof -
  obtain ex st where l: "run_loop c env meth path body = (ex, st)" by fastforce
  obtain n where n: "loop_ops c env meth (cl_baseURL c @ path) body 0 ex (cl_breaker c) (l_breaker st) n"
    using do_loop_ops [OF l [unfolded run_loop_def]] assms by auto
  have "fst (Do c env meth path body) = Returns (Inl e)" if "ex = EarlyReturn e" for e
    using l that by (simp add: Do_def Let_def)
  moreover have "fst (Do c env meth path body) = Panics p" if "ex = LoopPanic p" for p
    using l that by (simp add: Do_def Let_def)
  ultimately show ?thesis
    using n unfolding loop_ops_def Let_def Do_snd(1) [OF l] l fst_conv by (intro exI [of _ n]) auto
qed

theorem Do_breaker_witness:
  "\<exists>n. cl_breaker (snd (Do example_client (flaky_env 9) ''GET'' ''/'' None)) =
     breaker_run (cl_breaker example_client) (attempts_ops example_client (flaky_env 9) ''GET'' ''http://api/'' None 0 n) \<or>
   verdict example_client (flaky_env 9) ''GET'' ''http://api/'' None (cl_breaker example_client) 0 n = Some ErrCircuitOpen"
proof -
  have "0 \<le> cl_maxRetries example_client" "cl_baseURL example_client = ''http://api''"
    by (simp_all add: example_client_def New_client_def DefaultConfig_def)
  from Do_breaker [OF this(1), of "''/''" "flaky_env 9" "''GET''" None] this(2) show ?thesis
    unfolding Let_def by auto
qed

lemma Do_breaker_inv:
  assumes "breaker_inv (cl_breaker c)"
  shows "breaker_inv (cl_breaker (snd (Do c env meth path body)))"
proof (cases "0 \<le> cl_maxRetries c")
  case True
  obtain ex st where l: "run_loop c env meth path body = (ex, st)" by fastforce
  obtain n where "loop_ops c env meth (cl_baseURL c @ path) body 0 ex (cl_breaker c) (l_breaker st) n"
    using do_loop_ops [OF l [unfolded run_loop_def]] True by auto
  then have "\<exists>ops. l_breaker st = breaker_run (cl_breaker c) ops" unfolding loop_ops_def by blast
  then show ?thesis using breaker_run_inv [OF assms] Do_snd(1) [OF l] by auto
qed (use assms in \<open>simp add: Do_def run_loop_def do_loop.simps Let_def\<close>)

text \<open>
  An open circuit fails fast. If the breaker, after what other calls did to it, rejects the first
  attempt, \<open>Do\<close> returns \<open>ErrCircuitOpen\<close>, sends nothing, and leaves the client otherwise as it was: not even
  the metric counts it.
\<close>

theorem Do_circuit_open:
  assumes "0 \<le> cl_maxRetries c"
    and "fst (Allow (allow_at env 0) (breaker_run (cl_breaker c) (before_allow env 0))) = Some ErrCircuitOpen"
  shows "Do c env meth path body =
      (Returns (Inl ErrCircuitOpen), c\<lparr>cl_breaker := breaker_run (cl_breaker c) (before_allow env 0)\<rparr>) \<and>
    l_sent (snd (run_loop c env meth path body)) = []"
proof -
  let ?b = "breaker_run (cl_breaker c) (before_allow env 0)"
  have "snd (Allow (allow_at env 0) ?b) = ?b"
    using assms(2) by (simp add: Allow_def split: cbState.splits if_splits)
  then have "Allow (allow_at env 0) ?b = (Some ErrCircuitOpen, ?b)"
    using assms(2) by (metis prod.collapse)
  then show ?thesis
    using assms(1) by (simp add: Do_def run_loop_def do_loop.simps [of _ _ _ _ _ 0] pause_def
        attempt_once_def Let_def)
qed

theorem Do_circuit_open_witness:
  "let c = example_client\<lparr>cl_breaker := breaker_run (cl_breaker example_client) (replicate 5 (OpFailure 0))\<rparr>
   in l_sent (snd (run_loop c (flaky_env 0) ''GET'' ''/'' None)) = []"
  unfolding Let_def
  by (rule Do_circuit_open [THEN conjunct2])
    (simp_all add: numeral_eq_Suc flaky_simps time_sub_def sat64_def)

section \<open>A server that answers\<close>

text \<open>
  The server answers every attempt of the call, whatever the status, the context is never cancelled, and
  no other call of the client runs meanwhile.
\<close>

definition server_answers :: "do_env \<Rightarrow> bool" where
  "server_answers env \<longleftrightarrow> (\<forall>m u. build env m u = None) \<and>
     (\<forall>k rq. case http_Do env k rq of Inl e \<Rightarrow> False | Inr raw \<Rightarrow> \<exists>b. raw_body raw = Inr b) \<and>
     (\<forall>k. ctx_done env k = None \<and> before_allow env k = [] \<and> before_record env k = [])"

lemma server_answers_reply:
  assumes "server_answers env"
  shows "\<exists>r. reply c env meth url body k = Inr r"
proof -
  from assms have "build env meth url = None"
    "case http_Do env k (the_request c env meth url body) of Inl e \<Rightarrow> False | Inr raw \<Rightarrow> \<exists>b. raw_body raw = Inr b"
    unfolding server_answers_def by blast+
  then show ?thesis by (auto simp: reply_def doOnce_def Let_def split: sum.splits)
qed

lemma attempt_breaker_closed:
  assumes "cb_state (l_breaker st) = stateClosed" "reply c env meth url body k = Inr r"
    "server_answers env" "attempt_once c env meth url body k st = (x, st')"
  shows "if retryableStatus (StatusCode r) \<and> int k < cl_maxRetries c
    then x = None \<and> l_breaker st' = RecordFailure (fail_at env k) (l_breaker st)
    else x = Some LoopEnd \<and> l_breaker st' = RecordSuccess (l_breaker st)"
  using assms by (auto simp: attempt_once_def doOnce_pair Allow_def Let_def server_answers_def split: if_splits)

definition untripped :: "CircuitBreaker \<Rightarrow> int \<Rightarrow> bool" where
  "untripped cb n \<longleftrightarrow> breaker_inv cb \<and> cb_state cb = stateClosed \<and> failures cb + n < MaxFailures (cb_cfg cb)"

lemma untripped_failure: "untripped cb n \<Longrightarrow> 0 < n \<Longrightarrow> untripped (RecordFailure t cb) (n - 1)"
  using closed_failures_succ [of cb] RecordFailure_inv [of cb t]
  by (auto simp: untripped_def RecordFailure_def Let_def)

lemma untripped_success:
  "untripped cb n \<Longrightarrow> failures (RecordSuccess cb) = 0 \<and> cb_state (RecordSuccess cb) = stateClosed \<and>
     breaker_inv (RecordSuccess cb) \<and> cb_cfg (RecordSuccess cb) = cb_cfg cb"
  using RecordSuccess_inv [of cb] by (auto simp: untripped_def RecordSuccess_def)

lemma do_loop_answered:
  assumes "do_loop c env meth url body k st = (ex, st')"
  shows "server_answers env \<Longrightarrow> cl_maxRetries c \<le> 37 \<Longrightarrow> int k \<le> cl_maxRetries c \<Longrightarrow>
    untripped (l_breaker st) (cl_maxRetries c - int k) \<Longrightarrow>
    ex = LoopEnd \<and> failures (l_breaker st') = 0 \<and> cb_state (l_breaker st') = stateClosed \<and>
    breaker_inv (l_breaker st') \<and> cb_cfg (l_breaker st') = cb_cfg (l_breaker st)"
  using assms
proof (induction rule: do_loop_induct)
  case (over k st)
  then show ?case by simp
next
  case (paused k st ex st')
  then have "ctx_done env k = None" "k - 1 \<le> 36" by (auto simp: server_answers_def)
  with paused(2) show ?case
    by (auto simp: pause_def backoff_small split: if_splits)
next
  case (stopped k st st1 ex st')
  have b: "l_breaker st1 = l_breaker st" using pause_fields [of env k st] stopped(2) by simp
  obtain r where "reply c env meth url body k = Inr r" using server_answers_reply [OF stopped(4)] by blast
  from attempt_breaker_closed [OF _ this stopped(4,3)] stopped(7) b
  have "ex = LoopEnd" "l_breaker st' = RecordSuccess (l_breaker st)" by (auto simp: untripped_def split: if_splits)
  with untripped_success [OF stopped(7)] show ?case by simp
next
  case (again k st st1 st2 ex st')
  have b: "l_breaker st1 = l_breaker st" using pause_fields [of env k st] again(2) by simp
  obtain r where "reply c env meth url body k = Inr r" using server_answers_reply [OF again(5)] by blast
  from attempt_breaker_closed [OF _ this again(5,3)] again(8) b
  have f: "int k < cl_maxRetries c" "l_breaker st2 = RecordFailure (fail_at env k) (l_breaker st)"
    by (auto simp: untripped_def split: if_splits)
  have "untripped (l_breaker st2) (cl_maxRetries c - int (Suc k))"
    using untripped_failure [OF again(8)] f by (simp add: diff_diff_eq ac_simps)
  with again(4) [OF again(5,6)] f(1)
  have "ex = LoopEnd \<and> failures (l_breaker st') = 0 \<and> cb_state (l_breaker st') = stateClosed \<and>
    breaker_inv (l_breaker st') \<and> cb_cfg (l_breaker st') = cb_cfg (l_breaker st2)" by simp
  then show ?case
    using f(2) breaker_step_cfg(1) [of "l_breaker st" "OpFailure (fail_at env k)"] by simp
qed

text \<open>A sequence of calls on one client.\<close>

fun Do_all :: "Client \<Rightarrow> (do_env \<times> string \<times> string \<times> string option) list \<Rightarrow> Client" where
  "Do_all c [] = c"
| "Do_all c ((env, meth, path, body) # calls) = Do_all (snd (Do c env meth path body)) calls"

definition fresh_closed :: "Client \<Rightarrow> bool" where
  "fresh_closed c \<longleftrightarrow> breaker_inv (cl_breaker c) \<and> cb_state (cl_breaker c) = stateClosed \<and>
     failures (cl_breaker c) = 0 \<and> 0 \<le> cl_maxRetries c \<and> cl_maxRetries c \<le> 37 \<and>
     cl_maxRetries c < MaxFailures (cb_cfg (cl_breaker c))"

lemma Do_answered:
  assumes "fresh_closed c" "server_answers env"
  shows "fresh_closed (snd (Do c env meth path body))" "\<exists>r. fst (Do c env meth path body) = Returns (Inr r)"
proof -
  obtain ex st where l: "run_loop c env meth path body = (ex, st)" by fastforce
  from do_loop_answered [OF l [unfolded run_loop_def]] assms
  have e: "ex = LoopEnd" "failures (l_breaker st) = 0" "cb_state (l_breaker st) = stateClosed"
    "breaker_inv (l_breaker st)" "cb_cfg (l_breaker st) = cb_cfg (cl_breaker c)"
    by (simp_all add: fresh_closed_def untripped_def)
  then show "fresh_closed (snd (Do c env meth path body))"
    using assms(1) Do_snd [OF l] by (simp add: fresh_closed_def)
  have "0 \<le> cl_maxRetries c" using assms(1) by (simp add: fresh_closed_def)
  from run_loop_settled [OF l [unfolded e(1)] this] obtain n where
    "case reply c env meth (cl_baseURL c @ path) body n of
       Inl e \<Rightarrow> l_resp st = None \<and> l_err st = Some e | Inr r \<Rightarrow> l_resp st = Some r \<and> l_err st = None" .
  moreover obtain r where "reply c env meth (cl_baseURL c @ path) body n = Inr r"
    using server_answers_reply [OF assms(2)] by blast
  ultimately show "\<exists>r. fst (Do c env meth path body) = Returns (Inr r)"
    using l e(1) by (simp add: Do_def Let_def)
qed

lemma Do_all_fresh:
  "fresh_closed c \<Longrightarrow> list_all (\<lambda>(env, _). server_answers env) calls \<Longrightarrow> fresh_closed (Do_all c calls)"
  by (induction c calls rule: Do_all.induct) (auto dest: Do_answered(1))

text \<open>
  C38: one call after another against a server that answers, whatever it answers. On a client with
  \<open>MaxRetries < MaxFailures\<close> (the defaults are 3 and 5) and \<open>MaxRetries \<le> 37\<close>, for calls that do not
  overlap, are not cancelled and are answered at every attempt, with 503 each time say, the last attempt of
  a call counts as a success whatever its status and resets the count. So such a sequence of calls, of any
  length, leaves the breaker closed with no failure counted, and a call after it is answered by the server
  and not rejected. Overlapping calls, a cancelled call, a lost connection or \<open>MaxRetries \<ge> MaxFailures\<close>
  are not covered: in each of these the count can reach \<open>MaxFailures\<close>.
\<close>

theorem sequential_answers_keep_closed:
  assumes "fresh_closed c" "list_all (\<lambda>(env, _). server_answers env) calls"
  shows "cb_state (cl_breaker (Do_all c calls)) = stateClosed \<and> failures (cl_breaker (Do_all c calls)) = 0 \<and>
    (server_answers env \<longrightarrow> (\<exists>r. fst (Do (Do_all c calls) env meth path body) = Returns (Inr r)))"
  using Do_all_fresh [OF assms] Do_answered(2) by (simp add: fresh_closed_def)

theorem sequential_answers_keep_closed_witness:
  "cb_state (cl_breaker (Do_all example_client
     (replicate 100 (flaky_env 9\<lparr>http_Do := \<lambda>k rq. Inr (raw_of 503)\<rparr>, ''GET'', ''/'', None)))) = stateClosed"
proof -
  have f: "fresh_closed example_client"
    by (simp add: fresh_closed_def example_client_def New_client_def DefaultConfig_def)
      (simp add: defaultBreakerConfig_def)
  have e: "server_answers (flaky_env 9\<lparr>http_Do := \<lambda>k rq. Inr (raw_of 503)\<rparr>)"
    by (simp add: server_answers_def flaky_env_def raw_of_def)
  have "list_all (\<lambda>(env, _). server_answers env)
     (replicate 100 (flaky_env 9\<lparr>http_Do := \<lambda>k rq. Inr (raw_of 503)\<rparr>, ''GET'', ''/'', None))"
    using e by (simp add: list_all_iff)
  from sequential_answers_keep_closed [OF f this] show ?thesis by blast
qed

end
