(* ===== verification/Json.thy ===== *)
theory Json
  imports Prelude
begin

text \<open>
  The part of \<open>encoding/json\<close> the program uses, byte for byte: the encoder's strings (with HTML
  escaping, which \<open>Marshal\<close> and \<open>Encoder\<close> have on), the scanner of JSON values with its nesting limit,
  the decoder's strings, keys and integers, and the members of a top-level object with the raw text
  of their values. The structs of the program are encoded and decoded with these in the theories of
  their packages.
\<close>

section \<open>UTF-8\<close>

abbreviation code :: "char \<Rightarrow> nat" where "code c \<equiv> of_char c"

definition in_range :: "nat \<Rightarrow> nat \<Rightarrow> char \<Rightarrow> bool" where
  "in_range lo hi c \<longleftrightarrow> lo \<le> code c \<and> code c \<le> hi"

definition cont :: "char \<Rightarrow> bool" where
  "cont c \<longleftrightarrow> in_range 128 191 c"

text \<open>
  The length of the rune \<open>utf8.DecodeRune\<close> finds at the front of a non-empty string, 0 where the
  encoding is invalid (truncated, overlong, a surrogate, or beyond U+10FFFF).
\<close>

definition lead2 :: "char \<Rightarrow> string \<Rightarrow> bool" where
  "lead2 a r \<longleftrightarrow> in_range 194 223 a \<and> (case r of b # _ \<Rightarrow> cont b | _ \<Rightarrow> False)"

definition lead3 :: "char \<Rightarrow> string \<Rightarrow> bool" where
  "lead3 a r \<longleftrightarrow> in_range 224 239 a \<and> (case r of
      b # c # _ \<Rightarrow> in_range (if code a = 224 then 160 else 128) (if code a = 237 then 159 else 191) b \<and> cont c
    | _ \<Rightarrow> False)"

definition lead4 :: "char \<Rightarrow> string \<Rightarrow> bool" where
  "lead4 a r \<longleftrightarrow> in_range 240 244 a \<and> (case r of
      b # c # d # _ \<Rightarrow>
        in_range (if code a = 240 then 144 else 128) (if code a = 244 then 143 else 191) b \<and> cont c \<and> cont d
    | _ \<Rightarrow> False)"

definition rune_len :: "string \<Rightarrow> nat" where
  "rune_len s = (case s of
      [] \<Rightarrow> 0
    | a # r \<Rightarrow> if code a < 128 then 1 else if lead2 a r then 2 else if lead3 a r then 3
               else if lead4 a r then 4 else 0)"

function valid_utf8 :: "string \<Rightarrow> bool" where
  "valid_utf8 s =
     (if s = [] then True
      else if rune_len s = 0 then False
      else valid_utf8 (drop (rune_len s) s))"
  by pat_completeness auto
termination
  by (relation "measure length") auto

declare valid_utf8.simps [simp del]

text \<open>\<open>utf8.EncodeRune\<close>; surrogates and values beyond U+10FFFF encode as U+FFFD.\<close>

definition encode_rune :: "nat \<Rightarrow> string" where
  "encode_rune n =
     (if n < 128 then [char_of n]
      else if n < 2048 then [char_of (192 + n div 64), char_of (128 + n mod 64)]
      else if (55296 \<le> n \<and> n < 57344) \<or> 1114111 < n then [CHR 0xEF, CHR 0xBF, CHR 0xBD]
      else if n < 65536
        then [char_of (224 + n div 4096), char_of (128 + n div 64 mod 64), char_of (128 + n mod 64)]
      else [char_of (240 + n div 262144), char_of (128 + n div 4096 mod 64),
            char_of (128 + n div 64 mod 64), char_of (128 + n mod 64)])"

lemma lead2_iff: "lead2 a r \<longleftrightarrow> in_range 194 223 a \<and> (\<exists>b t. r = b # t \<and> cont b)"
  by (auto simp: lead2_def split: list.splits)

lemma lead3_iff: "lead3 a r \<longleftrightarrow> in_range 224 239 a \<and> (\<exists>b c t. r = b # c # t \<and>
    in_range (if code a = 224 then 160 else 128) (if code a = 237 then 159 else 191) b \<and> cont c)"
  by (auto simp: lead3_def split: list.splits)

lemma lead4_iff: "lead4 a r \<longleftrightarrow> in_range 240 244 a \<and> (\<exists>b c d t. r = b # c # d # t \<and>
    in_range (if code a = 240 then 144 else 128) (if code a = 244 then 143 else 191) b \<and> cont c \<and> cont d)"
  by (auto simp: lead4_def split: list.splits)

lemma lead_disjoint:
  "lead2 a r \<Longrightarrow> \<not> lead3 a r'" "lead2 a r \<Longrightarrow> \<not> lead4 a r'" "lead3 a r \<Longrightarrow> \<not> lead4 a r'"
  "code a < 128 \<Longrightarrow> \<not> lead2 a r" "code a < 128 \<Longrightarrow> \<not> lead3 a r" "code a < 128 \<Longrightarrow> \<not> lead4 a r"
  by (auto simp: lead2_def lead3_def lead4_def in_range_def)

text \<open>A rune, by its length: the first byte and the continuation bytes of a valid encoding.\<close>

lemma rune_len_elim:
  assumes "rune_len s \<noteq> 0"
  obtains (one) a t where "s = a # t" "code a < 128" "rune_len s = 1"
  | (two) a b t where "s = a # b # t" "lead2 a [b]" "rune_len s = 2"
  | (three) a b c t where "s = a # b # c # t" "lead3 a [b, c]" "rune_len s = 3"
  | (four) a b c d t where "s = a # b # c # d # t" "lead4 a [b, c, d]" "rune_len s = 4"
proof (cases s)
  case Nil
  with assms show thesis by (simp add: rune_len_def)
next
  case (Cons a r)
  consider "code a < 128" | "\<not> code a < 128" "lead2 a r" | "\<not> code a < 128" "lead3 a r"
    | "\<not> code a < 128" "lead4 a r"
    using assms Cons by (auto simp: rune_len_def split: if_splits)
  then show thesis
  proof cases
    case 1
    with Cons show thesis by (intro one) (auto simp: rune_len_def)
  next
    case 2
    then obtain b t where "r = b # t" "cont b" by (auto simp: lead2_iff)
    with 2 Cons show thesis by (intro two) (auto simp: rune_len_def lead2_iff)
  next
    case 3
    then obtain b c t where r: "r = b # c # t" by (auto simp: lead3_iff)
    with 3 have "lead3 a [b, c]" by (auto simp: lead3_iff)
    with 3 Cons r show thesis using lead_disjoint(1) by (intro three) (auto simp: rune_len_def)
  next
    case 4
    then obtain b c d t where r: "r = b # c # d # t" by (auto simp: lead4_iff)
    with 4 have "lead4 a [b, c, d]" by (auto simp: lead4_iff)
    with 4 Cons r show thesis using lead_disjoint(2,3) by (intro four) (auto simp: rune_len_def)
  qed
qed

lemma lead_append [simp]:
  "lead2 a (b # x # t) \<longleftrightarrow> lead2 a [b]"
  "lead3 a (b # c # x # t) \<longleftrightarrow> lead3 a [b, c]"
  "lead4 a (b # c # d # x # t) \<longleftrightarrow> lead4 a [b, c, d]"
  by (auto simp: lead2_iff lead3_iff lead4_iff)

lemma lead_not_ascii [simp]:
  "lead2 a r \<Longrightarrow> \<not> code a < 128" "lead3 a r \<Longrightarrow> \<not> code a < 128" "lead4 a r \<Longrightarrow> \<not> code a < 128"
  by (auto simp: lead2_def lead3_def lead4_def in_range_def)

lemma lead_extend:
  "lead2 a [b] \<Longrightarrow> lead2 a (b # t)"
  "lead3 a [b, c] \<Longrightarrow> lead3 a (b # c # t)"
  "lead4 a [b, c, d] \<Longrightarrow> lead4 a (b # c # d # t)"
  by (simp_all add: lead2_iff lead3_iff lead4_iff)

lemma lead_exclusive:
  "lead3 a r \<Longrightarrow> \<not> lead2 a r'" "lead4 a r \<Longrightarrow> \<not> lead2 a r'" "lead4 a r \<Longrightarrow> \<not> lead3 a r'"
  using lead_disjoint by blast+

lemma rune_len_lead:
  "code a < 128 \<Longrightarrow> rune_len (a # t) = 1"
  "lead2 a [b] \<Longrightarrow> rune_len (a # b # t) = 2"
  "lead3 a [b, c] \<Longrightarrow> rune_len (a # b # c # t) = 3"
  "lead4 a [b, c, d] \<Longrightarrow> rune_len (a # b # c # d # t) = 4"
  by (simp_all add: rune_len_def lead_extend lead_exclusive)

lemma rune_len_append:
  assumes "rune_len s \<noteq> 0"
  shows "rune_len (take (rune_len s) s @ t) = rune_len s"
  using assms by (cases rule: rune_len_elim) (simp_all add: rune_len_lead)

lemma rune_len_le: "rune_len s \<le> length s"
proof (cases "rune_len s = 0")
  case False
  then show ?thesis by (cases rule: rune_len_elim) auto
qed simp

section \<open>Encoding strings\<close>

definition hex_char :: "nat \<Rightarrow> char" where
  "hex_char d = (if d < 10 then char_of (48 + d) else char_of (87 + d))"

definition escape_ascii :: "char \<Rightarrow> string" where
  "escape_ascii c =
     (if c = CHR ''\"'' \<or> c = CHR 0x5C then [CHR 0x5C, c]
      else if code c = 8 then [CHR 0x5C, CHR ''b'']
      else if code c = 12 then [CHR 0x5C, CHR ''f'']
      else if code c = 10 then [CHR 0x5C, CHR ''n'']
      else if code c = 13 then [CHR 0x5C, CHR ''r'']
      else if code c = 9 then [CHR 0x5C, CHR ''t'']
      else if code c < 32 \<or> c \<in> {CHR ''<'', CHR ''>'', CHR ''&''}
        then [CHR 0x5C, CHR ''u'', CHR ''0'', CHR ''0'', hex_char (code c div 16), hex_char (code c mod 16)]
      else [c])"

definition escape_rune :: "string \<Rightarrow> string" where
  "escape_rune u =
     (if u = [CHR 0xE2, CHR 0x80, CHR 0xA8] then [CHR 0x5C] @ ''u2028''
      else if u = [CHR 0xE2, CHR 0x80, CHR 0xA9] then [CHR 0x5C] @ ''u2029''
      else case u of [c] \<Rightarrow> escape_ascii c | _ \<Rightarrow> u)"

function quote_body :: "string \<Rightarrow> string" where
  "quote_body s =
     (if s = [] then []
      else if rune_len s = 0 then ([CHR 0x5C] @ ''ufffd'') @ quote_body (tl s)
      else escape_rune (take (rune_len s) s) @ quote_body (drop (rune_len s) s))"
  by pat_completeness auto
termination
  by (relation "measure length") auto

declare quote_body.simps [simp del]

definition json_string :: "string \<Rightarrow> string" where
  "json_string s = CHR ''\"'' # quote_body s @ [CHR ''\"'']"

section \<open>Scanning\<close>

definition json_ws :: "char \<Rightarrow> bool" where
  "json_ws c \<longleftrightarrow> c \<in> {CHR 0x20, CHR 0x09, CHR 0x0A, CHR 0x0D}"

definition skip_ws :: "string \<Rightarrow> string" where
  "skip_ws = dropWhile json_ws"

definition is_dig :: "char \<Rightarrow> bool" where "is_dig c \<longleftrightarrow> in_range 48 57 c"
definition is_hex :: "char \<Rightarrow> bool" where
  "is_hex c \<longleftrightarrow> in_range 48 57 c \<or> in_range 97 102 c \<or> in_range 65 70 c"

text \<open>After an opening quote: the text up to the closing quote, and what follows it.\<close>

fun scan_str :: "string \<Rightarrow> (string \<times> string) option" where
  "scan_str [] = None"
| "scan_str (c # r) =
     (if c = CHR ''\"'' then Some ([], r)
      else if c = CHR 0x5C then
        (case r of
           [] \<Rightarrow> None
         | e # r1 \<Rightarrow>
             if e \<in> set ''bfnrt/'' \<or> e = CHR 0x5C \<or> e = CHR ''\"'' then
               map_option (\<lambda>(b, t). (c # e # b, t)) (scan_str r1)
             else if e = CHR ''u'' then
               (case r1 of
                  h1 # h2 # h3 # h4 # r2 \<Rightarrow>
                    if is_hex h1 \<and> is_hex h2 \<and> is_hex h3 \<and> is_hex h4
                    then map_option (\<lambda>(b, t). (c # e # h1 # h2 # h3 # h4 # b, t)) (scan_str r2)
                    else None
                | _ \<Rightarrow> None)
             else None)
      else if code c < 32 then None
      else map_option (\<lambda>(b, t). (c # b, t)) (scan_str r))"

text \<open>A number: what is left after it.\<close>

definition scan_digits1 :: "string \<Rightarrow> string option" where
  "scan_digits1 s = (case s of
      [] \<Rightarrow> None
    | c # r \<Rightarrow> if is_dig c then Some (dropWhile is_dig r) else None)"

definition scan_int :: "string \<Rightarrow> string option" where
  "scan_int s = (case s of
      [] \<Rightarrow> None
    | c # r \<Rightarrow> if c = CHR ''0'' then Some r else scan_digits1 s)"

definition scan_frac :: "string \<Rightarrow> string option" where
  "scan_frac s = (case s of
      [] \<Rightarrow> Some []
    | c # r \<Rightarrow> if c = CHR ''.'' then scan_digits1 r else Some s)"

definition scan_exp :: "string \<Rightarrow> string option" where
  "scan_exp s = (case s of
      [] \<Rightarrow> Some []
    | c # r \<Rightarrow> if c = CHR ''e'' \<or> c = CHR ''E'' then
          (case r of
             [] \<Rightarrow> None
           | d # r' \<Rightarrow> if d = CHR ''+'' \<or> d = CHR ''-'' then scan_digits1 r' else scan_digits1 r)
        else Some s)"

definition scan_num :: "string \<Rightarrow> string option" where
  "scan_num s =
     Option.bind (case s of c # r \<Rightarrow> scan_int (if c = CHR ''-'' then r else s) | [] \<Rightarrow> None)
       (\<lambda>s1. Option.bind (scan_frac s1) scan_exp)"

definition strip_prefix :: "string \<Rightarrow> string \<Rightarrow> string option" where
  "strip_prefix p s = (if take (length p) s = p then Some (drop (length p) s) else None)"

text \<open>
  A value: what is left after it. The first argument bounds the recursion and never runs out where it
  is the length of the input; the second is how many arrays and objects may still be opened, of the
  10000 the scanner allows.
\<close>

fun scan_value :: "nat \<Rightarrow> int \<Rightarrow> string \<Rightarrow> string option"
  and scan_elems :: "nat \<Rightarrow> int \<Rightarrow> string \<Rightarrow> string option"
  and scan_members :: "nat \<Rightarrow> int \<Rightarrow> string \<Rightarrow> string option" where
  "scan_value 0 d s = None"
| "scan_value (Suc f) d s = (case skip_ws s of
      [] \<Rightarrow> None
    | c # r \<Rightarrow>
        if c = CHR ''\"'' then map_option snd (scan_str r)
        else if c = CHR ''{'' then
          (if d = 0 then None
           else case skip_ws r of
               [] \<Rightarrow> None
             | x # r1 \<Rightarrow> if x = CHR ''}'' then Some r1 else scan_members f (d - 1) (x # r1))
        else if c = CHR ''['' then
          (if d = 0 then None
           else case skip_ws r of
               [] \<Rightarrow> None
             | x # r1 \<Rightarrow> if x = CHR '']'' then Some r1 else scan_elems f (d - 1) (x # r1))
        else if c = CHR ''t'' then strip_prefix ''rue'' r
        else if c = CHR ''f'' then strip_prefix ''alse'' r
        else if c = CHR ''n'' then strip_prefix ''ull'' r
        else scan_num (c # r))"
| "scan_elems 0 d s = None"
| "scan_elems (Suc f) d s = (case scan_value f d s of
      None \<Rightarrow> None
    | Some r \<Rightarrow> (case skip_ws r of
        [] \<Rightarrow> None
      | x # r1 \<Rightarrow> if x = CHR '','' then scan_elems f d r1
                  else if x = CHR '']'' then Some r1 else None))"
| "scan_members 0 d s = None"
| "scan_members (Suc f) d s = (case skip_ws s of
      [] \<Rightarrow> None
    | q # r \<Rightarrow> if q \<noteq> CHR ''\"'' then None
        else (case scan_str r of
          None \<Rightarrow> None
        | Some (key, r1) \<Rightarrow> (case skip_ws r1 of
            [] \<Rightarrow> None
          | k # r2 \<Rightarrow> if k \<noteq> CHR '':'' then None
              else (case scan_value f d r2 of
                None \<Rightarrow> None
              | Some r3 \<Rightarrow> (case skip_ws r3 of
                  [] \<Rightarrow> None
                | x # r4 \<Rightarrow> if x = CHR '','' then scan_members f d r4
                            else if x = CHR ''}'' then Some r4 else None)))))"


section \<open>Decoding strings and keys\<close>

definition hex_val :: "char \<Rightarrow> nat" where
  "hex_val c = (if in_range 48 57 c then code c - 48
                else if in_range 97 102 c then code c - 87 else code c - 55)"

definition hex4 :: "char \<Rightarrow> char \<Rightarrow> char \<Rightarrow> char \<Rightarrow> nat" where
  "hex4 a b c d = 4096 * hex_val a + 256 * hex_val b + 16 * hex_val c + hex_val d"

text \<open>A \<open>\u\<close> escape at the front of a string (\<open>getu4\<close>).\<close>

definition getu4 :: "string \<Rightarrow> nat option" where
  "getu4 s = (case s of
      x # u # a # b # c # d # r \<Rightarrow>
        if x = CHR 0x5C \<and> u = CHR ''u'' \<and> is_hex a \<and> is_hex b \<and> is_hex c \<and> is_hex d
        then Some (hex4 a b c d) else None
    | _ \<Rightarrow> None)"

definition unescape :: "char \<Rightarrow> char" where
  "unescape e = (if e = CHR ''b'' then CHR 0x08 else if e = CHR ''f'' then CHR 0x0C
     else if e = CHR ''n'' then CHR 0x0A else if e = CHR ''r'' then CHR 0x0D
     else if e = CHR ''t'' then CHR 0x09 else e)"

definition replacement :: string where "replacement = [CHR 0xEF, CHR 0xBF, CHR 0xBD]"

text \<open>The text a surrogate half \<open>rr\<close> stands for before \<open>r\<close>, and the rest of the input.\<close>

definition surrogate_pair :: "nat \<Rightarrow> string \<Rightarrow> string \<times> string" where
  "surrogate_pair rr r = (case getu4 r of
      Some lo \<Rightarrow> if 55296 \<le> rr \<and> rr < 56320 \<and> 56320 \<le> lo \<and> lo < 57344
        then (encode_rune (65536 + (rr - 55296) * 1024 + (lo - 56320)), drop 6 r)
        else (replacement, r)
    | None \<Rightarrow> (replacement, r))"

lemma surrogate_pair_length: "length (snd (surrogate_pair rr r)) \<le> length r"
  by (auto simp: surrogate_pair_def split: option.split)

text \<open>The decoded text between the quotes of a literal the scanner has accepted.\<close>

function unquote :: "string \<Rightarrow> string" where
  "unquote s = (case s of
      [] \<Rightarrow> []
    | c # r \<Rightarrow>
        if c = CHR 0x5C then
          (case r of
             [] \<Rightarrow> []
           | e # r1 \<Rightarrow>
               if e = CHR ''u'' then
                 (case r1 of
                    h1 # h2 # h3 # h4 # r2 \<Rightarrow>
                      if 55296 \<le> hex4 h1 h2 h3 h4 \<and> hex4 h1 h2 h3 h4 < 57344
                      then fst (surrogate_pair (hex4 h1 h2 h3 h4) r2)
                             @ unquote (snd (surrogate_pair (hex4 h1 h2 h3 h4) r2))
                      else encode_rune (hex4 h1 h2 h3 h4) @ unquote r2
                  | _ \<Rightarrow> [])
               else unescape e # unquote r1)
        else if code c < 128 then c # unquote r
        else if rune_len s = 0 then replacement @ unquote r
        else take (rune_len s) s @ unquote (drop (rune_len s) s))"
  by pat_completeness auto
termination
proof (relation "measure length", goal_cases)
  case (2 s c r e r1 h1 x1 h2 x2 h3 x3 h4 r2)
  then show ?case
    using surrogate_pair_length [of "hex4 h1 h2 h3 h4" r2] by simp
qed auto

declare unquote.simps [simp del]

text \<open>
  Keys match a field's name exactly or up to case folding: ASCII letters, and the two runes outside
  ASCII whose folding is an ASCII letter (U+212A, the Kelvin sign, and U+017F, the long s). The names
  are ASCII and distinct up to folding, so comparing the folded forms is enough.
\<close>

fun fold_name :: "string \<Rightarrow> string" where
  "fold_name (a # b # c # r) =
     (if a = CHR 0xE2 \<and> b = CHR 0x84 \<and> c = CHR 0xAA then CHR ''K'' # fold_name r
      else if a = CHR 0xC5 \<and> b = CHR 0xBF then CHR ''S'' # fold_name (c # r)
      else (if in_range 97 122 a then char_of (code a - 32) else a) # fold_name (b # c # r))"
| "fold_name [a, b] =
     (if a = CHR 0xC5 \<and> b = CHR 0xBF then ''S''
      else (if in_range 97 122 a then char_of (code a - 32) else a) # fold_name [b])"
| "fold_name [a] = [if in_range 97 122 a then char_of (code a - 32) else a]"
| "fold_name [] = []"

definition key_matches :: "string \<Rightarrow> string \<Rightarrow> bool" where
  "key_matches key name \<longleftrightarrow> fold_name key = fold_name name"

section \<open>Objects\<close>

definition value_text :: "string \<Rightarrow> string \<Rightarrow> string" where
  "value_text s r = (let t = skip_ws s in take (length t - length r) t)"

text \<open>The members of an object after its opening brace, decoded key and raw value, and the rest.\<close>

fun obj_members :: "nat \<Rightarrow> int \<Rightarrow> string \<Rightarrow> ((string \<times> string) list \<times> string) option" where
  "obj_members 0 d s = None"
| "obj_members (Suc f) d s = (case skip_ws s of
      [] \<Rightarrow> None
    | q # r \<Rightarrow> if q \<noteq> CHR ''\"'' then None
        else (case scan_str r of
          None \<Rightarrow> None
        | Some (key, r1) \<Rightarrow> (case skip_ws r1 of
            [] \<Rightarrow> None
          | k # r2 \<Rightarrow> if k \<noteq> CHR '':'' then None
              else (case scan_value (Suc (length r2)) d r2 of
                None \<Rightarrow> None
              | Some r3 \<Rightarrow> (case skip_ws r3 of
                  [] \<Rightarrow> None
                | x # r4 \<Rightarrow>
                    if x = CHR '','' then
                      map_option (\<lambda>(ms, t). ((unquote key, value_text r2 r3) # ms, t)) (obj_members f d r4)
                    else if x = CHR ''}'' then Some ([(unquote key, value_text r2 r3)], r4)
                    else None)))))"

text \<open>What the first value of an input is to a struct: an object, \<open>null\<close>, or something else.\<close>

datatype top_value = TopObject "(string \<times> string) list" | TopNull | TopOther

definition max_nesting :: int where "max_nesting = 10000"

definition top_value :: "string \<Rightarrow> (top_value \<times> string) option" where
  "top_value s = (case skip_ws s of
      [] \<Rightarrow> None
    | c # r \<Rightarrow>
        if c = CHR ''{'' then
          (case skip_ws r of
             [] \<Rightarrow> None
           | x # r1 \<Rightarrow> if x = CHR ''}'' then Some (TopObject [], r1)
               else map_option (\<lambda>(ms, t). (TopObject ms, t)) (obj_members (length r) (max_nesting - 1) r))
        else map_option (\<lambda>t. (if c = CHR ''n'' then TopNull else TopOther, t))
               (scan_value (Suc (length s)) max_nesting s))"

text \<open>
  The values of fields: a string field takes a string literal and keeps its value on \<open>null\<close>, an
  \<open>int\<close> field takes an integer literal in range and keeps its value on \<open>null\<close>; anything else is a type
  error. \<open>parse_int\<close> is \<open>strconv.ParseInt(s, 10, 64)\<close> on a JSON number.
\<close>

definition digit_val :: "char \<Rightarrow> int" where "digit_val c = int (code c) - 48"

definition parse_nat :: "string \<Rightarrow> int" where
  "parse_nat = foldl (\<lambda>n c. 10 * n + digit_val c) 0"

definition parse_int :: "string \<Rightarrow> int option" where
  "parse_int s =
     (let (neg, ds) = (case s of c # r \<Rightarrow> if c = CHR ''-'' then (True, r) else (False, s) | [] \<Rightarrow> (False, s));
          n = (if neg then - parse_nat ds else parse_nat ds)
      in if ds \<noteq> [] \<and> list_all is_dig ds \<and> in_int64 n then Some n else None)"

definition string_field :: "string \<Rightarrow> string \<Rightarrow> string option" where
  "string_field raw old =
     (if raw = ''null'' then Some old
      else case raw of
             c # r \<Rightarrow> if c = CHR ''\"'' then Some (unquote (butlast r)) else None
           | [] \<Rightarrow> None)"

definition int_field :: "string \<Rightarrow> int \<Rightarrow> int option" where
  "int_field raw old = (if raw = ''null'' then Some old else parse_int raw)"


section \<open>Strings round-trip\<close>

text \<open>
  \<open>writes p u\<close>: the scanner reads the text \<open>p\<close> as part of a string literal, and the decoder decodes
  it to \<open>u\<close>, wherever it stands.
\<close>

definition writes :: "string \<Rightarrow> string \<Rightarrow> bool" where
  "writes p u \<longleftrightarrow>
     (\<forall>t. scan_str (p @ t) = map_option (\<lambda>(b, x). (p @ b, x)) (scan_str t)) \<and>
     (\<forall>t. unquote (p @ t) = u @ unquote t)"

lemma unquote_Nil [simp]: "unquote [] = []"
  by (simp add: unquote.simps [of "[]"])

lemma writes_Nil: "writes [] []"
  by (simp add: writes_def option.map_ident_strong)

lemma writes_append: "writes p u \<Longrightarrow> writes q v \<Longrightarrow> writes (p @ q) (u @ v)"
  unfolding writes_def by (auto simp: option.map_comp comp_def split_def)

lemma of_char_less_eq: "code c < n \<Longrightarrow> n \<le> code d \<Longrightarrow> c \<noteq> d"
  by auto

lemma writes_plain:
  assumes "code c < 128" "32 \<le> code c" "c \<noteq> CHR ''\"''" "c \<noteq> CHR 0x5C"
  shows "writes [c] [c]"
  using assms by (simp add: writes_def unquote.simps [of "c # _"])

lemma writes_escape:
  assumes "e \<in> set ''bfnrt/'' \<or> e = CHR 0x5C \<or> e = CHR ''\"''"
  shows "writes [CHR 0x5C, e] [unescape e]"
proof -
  have "e \<noteq> CHR ''u''" using assms by auto
  then show ?thesis using assms by (auto simp: writes_def unquote.simps [of "CHR 0x5C # _"])
qed

lemma writes_u:
  assumes "is_hex a" "is_hex b" "is_hex c" "is_hex d"
    and "hex4 a b c d < 55296 \<or> 57344 \<le> hex4 a b c d"
  shows "writes [CHR 0x5C, CHR ''u'', a, b, c, d] (encode_rune (hex4 a b c d))"
  using assms by (auto simp: writes_def unquote.simps [of "CHR 0x5C # _"] split_def)

lemma scan_str_high: "128 \<le> code c \<Longrightarrow> scan_str (c # t) = map_option (\<lambda>(b, x). (c # b, x)) (scan_str t)"
  by auto

lemma cont_high: "cont c \<Longrightarrow> 128 \<le> code c"
  by (simp add: cont_def in_range_def)

lemma lead_high:
  "lead2 a [b] \<Longrightarrow> 128 \<le> code a \<and> 128 \<le> code b"
  "lead3 a [b, c] \<Longrightarrow> 128 \<le> code a \<and> 128 \<le> code b \<and> 128 \<le> code c"
  "lead4 a [b, c, d] \<Longrightarrow> 128 \<le> code a \<and> 128 \<le> code b \<and> 128 \<le> code c \<and> 128 \<le> code d"
  by (auto simp: lead2_def lead3_def lead4_def in_range_def cont_def split: if_splits)

lemma unquote_high:
  assumes "128 \<le> code c" "rune_len (c # t) \<noteq> 0"
  shows "unquote (c # t) = take (rune_len (c # t)) (c # t) @ unquote (drop (rune_len (c # t)) (c # t))"
  using assms by (auto simp: unquote.simps [of "c # t"])

lemma writes_lead:
  "lead2 a [b] \<Longrightarrow> writes [a, b] [a, b]"
  "lead3 a [b, c] \<Longrightarrow> writes [a, b, c] [a, b, c]"
  "lead4 a [b, c, d] \<Longrightarrow> writes [a, b, c, d] [a, b, c, d]"
  using lead_high
  by (simp_all add: writes_def scan_str_high unquote_high rune_len_lead option.map_comp comp_def
      split_def del: scan_str.simps)

lemma hex_char_ok: "d < 16 \<Longrightarrow> is_hex (hex_char d) \<and> hex_val (hex_char d) = d"
  by (auto simp: hex_char_def is_hex_def in_range_def hex_val_def)

lemma writes_ascii_u:
  assumes "code c < 128"
  shows "writes [CHR 0x5C, CHR ''u'', CHR ''0'', CHR ''0'', hex_char (code c div 16), hex_char (code c mod 16)] [c]"
proof -
  have h: "is_hex (hex_char (code c div 16))" "is_hex (hex_char (code c mod 16))"
    "hex_val (hex_char (code c div 16)) = code c div 16" "hex_val (hex_char (code c mod 16)) = code c mod 16"
    using assms by (simp_all add: hex_char_ok)
  have z: "is_hex (CHR ''0'')" "hex_val (CHR ''0'') = 0" by (simp_all add: is_hex_def in_range_def hex_val_def)
  have v: "hex4 (CHR ''0'') (CHR ''0'') (hex_char (code c div 16)) (hex_char (code c mod 16)) = code c"
    using h z by (simp add: hex4_def)
  have "encode_rune (code c) = [c]" using assms by (simp add: encode_rune_def)
  with writes_u [OF z(1) z(1) h(1,2)] v assms show ?thesis by simp
qed

lemma char_eq_code: "c = d \<longleftrightarrow> code c = code d"
  by simp

lemma writes_escape_ascii:
  assumes "code c < 128" shows "writes (escape_ascii c) [c]"
proof -
  have b: "unescape (CHR ''b'') = CHR 0x08" "unescape (CHR ''f'') = CHR 0x0C" "unescape (CHR ''n'') = CHR 0x0A"
    "unescape (CHR ''r'') = CHR 0x0D" "unescape (CHR ''t'') = CHR 0x09" "unescape (CHR 0x5C) = CHR 0x5C"
    "unescape (CHR ''\"'') = CHR ''\"''" by (simp_all add: unescape_def)
  have k: "code c = 8 \<Longrightarrow> c = CHR 0x08" "code c = 12 \<Longrightarrow> c = CHR 0x0C" "code c = 10 \<Longrightarrow> c = CHR 0x0A"
    "code c = 13 \<Longrightarrow> c = CHR 0x0D" "code c = 9 \<Longrightarrow> c = CHR 0x09" by (simp_all add: char_eq_code)
  note e = writes_escape [of "CHR ''b''"] writes_escape [of "CHR ''f''"] writes_escape [of "CHR ''n''"]
    writes_escape [of "CHR ''r''"] writes_escape [of "CHR ''t''"] writes_escape [of "CHR 0x5C"]
    writes_escape [of "CHR ''\"''"]
  show ?thesis
    using assms e writes_ascii_u [OF assms] writes_plain [OF assms] k
    unfolding escape_ascii_def b by (auto simp: not_less)
qed

lemma char_of_utf8:
  "char_of (226 :: nat) = CHR 0xE2" "char_of (128 :: nat) = CHR 0x80" "char_of (168 :: nat) = CHR 0xA8"
  "char_of (169 :: nat) = CHR 0xA9" "char_of (239 :: nat) = CHR 0xEF" "char_of (191 :: nat) = CHR 0xBF"
  "char_of (189 :: nat) = CHR 0xBD"
  by (subst char_eq_code, simp)+

lemma writes_u2028: "writes ([CHR 0x5C] @ ''u2028'') [CHR 0xE2, CHR 0x80, CHR 0xA8]"
  and writes_u2029: "writes ([CHR 0x5C] @ ''u2029'') [CHR 0xE2, CHR 0x80, CHR 0xA9]"
  and writes_ufffd: "writes ([CHR 0x5C] @ ''ufffd'') replacement"
  using writes_u [of "CHR ''2''" "CHR ''0''" "CHR ''2''" "CHR ''8''"]
    writes_u [of "CHR ''2''" "CHR ''0''" "CHR ''2''" "CHR ''9''"]
    writes_u [of "CHR ''f''" "CHR ''f''" "CHR ''f''" "CHR ''d''"]
  by (simp_all add: is_hex_def in_range_def hex4_def hex_val_def encode_rune_def replacement_def
      char_of_utf8)


lemma writes_escape_rune:
  assumes "rune_len s \<noteq> 0"
  shows "writes (escape_rune (take (rune_len s) s)) (take (rune_len s) s)"
  using assms
proof (cases rule: rune_len_elim)
  case (one a t)
  then show ?thesis using writes_escape_ascii [of a] by (simp add: escape_rune_def)
next
  case (two a b t)
  then show ?thesis using writes_lead(1) [of a b] by (simp add: escape_rune_def)
next
  case (three a b c t)
  then show ?thesis using writes_lead(2) [of a b c] writes_u2028 writes_u2029
    by (auto simp: escape_rune_def)
next
  case (four a b c d t)
  then show ?thesis using writes_lead(3) [of a b c d] by (simp add: escape_rune_def)
qed

text \<open>\<open>to_valid s\<close>: each invalid byte of \<open>s\<close> replaced by U+FFFD, as the encoder does.\<close>

function to_valid :: "string \<Rightarrow> string" where
  "to_valid s =
     (if s = [] then []
      else if rune_len s = 0 then replacement @ to_valid (tl s)
      else take (rune_len s) s @ to_valid (drop (rune_len s) s))"
  by pat_completeness auto
termination
  by (relation "measure length") auto

declare to_valid.simps [simp del]

lemma to_valid_id: "valid_utf8 s \<Longrightarrow> to_valid s = s"
proof (induction s rule: valid_utf8.induct)
  case (1 s)
  then show ?case
    by (simp add: to_valid.simps [of s] valid_utf8.simps [of s] split: if_splits)
qed

lemma writes_quote_body: "writes (quote_body s) (to_valid s)"
proof (induction s rule: quote_body.induct)
  case (1 s)
  consider "s = []" | "s \<noteq> []" "rune_len s = 0" | "s \<noteq> []" "rune_len s \<noteq> 0" by blast
  then show ?case
  proof cases
    case 1
    then show ?thesis
      by (simp add: quote_body.simps [of "[]"] to_valid.simps [of "[]"] writes_Nil)
  next
    case 2
    then have "writes (([CHR 0x5C] @ ''ufffd'') @ quote_body (tl s)) (replacement @ to_valid (tl s))"
      by (intro writes_append writes_ufffd "1.IH"(1))
    with 2 show ?thesis by (simp add: quote_body.simps [of s] to_valid.simps [of s])
  next
    case 3
    then have "writes (escape_rune (take (rune_len s) s) @ quote_body (drop (rune_len s) s))
        (take (rune_len s) s @ to_valid (drop (rune_len s) s))"
      by (intro writes_append writes_escape_rune "1.IH"(2))
    with 3 show ?thesis by (simp add: quote_body.simps [of s] to_valid.simps [of s])
  qed
qed

lemma scan_quote_body: "scan_str (quote_body s @ CHR ''\"'' # t) = Some (quote_body s, t)"
  using writes_quote_body [of s] by (simp add: writes_def)

lemma unquote_quote_body: "unquote (quote_body s) = to_valid s"
  using writes_quote_body [of s] unfolding writes_def
  by (metis append_Nil2 unquote_Nil)

section \<open>Integers round-trip\<close>

lemma digit_char_ok: "d < 10 \<Longrightarrow> is_dig (digit_char d) \<and> digit_val (digit_char d) = int d"
  by (auto simp: is_dig_def in_range_def digit_char_def digit_val_def)

lemma dec_digits_nonempty [simp]: "dec_digits n \<noteq> []"
  by (subst dec_digits.simps) simp

lemma dec_digits_digs: "list_all is_dig (dec_digits n)"
proof (induction n rule: dec_digits.induct)
  case (1 n)
  then show ?case
    by (cases "n < 10") (simp_all add: dec_digits.simps [of n] digit_char_ok)
qed

lemma parse_dec_digits: "parse_nat (dec_digits n) = int n"
proof (induction n rule: dec_digits.induct)
  case (1 n)
  show ?case
  proof (cases "n < 10")
    case True
    then show ?thesis by (simp add: dec_digits.simps [of n] parse_nat_def digit_char_ok)
  next
    case False
    then have "parse_nat (dec_digits n) = 10 * int (n div 10) + int (n mod 10)"
      using 1 by (simp add: dec_digits.simps [of n] parse_nat_def digit_char_ok)
    also have "\<dots> = int n"
      by (metis mult_div_mod_eq of_nat_add of_nat_mult of_nat_numeral)
    finally show ?thesis .
  qed
qed

lemma dec_digits_head:
  "\<exists>c r. dec_digits n = c # r \<and> is_dig c \<and> (c = CHR ''0'' \<longrightarrow> n = 0) \<and> (n = 0 \<longrightarrow> r = [])"
proof (induction n rule: dec_digits.induct)
  case (1 n)
  show ?case
  proof (cases "n < 10")
    case True
    then have "digit_char n = CHR ''0'' \<longrightarrow> n = 0"
      by (auto simp: char_eq_code digit_char_def)
    with True show ?thesis by (auto simp: dec_digits.simps [of n] digit_char_ok)
  next
    case False
    with 1 show ?thesis by (auto simp: dec_digits.simps [of n])
  qed
qed

lemma parse_int_Itoa: "in_int64 i \<Longrightarrow> parse_int (Itoa i) = Some i"
proof -
  assume i: "in_int64 i"
  have h: "\<exists>c r. dec_digits n = c # r \<and> c \<noteq> CHR ''-''" for n
    using dec_digits_head [of n] by (auto simp: is_dig_def in_range_def)
  show ?thesis
  proof (cases "i < 0")
    case True
    then show ?thesis using i
      by (simp add: parse_int_def Itoa_def parse_dec_digits dec_digits_digs)
  next
    case False
    obtain c r where "dec_digits (nat i) = c # r" "c \<noteq> CHR ''-''" using h by blast
    then show ?thesis using i False dec_digits_digs [of "nat i"] parse_dec_digits [of "nat i"]
      by (simp add: parse_int_def Itoa_def)
  qed
qed


section \<open>Scanning encoded values\<close>

definition ends_number :: "string \<Rightarrow> bool" where
  "ends_number t \<longleftrightarrow> (case t of [] \<Rightarrow> True | c # _ \<Rightarrow> \<not> is_dig c \<and> c \<notin> set ''.eE'')"

lemma dropWhile_all: "list_all p xs \<Longrightarrow> dropWhile p (xs @ t) = dropWhile p t"
  by (induction xs) auto

lemma ends_number_drop: "ends_number t \<Longrightarrow> dropWhile is_dig t = t"
  by (auto simp: ends_number_def split: list.splits)

lemma scan_int_dec: "ends_number t \<Longrightarrow> scan_int (dec_digits n @ t) = Some t"
proof -
  assume t: "ends_number t"
  obtain c r where c: "dec_digits n = c # r" "is_dig c" "c = CHR ''0'' \<longrightarrow> n = 0" "n = 0 \<longrightarrow> r = []"
    using dec_digits_head [of n] by blast
  have "list_all is_dig r" using dec_digits_digs [of n] c(1) by simp
  then show ?thesis using c t
    by (auto simp: scan_int_def scan_digits1_def dropWhile_all ends_number_drop)
qed

lemma scan_tail: "ends_number t \<Longrightarrow> Option.bind (scan_frac t) scan_exp = Some t"
  by (auto simp: ends_number_def scan_frac_def scan_exp_def split: list.splits)

lemma scan_num_Itoa:
  assumes "ends_number t" shows "scan_num (Itoa i @ t) = Some t"
proof (cases "i < 0")
  case True
  then show ?thesis using assms by (simp add: scan_num_def Itoa_def scan_int_dec scan_tail)
next
  case False
  obtain c r where c: "dec_digits (nat i) = c # r" "is_dig c"
    using dec_digits_head [of "nat i"] by blast
  then have "c \<noteq> CHR ''-''" by (auto simp: is_dig_def in_range_def)
  then show ?thesis
    using scan_int_dec [OF assms, of "nat i"] False c scan_tail [OF assms]
    by (simp add: scan_num_def Itoa_def)
qed

lemma Itoa_head:
  obtains c r where "Itoa i = c # r" "is_dig c \<or> c = CHR ''-''"
  using dec_digits_head [of "nat i"] that by (cases "i < 0") (auto simp: Itoa_def)

lemma scan_value_Itoa:
  assumes "ends_number t" shows "scan_value (Suc f) d (Itoa i @ t) = Some t"
proof -
  obtain c r where c: "Itoa i = c # r" "is_dig c \<or> c = CHR ''-''" by (rule Itoa_head)
  then have "\<not> json_ws c" "c \<notin> set ''\"{[tfn''"
    by (auto simp: json_ws_def is_dig_def in_range_def)
  with c scan_num_Itoa [OF assms, of i] show ?thesis by (simp add: skip_ws_def)
qed

lemma scan_value_string: "scan_value (Suc f) d (json_string s @ t) = Some t"
  by (simp add: json_string_def skip_ws_def json_ws_def scan_quote_body)

lemma value_text_append:
  assumes "skip_ws (v @ t) = v @ t" shows "value_text (v @ t) t = v"
  using assms by (simp add: value_text_def Let_def)

lemma value_text_string: "value_text (json_string s @ t) t = json_string s"
  by (rule value_text_append) (simp add: json_string_def skip_ws_def json_ws_def)

lemma value_text_Itoa: "value_text (Itoa i @ t) t = Itoa i"
proof (rule value_text_append)
  obtain c r where c: "Itoa i = c # r" "is_dig c \<or> c = CHR ''-''" by (rule Itoa_head)
  then have "\<not> json_ws c" by (auto simp: json_ws_def is_dig_def in_range_def)
  with c show "skip_ws (Itoa i @ t) = Itoa i @ t" by (simp add: skip_ws_def)
qed

lemma string_field_quote: "string_field (json_string s) old = Some (to_valid s)"
  by (simp add: string_field_def json_string_def unquote_quote_body)

lemma Itoa_not_null: "Itoa i \<noteq> ''null''"
  by (rule Itoa_head [of i]) (auto simp: is_dig_def in_range_def)

lemma int_field_Itoa: "in_int64 i \<Longrightarrow> int_field (Itoa i) old = Some i"
  using Itoa_not_null by (simp add: int_field_def parse_int_Itoa)

end
