(* ===== verification/Notifier.thy ===== *)
theory Notifier
  imports ClientProps Json
begin

text \<open>
  \<open>internal/infra/outbound/notifier\<close>: the notification of an external endpoint over the resilient HTTP
  client. \<open>json.Marshal\<close> of a struct of strings does not fail.
\<close>

definition notification :: "string \<Rightarrow> string \<Rightarrow> string \<Rightarrow> string" where
  "notification eventID eventType source = ''{\"event_id\":'' @ json_string eventID @
     '',\"event_type\":'' @ json_string eventType @ '',\"source\":'' @ json_string source @ ''}''"

definition Notify ::
  "Client \<Rightarrow> do_env \<Rightarrow> string \<Rightarrow> string \<Rightarrow> string \<Rightarrow> go_error option outcome \<times> Client" where
  "Notify c env eventID eventType source =
     (case Do c env ''POST'' ''/notify'' (Some (notification eventID eventType source)) of
        (Panics p, c') \<Rightarrow> (Panics p, c')
      | (Returns (Inl err), c') \<Rightarrow> (Returns (Some (Wrap ''notifier: send notification: '' err)), c')
      | (Returns (Inr resp), c') \<Rightarrow> (Returns
          (if StatusCode resp \<ge> 400
           then Some (ErrText (''notifier: unexpected status '' @ Itoa (StatusCode resp) @ '': '' @ Body resp))
           else None), c'))"

text \<open>
  C34: a notification that reports no error was delivered. Some attempt of the call, the last one it
  made, sent the notification's JSON and was answered with a status below 400; every earlier attempt
  failed or was answered with a retryable status; and every request of the call was the same POST.
\<close>

theorem notify_delivered:
  assumes "fst (Notify c env i t src) = Returns None"
  shows "let url = cl_baseURL c @ ''/notify''; body = Some (notification i t src) in
    (\<exists>n r. int n \<le> cl_maxRetries c \<and> reply c env ''POST'' url body n = Inr r \<and> StatusCode r < 400 \<and>
       \<not> retryableStatus (StatusCode r) \<and> (\<forall>j < n. failed_reply (reply c env ''POST'' url body j))) \<and>
    set (l_sent (snd (run_loop c env ''POST'' ''/notify'' body))) \<subseteq> {the_request c env ''POST'' url body}"
proof -
  let ?body = "Some (notification i t src)" and ?url = "cl_baseURL c @ ''/notify''"
  obtain ex st' where l: "run_loop c env ''POST'' ''/notify'' ?body = (ex, st')" by fastforce
  from do_loop_sent [OF l [unfolded run_loop_def]]
  have sent: "set (l_sent (snd (run_loop c env ''POST'' ''/notify'' ?body))) \<subseteq> {the_request c env ''POST'' ?url ?body}"
    by (auto simp: l)
  show ?thesis
  proof (cases rule: Do_cases [of c env "''POST''" "''/notify''" ?body])
    case (ok r st)
    then have r: "StatusCode r < 400" using assms by (simp add: Notify_def split: if_splits)
    then have nr: "\<not> retryableStatus (StatusCode r)" by (simp add: retryableStatus_def)
    have "0 \<le> cl_maxRetries c"
      using ok(1,3) by (cases "0 \<le> cl_maxRetries c") (auto simp: run_loop_def do_loop.simps)
    from run_loop_settled [OF ok(1) this] obtain n where n: "settled c env ''POST'' ?url ?body 0 n"
      "case reply c env ''POST'' ?url ?body n of
         Inl e \<Rightarrow> l_resp st = None \<and> l_err st = Some e | Inr r \<Rightarrow> l_resp st = Some r \<and> l_err st = None" .
    with ok(2,3) have "reply c env ''POST'' ?url ?body n = Inr r" by (auto split: sum.splits)
    with n(1) r nr sent show ?thesis unfolding settled_def Let_def by blast
  qed (use assms in \<open>auto simp: Notify_def\<close>)
qed

lemma demo_notify: "fst (Notify example_client (flaky_env 2) ''i'' ''t'' ''s'') = Returns None"
  by (simp add: Notify_def Do_def flaky_simps)

theorem notify_delivered_witness:
  "\<exists>n r. int n \<le> 3 \<and>
     reply example_client (flaky_env 2) ''POST'' ''http://api/notify'' (Some (notification ''i'' ''t'' ''s'')) n = Inr r \<and>
     StatusCode r < 400"
  using notify_delivered [OF demo_notify]
  by (auto simp: Let_def example_client_def New_client_def DefaultConfig_def)

end
