(* ===== verification/Domain.thy ===== *)
theory Domain
  imports Json
begin

text \<open>
  The data of \<open>internal/core\<close>: the event and its statuses (\<open>domain\<close>), the transfer objects (\<open>dto\<close>),
  the message codec (\<open>mapper\<close>) and the expiry of an idempotency entry (\<open>service\<close>), with the
  round trip of the codec.
\<close>

section \<open>domain/event.go\<close>

definition EventStatusPending :: string where "EventStatusPending = ''pending''"
definition EventStatusProcessing :: string where "EventStatusProcessing = ''processing''"
definition EventStatusProcessed :: string where "EventStatusProcessed = ''processed''"
definition EventStatusFailed :: string where "EventStatusFailed = ''failed''"

lemmas status_defs [simp] = EventStatusPending_def EventStatusProcessing_def
  EventStatusProcessed_def EventStatusFailed_def

record event =
  ev_ID :: string
  ev_IdempotencyKey :: string
  ev_Source :: string
  ev_EventType :: string
  ev_Payload :: string
  ev_Status :: string
  ev_RetryCount :: int
  ev_CreatedAt :: time
  ev_ProcessedAt :: "time option"

definition terminal :: "string \<Rightarrow> bool" where
  "terminal st \<longleftrightarrow> st = EventStatusProcessed \<or> st = EventStatusFailed"

section \<open>dto\<close>

record Entry =
  en_EventID :: string
  en_Response :: string
  en_ExpiresAt :: time

definition IsExpired :: "time \<Rightarrow> Entry \<Rightarrow> bool" where
  "IsExpired now e \<longleftrightarrow> now > en_ExpiresAt e"

record DailyEventStat =
  st_Date :: time
  st_Source :: string
  st_EventType :: string
  st_EventCount :: int

record EventMessage =
  msg_EventID :: string
  msg_Attempt :: int

section \<open>service/idempotency.go\<close>

definition TTL :: "time \<Rightarrow> duration \<Rightarrow> time" where
  "TTL now d = now + d"

section \<open>mapper/event_message.go\<close>

text \<open>Marshalling a struct of a string and an \<open>int\<close> cannot fail, so the result is always \<open>Inr\<close>.\<close>

definition MarshalEventMessage :: "EventMessage \<Rightarrow> go_error + string" where
  "MarshalEventMessage msg = Inr (''{\"event_id\":'' @ json_string (msg_EventID msg) @
     '',\"attempt\":'' @ Itoa (msg_Attempt msg) @ ''}'')"

text \<open>
  Decoding a member into the struct: \<open>None\<close> is a type error, after which \<open>Unmarshal\<close> returns an error
  whatever the other members hold. A key that matches no field is skipped.
\<close>

definition message_member :: "string \<times> string \<Rightarrow> EventMessage \<Rightarrow> EventMessage option" where
  "message_member m msg =
     (if key_matches (fst m) ''event_id'' then
        map_option (\<lambda>v. msg\<lparr>msg_EventID := v\<rparr>) (string_field (snd m) (msg_EventID msg))
      else if key_matches (fst m) ''attempt'' then
        map_option (\<lambda>v. msg\<lparr>msg_Attempt := v\<rparr>) (int_field (snd m) (msg_Attempt msg))
      else Some msg)"

fun decode_members :: "('a \<Rightarrow> 'b \<Rightarrow> 'b option) \<Rightarrow> 'a list \<Rightarrow> 'b \<Rightarrow> 'b option" where
  "decode_members f [] x = Some x"
| "decode_members f (m # ms) x = Option.bind (f m x) (decode_members f ms)"

definition json_error :: go_error where "json_error = ErrText ''json''"

definition UnmarshalEventMessage :: "string \<Rightarrow> go_error + EventMessage" where
  "UnmarshalEventMessage data =
     (let zero = \<lparr>msg_EventID = [], msg_Attempt = 0\<rparr>;
          err = Inl (Wrap ''unmarshal event message: '' json_error)
      in case top_value data of
           None \<Rightarrow> err
         | Some (v, rest) \<Rightarrow>
             if skip_ws rest \<noteq> [] then err
             else (case v of
                 TopNull \<Rightarrow> Inr zero
               | TopOther \<Rightarrow> err
               | TopObject ms \<Rightarrow> (case decode_members message_member ms zero of
                   None \<Rightarrow> err
                 | Some msg \<Rightarrow> Inr msg)))"

lemma marshal_members:
  "top_value (''{\"event_id\":'' @ json_string i @ '',\"attempt\":'' @ Itoa n @ ''}'') =
     Some (TopObject [(''event_id'', json_string i), (''attempt'', Itoa n)], [])"
proof -
  have e: "ends_number ''}''" by (simp add: ends_number_def is_dig_def in_range_def)
  have u: "unquote ''event_id'' = ''event_id''" "unquote ''attempt'' = ''attempt''"
    by (simp_all add: unquote.simps)
  have 2: "obj_members (Suc f) 9999 (''\"attempt\":'' @ Itoa n @ ''}'') = Some ([(''attempt'', Itoa n)], [])" for f
    using scan_value_Itoa [OF e, of "length (Itoa n @ ''}'')" 9999 n] value_text_Itoa [of n "''}''"]
    by (simp add: skip_ws_def json_ws_def u del: scan_value.simps)
  have 1: "obj_members (Suc (Suc f)) 9999
      (''\"event_id\":'' @ json_string i @ '',\"attempt\":'' @ Itoa n @ ''}'') =
      Some ([(''event_id'', json_string i), (''attempt'', Itoa n)], [])" for f
    using scan_value_string [of "length (json_string i @ '',\"attempt\":'' @ Itoa n @ ''}'')" 9999 i
        "'',\"attempt\":'' @ Itoa n @ ''}''"]
      value_text_string [of i "'',\"attempt\":'' @ Itoa n @ ''}''"] 2 [of f]
    by (simp add: skip_ws_def json_ws_def u del: scan_value.simps)
  show ?thesis
    using 1 [of "length (tl (tl (''\"event_id\":'' @ json_string i @ '',\"attempt\":'' @ Itoa n @ ''}'')))"]
    by (simp add: top_value_def skip_ws_def json_ws_def max_nesting_def del: obj_members.simps scan_value.simps)
qed

lemma key_matches_message [simp]:
  "key_matches ''event_id'' ''event_id''" "key_matches ''attempt'' ''attempt''"
  "\<not> key_matches ''attempt'' ''event_id''"
  by (simp_all add: key_matches_def in_range_def)

lemma Unmarshal_Marshal:
  assumes "in_int64 (msg_Attempt msg)"
  shows "UnmarshalEventMessage (projr (MarshalEventMessage msg)) =
           Inr (msg\<lparr>msg_EventID := to_valid (msg_EventID msg)\<rparr>)"
  using assms unfolding UnmarshalEventMessage_def MarshalEventMessage_def sum.sel marshal_members
  by (simp add: message_member_def string_field_quote int_field_Itoa skip_ws_def)

text \<open>
  C16: the message codec round-trips. A message with a valid UTF-8 event id and an \<open>Attempt\<close> that fits
  an \<open>int\<close> marshals without error, and unmarshalling the bytes gives the message back, whatever
  characters the id holds (quotes, control characters, HTML characters and line separators are
  escaped and restored).
\<close>

theorem message_roundtrip:
  assumes "valid_utf8 (msg_EventID msg)" "in_int64 (msg_Attempt msg)"
  shows "\<exists>bytes. MarshalEventMessage msg = Inr bytes \<and> UnmarshalEventMessage bytes = Inr msg"
  using Unmarshal_Marshal [OF assms(2)] to_valid_id [OF assms(1)]
  by (auto simp: MarshalEventMessage_def)

theorem message_roundtrip_witness:
  "\<exists>bytes. MarshalEventMessage \<lparr>msg_EventID = ''a\"<'' @ [CHR 0xC3, CHR 0xA9], msg_Attempt = - 7\<rparr> = Inr bytes \<and>
     UnmarshalEventMessage bytes = Inr \<lparr>msg_EventID = ''a\"<'' @ [CHR 0xC3, CHR 0xA9], msg_Attempt = - 7\<rparr>"
  by (rule message_roundtrip)
    (simp_all add: valid_utf8.simps rune_len_def lead2_def cont_def in_range_def int64_defs)

end
