(* ===== verification/Ports.thy ===== *)
theory Ports
  imports Domain
begin

text \<open>
  The interfaces of \<open>internal/core/port\<close>. A Go interface value is a record of its methods over the
  state \<open>'s\<close> the methods share; a method returns its results and the new state. The context argument
  is left out: cancelling it shows as an error result.

  Each interface has a locale: its laws are what the use cases and handlers rely on, stated on a view
  of the state (the rows of the event table, the entries of the idempotency store, the messages
  published, the rows written to the analytics log) and a frame, a second view the operations leave
  alone. An operation that reports an error may have taken effect all the same: the statement or the
  message can be applied and its acknowledgement lost.
\<close>

section \<open>port/event.go\<close>

record 's event_repository =
  Insert :: "event \<Rightarrow> 's \<Rightarrow> go_error option \<times> 's"
  FindByID :: "string \<Rightarrow> 's \<Rightarrow> (go_error + event) \<times> 's"
  UpdateStatus :: "string \<Rightarrow> string \<Rightarrow> 's \<Rightarrow> go_error option \<times> 's"
  IncrementRetry :: "string \<Rightarrow> 's \<Rightarrow> go_error option \<times> 's"
  ListByStatus :: "string \<Rightarrow> int \<Rightarrow> 's \<Rightarrow> (event list \<times> go_error option) \<times> 's"

text \<open>The two updates of a row.\<close>

definition with_status :: "string \<Rightarrow> time \<Rightarrow> event \<Rightarrow> event" where
  "with_status st t e =
     e\<lparr>ev_Status := st, ev_ProcessedAt := (if st = EventStatusProcessed then Some t else None)\<rparr>"

definition with_retry :: "event \<Rightarrow> event" where
  "with_retry e = e\<lparr>ev_RetryCount := ev_RetryCount e + 1\<rparr>"

lemma with_status_fields [simp]:
  "ev_ID (with_status st t e) = ev_ID e" "ev_Status (with_status st t e) = st"
  "ev_Source (with_status st t e) = ev_Source e" "ev_RetryCount (with_status st t e) = ev_RetryCount e"
  by (simp_all add: with_status_def)

lemma with_retry_fields [simp]:
  "ev_ID (with_retry e) = ev_ID e" "ev_Status (with_retry e) = ev_Status e"
  "ev_Source (with_retry e) = ev_Source e" "ev_RetryCount (with_retry e) = ev_RetryCount e + 1"
  by (simp_all add: with_retry_def)

text \<open>
  \<open>rows\<close> gives the stored event of an id, \<open>canon\<close> the form in which the store keeps an id (a UUID has
  several spellings), \<open>stored\<close> is what storing does to an event (precision of timestamps, normal
  form of JSON, trailing spaces).
\<close>

locale event_repo =
  fixes repo :: "'s event_repository"
    and rows :: "'s \<Rightarrow> string \<Rightarrow> event option"
    and frame :: "'s \<Rightarrow> 'f"
    and canon :: "string \<Rightarrow> string"
    and stored :: "event \<Rightarrow> event"
  assumes canon_idem [simp]: "canon (canon i) = canon i"
    and stored_fields: "ev_ID (stored e) = canon (ev_ID e)" "ev_Status (stored e) = ev_Status e"
      "ev_RetryCount (stored e) = ev_RetryCount e"
    and rows_id: "rows s i = Some e \<Longrightarrow> ev_ID e = i"
    and insert_ok: "Insert repo e s = (None, s') \<Longrightarrow>
      rows s (canon (ev_ID e)) = None \<and> rows s' = (rows s)(canon (ev_ID e) \<mapsto> stored e)"
    and insert_err: "Insert repo e s = (Some x, s') \<Longrightarrow>
      rows s' = rows s \<or>
      (rows s (canon (ev_ID e)) = None \<and> rows s' = (rows s)(canon (ev_ID e) \<mapsto> stored e))"
    and find_ok: "FindByID repo i s = (Inr e, s') \<Longrightarrow> rows s (canon i) = Some e \<and> rows s' = rows s"
    and find_err: "FindByID repo i s = (Inl x, s') \<Longrightarrow>
      rows s' = rows s \<and> (errors_Is x ErrNotFound \<longrightarrow> rows s (canon i) = None)"
    and update_ok: "UpdateStatus repo i st s = (None, s') \<Longrightarrow>
      \<exists>e t. rows s (canon i) = Some e \<and> rows s' = (rows s)(canon i \<mapsto> with_status st t e)"
    and update_err: "UpdateStatus repo i st s = (Some x, s') \<Longrightarrow>
      (errors_Is x ErrNotFound \<longrightarrow> rows s (canon i) = None) \<and>
      (rows s' = rows s \<or>
       (\<exists>e t. rows s (canon i) = Some e \<and> rows s' = (rows s)(canon i \<mapsto> with_status st t e)))"
    and incr_ok: "IncrementRetry repo i s = (None, s') \<Longrightarrow>
      \<exists>e. rows s (canon i) = Some e \<and> rows s' = (rows s)(canon i \<mapsto> with_retry e)"
    and incr_err: "IncrementRetry repo i s = (Some x, s') \<Longrightarrow>
      (errors_Is x ErrNotFound \<longrightarrow> rows s (canon i) = None) \<and>
      (rows s' = rows s \<or> (\<exists>e. rows s (canon i) = Some e \<and> rows s' = (rows s)(canon i \<mapsto> with_retry e)))"
    and list_ok: "ListByStatus repo st n s = ((es, None), s') \<Longrightarrow>
      (\<forall>e \<in> set es. ev_Status e = st) \<and> int (length es) \<le> n \<and> sorted (map ev_CreatedAt es)"
    and list_rows: "rows (snd (ListByStatus repo st n s)) = rows s"
    and frames: "frame (snd (Insert repo e s)) = frame s" "frame (snd (FindByID repo i s)) = frame s"
      "frame (snd (UpdateStatus repo i st s)) = frame s" "frame (snd (IncrementRetry repo i s)) = frame s"
      "frame (snd (ListByStatus repo st n s)) = frame s"
begin

text \<open>The effect on the rows, whatever the call reports.\<close>

lemma update_rows:
  "rows (snd (UpdateStatus repo i st s)) = rows s \<or>
   (\<exists>e t. rows s (canon i) = Some e \<and> rows (snd (UpdateStatus repo i st s)) = (rows s)(canon i \<mapsto> with_status st t e))"
  by (cases "UpdateStatus repo i st s"; cases "fst (UpdateStatus repo i st s)")
    (auto dest: update_ok update_err)

lemma incr_rows:
  "rows (snd (IncrementRetry repo i s)) = rows s \<or>
   (\<exists>e. rows s (canon i) = Some e \<and> rows (snd (IncrementRetry repo i s)) = (rows s)(canon i \<mapsto> with_retry e))"
  by (cases "IncrementRetry repo i s"; cases "fst (IncrementRetry repo i s)")
    (auto dest: incr_ok incr_err)

lemma find_rows: "rows (snd (FindByID repo i s)) = rows s"
  by (cases "FindByID repo i s"; cases "fst (FindByID repo i s)") (auto dest: find_ok find_err)

end

section \<open>port/idempotency.go\<close>

record 's idempotency_store =
  Get :: "string \<Rightarrow> 's \<Rightarrow> (go_error + Entry option) \<times> 's"
  Set :: "string \<Rightarrow> Entry \<Rightarrow> 's \<Rightarrow> go_error option \<times> 's"

text \<open>
  \<open>entries\<close> gives the stored entry of a key, expired or not, \<open>clock\<close> the time the store compares the
  expiry with (at the very instant of the expiry a store may go either way); \<open>keyed\<close> and \<open>kept\<close> are
  what storing does to a key and to an entry. An entry is never replaced: \<open>Set\<close> on a key that has one,
  expired or not, is a no-op.
\<close>

locale idem_store =
  fixes store :: "'s idempotency_store"
    and entries :: "'s \<Rightarrow> string \<Rightarrow> Entry option"
    and clock :: "'s \<Rightarrow> time"
    and keyed :: "string \<Rightarrow> string"
    and kept :: "Entry \<Rightarrow> Entry"
    and frame :: "'s \<Rightarrow> 'f"
  assumes get_some: "Get store k s = (Inr (Some e), s') \<Longrightarrow>
      entries s k = Some e \<and> clock s \<le> en_ExpiresAt e"
    and get_none: "Get store k s = (Inr None, s') \<Longrightarrow>
      entries s k = None \<or> (\<exists>e. entries s k = Some e \<and> en_ExpiresAt e \<le> clock s)"
    and get_entries: "entries (snd (Get store k s)) = entries s"
    and set_ok: "Set store k e s = (None, s') \<Longrightarrow>
      entries s' = (case entries s (keyed k) of
          None \<Rightarrow> (entries s)(keyed k \<mapsto> kept e) | Some _ \<Rightarrow> entries s)"
    and set_err: "Set store k e s = (Some x, s') \<Longrightarrow>
      entries s' = entries s \<or> (entries s (keyed k) = None \<and> entries s' = (entries s)(keyed k \<mapsto> kept e))"
    and idem_frames: "frame (snd (Get store k s)) = frame s" "frame (snd (Set store k e s)) = frame s"
begin

lemma set_entries:
  "entries (snd (Set store k e s)) = entries s \<or>
   (entries s (keyed k) = None \<and> entries (snd (Set store k e s)) = (entries s)(keyed k \<mapsto> kept e))"
  by (cases "Set store k e s"; cases "fst (Set store k e s)")
    (auto dest: set_ok set_err split: option.splits)

text \<open>An entry, once there, is there for good.\<close>

lemma set_keeps: "entries s j = Some x \<Longrightarrow> entries (snd (Set store k e s)) j = Some x"
  using set_entries [of k e s] by auto

end

section \<open>port/publisher.go, port/analytics.go\<close>

record 's publisher =
  Publish :: "string \<Rightarrow> string \<Rightarrow> string \<Rightarrow> 's \<Rightarrow> go_error option \<times> 's"

text \<open>
  \<open>sent\<close>: topic, key and value of the messages the broker has, in the order it took them. Delivery
  is at least once: the client retries a write whose acknowledgement is lost, so a successful call
  leaves one copy of the message or more, a failed one any number.
\<close>

locale publishing =
  fixes pub :: "'s publisher"
    and sent :: "'s \<Rightarrow> (string \<times> string \<times> string) list"
    and frame :: "'s \<Rightarrow> 'f"
  assumes publish_ok: "Publish pub topic key v s = (None, s') \<Longrightarrow>
      \<exists>n. sent s' = sent s @ replicate (Suc n) (topic, key, v)"
    and publish_err: "Publish pub topic key v s = (Some x, s') \<Longrightarrow>
      \<exists>n. sent s' = sent s @ replicate n (topic, key, v)"
    and publish_frame: "frame (snd (Publish pub topic key v s)) = frame s"
begin

lemma publish_sent:
  "\<exists>n. sent (snd (Publish pub topic key v s)) = sent s @ replicate n (topic, key, v)"
  by (cases "Publish pub topic key v s"; cases "fst (Publish pub topic key v s)")
    (force dest: publish_ok publish_err)+

end

text \<open>A row of \<open>events_log\<close>: event id, source, event type, status, processing time, date.\<close>

record log_row =
  lr_event_id :: string
  lr_source :: string
  lr_event_type :: string
  lr_status :: string
  lr_processed_at :: time
  lr_date :: time

record 's analytics_writer =
  WriteEvent :: "event \<Rightarrow> 's \<Rightarrow> go_error option \<times> 's"

text \<open>The slice \<open>DailyEvents\<close> returns; \<open>None\<close> is the \<open>nil\<close> slice.\<close>

record 's analytics_querier =
  DailyEvents :: "time \<Rightarrow> time \<Rightarrow> 's \<Rightarrow> (go_error + DailyEventStat list option) \<times> 's"

text \<open>The row of an event: its id, source, type and the status the event value carries.\<close>

definition row_of_event :: "event \<Rightarrow> log_row \<Rightarrow> bool" where
  "row_of_event e r \<longleftrightarrow> lr_event_id r = ev_ID e \<and> lr_source r = ev_Source e \<and>
     lr_event_type r = ev_EventType e \<and> lr_status r = ev_Status e"

locale analytics =
  fixes writer :: "'s analytics_writer"
    and written :: "'s \<Rightarrow> log_row list"
    and frame :: "'s \<Rightarrow> 'f"
  assumes write_ok: "WriteEvent writer e s = (None, s') \<Longrightarrow>
      \<exists>r. written s' = written s @ [r] \<and> row_of_event e r"
    and write_err: "WriteEvent writer e s = (Some x, s') \<Longrightarrow>
      written s' = written s \<or> (\<exists>r. written s' = written s @ [r] \<and> row_of_event e r)"
    and write_frame: "frame (snd (WriteEvent writer e s)) = frame s"
begin

lemma write_written:
  "written (snd (WriteEvent writer e s)) = written s \<or>
   (\<exists>r. written (snd (WriteEvent writer e s)) = written s @ [r] \<and> row_of_event e r)"
  by (cases "WriteEvent writer e s"; cases "fst (WriteEvent writer e s)")
    (auto dest: write_ok write_err)

end

section \<open>Frames\<close>

text \<open>A coarser view of the frame will do.\<close>

lemma spec2: "\<forall>x y. P x y \<Longrightarrow> P a b" by blast
lemma spec3: "\<forall>x y z. P x y z \<Longrightarrow> P a b c" by blast
lemma spec4: "\<forall>x y z u. P x y z u \<Longrightarrow> P a b c d" by blast

lemma event_repo_reframe:
  assumes "event_repo repo rows F canon stored" "\<And>s s'. F s' = F s \<Longrightarrow> G s' = G s"
  shows "event_repo repo rows G canon stored"
  using assms(1) unfolding event_repo_def
  by - (elim conjE, intro conjI; (assumption | (intro allI, rule assms(2), (erule spec2 | erule spec3 | erule spec4))))

lemma idem_store_reframe:
  assumes "idem_store store entries clock keyed kept F" "\<And>s s'. F s' = F s \<Longrightarrow> G s' = G s"
  shows "idem_store store entries clock keyed kept G"
  using assms(1) unfolding idem_store_def
  by - (elim conjE, intro conjI; (assumption | (intro allI, rule assms(2), (erule spec2 | erule spec3 | erule spec4))))

lemma publishing_reframe:
  assumes "publishing pub sent F" "\<And>s s'. F s' = F s \<Longrightarrow> G s' = G s"
  shows "publishing pub sent G"
  using assms(1) unfolding publishing_def
  by - (elim conjE, intro conjI; (assumption | (intro allI, rule assms(2), (erule spec2 | erule spec3 | erule spec4))))

lemma analytics_reframe:
  assumes "analytics writer written F" "\<And>s s'. F s' = F s \<Longrightarrow> G s' = G s"
  shows "analytics writer written G"
  using assms(1) unfolding analytics_def
  by - (elim conjE, intro conjI; (assumption | (intro allI, rule assms(2), (erule spec2 | erule spec3 | erule spec4))))

section \<open>The platform\<close>

text \<open>
  The four interfaces over one state, none touching what another one stores: what the use cases, the
  handlers and the processors are given.
\<close>

locale platform =
  repo: event_repo repo rows "\<lambda>s. (sent s, written s, entries s)" canon stored +
  pub: publishing pub sent "\<lambda>s. (rows s, written s, entries s)" +
  writer: analytics writer written "\<lambda>s. (rows s, sent s, entries s)" +
  store: idem_store store entries clock keyed kept "\<lambda>s. (rows s, sent s, written s)"
  for repo :: "'s event_repository" and rows and canon stored
    and pub :: "'s publisher" and sent
    and writer :: "'s analytics_writer" and written
    and store :: "'s idempotency_store" and entries clock keyed kept
begin

text \<open>What each call leaves alone.\<close>

lemma untouched:
  "sent (snd (Insert repo e s)) = sent s" "written (snd (Insert repo e s)) = written s"
  "entries (snd (Insert repo e s)) = entries s"
  "sent (snd (FindByID repo i s)) = sent s" "written (snd (FindByID repo i s)) = written s"
  "entries (snd (FindByID repo i s)) = entries s"
  "sent (snd (UpdateStatus repo i st s)) = sent s" "written (snd (UpdateStatus repo i st s)) = written s"
  "entries (snd (UpdateStatus repo i st s)) = entries s"
  "sent (snd (IncrementRetry repo i s)) = sent s" "written (snd (IncrementRetry repo i s)) = written s"
  "entries (snd (IncrementRetry repo i s)) = entries s"
  "rows (snd (Publish pub topic k v s)) = rows s" "written (snd (Publish pub topic k v s)) = written s"
  "entries (snd (Publish pub topic k v s)) = entries s"
  "rows (snd (WriteEvent writer e s)) = rows s" "sent (snd (WriteEvent writer e s)) = sent s"
  "entries (snd (WriteEvent writer e s)) = entries s"
  "rows (snd (Get store k s)) = rows s" "sent (snd (Get store k s)) = sent s"
  "written (snd (Get store k s)) = written s"
  "rows (snd (Set store k en s)) = rows s" "sent (snd (Set store k en s)) = sent s"
  "written (snd (Set store k en s)) = written s"
  using repo.frames(1) [of e s] repo.frames(2) [of i s] repo.frames(3) [of i st s] repo.frames(4) [of i s]
    pub.publish_frame [of topic k v s] writer.write_frame [of e s]
    store.idem_frames(1) [of k s] store.idem_frames(2) [of k en s]
  by simp_all

lemmas stores_unchanged [simp] = untouched repo.find_rows store.get_entries

end

end
