(* ===== verification/Memory.thy ===== *)
theory Memory
  imports Ports
begin

text \<open>
  \<open>internal/infra/storage/memory/memory_store.go\<close>: the in-memory idempotency store of the tests, the
  second provider of the interface \<open>idem_store\<close>. The state is the map and the clock \<open>IsExpired\<close> reads;
  its extension is whatever else the process holds. The map holds pointers to entries; nothing writes
  to an entry once it is stored, so the pointers are values here. The mutex makes each method one step.
\<close>

record memory_store =
  mem_entries :: "string \<Rightarrow> Entry option"
  mem_now :: time

definition mem_Get :: "string \<Rightarrow> 'z memory_store_scheme \<Rightarrow> (go_error + Entry option) \<times> 'z memory_store_scheme" where
  "mem_Get key s = (case mem_entries s key of
      None \<Rightarrow> (Inr None, s)
    | Some e \<Rightarrow> if IsExpired (mem_now s) e then (Inr None, s) else (Inr (Some e), s))"

definition mem_Set :: "string \<Rightarrow> Entry \<Rightarrow> 'z memory_store_scheme \<Rightarrow> go_error option \<times> 'z memory_store_scheme" where
  "mem_Set key e s = (case mem_entries s key of
      Some _ \<Rightarrow> (None, s)
    | None \<Rightarrow> (None, s\<lparr>mem_entries := (mem_entries s)(key \<mapsto> e)\<rparr>))"

definition NewMemoryStore :: "'z memory_store_scheme idempotency_store" where
  "NewMemoryStore = \<lparr>Get = mem_Get, Set = mem_Set\<rparr>"

lemmas mem_defs = NewMemoryStore_def mem_Get_def mem_Set_def

interpretation mem: idem_store NewMemoryStore mem_entries mem_now id id memory_store.more
  by unfold_locales
    (auto simp: mem_defs IsExpired_def split: option.splits if_split_asm)

section \<open>Histories\<close>

text \<open>Calls by any number of goroutines, in the order the mutex serialises them, and time passing.\<close>

datatype mem_op = OpGet string | OpSet string Entry | Pass nat

fun mem_step :: "mem_op \<Rightarrow> 'z memory_store_scheme \<Rightarrow> 'z memory_store_scheme" where
  "mem_step (OpGet k) s = snd (Get NewMemoryStore k s)"
| "mem_step (OpSet k e) s = snd (Set NewMemoryStore k e s)"
| "mem_step (Pass d) s = s\<lparr>mem_now := mem_now s + int d\<rparr>"

definition mem_run :: "mem_op list \<Rightarrow> 'z memory_store_scheme \<Rightarrow> 'z memory_store_scheme" where
  "mem_run ops s = foldl (\<lambda>s op. mem_step op s) s ops"

lemma mem_step_keeps: "mem_entries s k = Some e \<Longrightarrow> mem_entries (mem_step op s) k = Some e"
  by (cases op) (simp_all add: mem.get_entries mem.set_keeps)

lemma mem_run_keeps: "mem_entries s k = Some e \<Longrightarrow> mem_entries (mem_run ops s) k = Some e"
  unfolding mem_run_def by (rule foldl_invariant) (auto intro: mem_step_keeps)

lemma mem_Get_entry:
  "mem_entries s k = Some e \<Longrightarrow>
   fst (Get NewMemoryStore k s) = Inr (if en_ExpiresAt e < mem_now s then None else Some e)"
  by (simp add: mem_defs IsExpired_def)

text \<open>
  C27: the first entry stored under a key is the only one \<open>Get\<close> ever returns for it. After a \<open>Set\<close> on
  a free key and any further calls on the store, \<open>Get\<close> returns that entry as long as its expiry has
  not passed and nothing from then on: an expired entry is never replaced, whatever is \<open>Set\<close> after it.
\<close>

theorem memory_first_entry_wins:
  assumes "mem_entries s key = None"
  shows "let s' = mem_run (OpSet key e # ops) s in
    fst (Get NewMemoryStore key s') = Inr (if en_ExpiresAt e < mem_now s' then None else Some e)"
proof -
  have "mem_entries (mem_step (OpSet key e) s) key = Some e"
    using assms by (simp add: mem_defs)
  then have "mem_entries (mem_run (OpSet key e # ops) s) key = Some e"
    using mem_run_keeps [of "mem_step (OpSet key e) s" key e ops] by (simp add: mem_run_def)
  then show ?thesis by (simp add: mem_Get_entry Let_def)
qed

theorem memory_first_entry_wins_witness:
  "let e = \<lparr>en_EventID = ''a'', en_Response = ''{}'', en_ExpiresAt = 5\<rparr>;
       e' = \<lparr>en_EventID = ''b'', en_Response = ''{}'', en_ExpiresAt = 50\<rparr>;
       s' = mem_run [OpSet ''k'' e, Pass 9, OpSet ''k'' e'] \<lparr>mem_entries = Map.empty, mem_now = 0\<rparr>
   in fst (Get NewMemoryStore ''k'' s') = Inr None"
  using memory_first_entry_wins [of "\<lparr>mem_entries = Map.empty, mem_now = 0\<rparr>" "''k''"
      "\<lparr>en_EventID = ''a'', en_Response = ''{}'', en_ExpiresAt = 5\<rparr>"
      "[Pass 9, OpSet ''k'' \<lparr>en_EventID = ''b'', en_Response = ''{}'', en_ExpiresAt = 50\<rparr>]"]
  by (simp add: Let_def mem_run_def mem_defs IsExpired_def)

end
