(* ===== verification/Postgres.thy ===== *)
theory Postgres
  imports Ports "HOL-Library.Multiset"
begin

text \<open>
  \<open>internal/infra/storage/postgres\<close>: the event repository and the idempotency store over
  PostgreSQL.

  The SQL texts of the two files are the constructors of \<open>pg_exec\<close> and the three query methods of
  \<open>pg_driver\<close>, applied to their arguments; \<open>sql_exec\<close> gives their meaning on the two tables of
  \<open>migrations/postgres\<close>, with the constraints declared there. The connection pool (pgx) is the
  parameter \<open>pg_driver\<close>; what the code relies on is the locale \<open>pg_driver_laws\<close>: a statement
  that succeeds has the meaning of its SQL, one that fails has it or has no effect (the acknowledgement
  may be lost), and a read changes no table.

  A locale of laws gives another here: \<open>pg_driver_laws\<close> gives \<open>event_repo\<close> for the repository and
  \<open>idem_store\<close> for the store, so what is proved from the interfaces of \<open>port\<close> holds for PostgreSQL.
\<close>

section \<open>The tables and the statements\<close>

text \<open>
  \<open>webhook_events\<close> has the columns of an event, \<open>idempotency_keys\<close> its key and an entry (the column
  \<open>created_at\<close> of the latter is never read).
\<close>

record tables =
  webhook_events :: "event list"
  idempotency_keys :: "(string \<times> Entry) list"

datatype pg_exec =
    InsertEvent string string string string string string int time
  | UpdateEvent string "time option" string
  | IncrementEvent string
  | InsertKey string string string time

text \<open>
  Column types. \<open>timestamptz\<close> keeps microseconds. \<open>VARCHAR(n)\<close> takes valid UTF-8 without NUL, at most
  \<open>n\<close> characters long; beyond that only spaces are allowed, and dropped. \<open>jsonb\<close> gives the normal
  form in which PostgreSQL keeps a JSON text, \<open>uuid\<close> the canonical text of a UUID; both are
  parameters, \<open>None\<close> where the text is refused.
\<close>

definition pg_time :: "time \<Rightarrow> time" where
  "pg_time t = t div 1000 * 1000"

fun take_runes :: "nat \<Rightarrow> string \<Rightarrow> string \<times> string" where
  "take_runes 0 s = ([], s)"
| "take_runes (Suc n) s =
     (let k = rune_len s; (a, b) = take_runes n (drop k s) in (take k s @ a, b))"

definition varchar :: "nat \<Rightarrow> string \<Rightarrow> string option" where
  "varchar n s =
     (if \<not> valid_utf8 s \<or> CHR 0x00 \<in> set s then None
      else case take_runes n s of (a, rest) \<Rightarrow>
        if list_all (\<lambda>c. c = CHR '' '') rest then Some a else None)"

definition status_check :: "string \<Rightarrow> bool" where
  "status_check st \<longleftrightarrow> st \<in> {''pending'', ''processing'', ''processed'', ''failed''}"

definition pg_int4 :: "int \<Rightarrow> bool" where
  "pg_int4 i \<longleftrightarrow> - 2147483648 \<le> i \<and> i \<le> 2147483647"

definition event_at :: "tables \<Rightarrow> string \<Rightarrow> event option" where
  "event_at t i = find (\<lambda>e. ev_ID e = i) (webhook_events t)"

text \<open>The row an \<open>INSERT INTO webhook_events\<close> stores.\<close>

definition new_row ::
  "(string \<Rightarrow> string option) \<Rightarrow> (string \<Rightarrow> string option) \<Rightarrow> string \<Rightarrow> string \<Rightarrow> string \<Rightarrow> string
     \<Rightarrow> string \<Rightarrow> string \<Rightarrow> int \<Rightarrow> time \<Rightarrow> event option" where
  "new_row uuid jsonb i key source type payload st retry created =
     (case (uuid i, varchar 255 key, varchar 100 source, varchar 100 type, jsonb payload) of
        (Some i', Some key', Some source', Some type', Some payload') \<Rightarrow>
          if status_check st \<and> pg_int4 retry
          then Some \<lparr>ev_ID = i', ev_IdempotencyKey = key', ev_Source = source', ev_EventType = type',
                     ev_Payload = payload', ev_Status = st, ev_RetryCount = retry,
                     ev_CreatedAt = pg_time created, ev_ProcessedAt = None\<rparr>
          else None
      | _ \<Rightarrow> None)"

text \<open>
  The number of rows affected and the new tables, \<open>None\<close> where a value is refused or a constraint
  fails (primary key, check, foreign key, integer range).
\<close>

fun sql_exec ::
  "(string \<Rightarrow> string option) \<Rightarrow> (string \<Rightarrow> string option) \<Rightarrow> pg_exec \<Rightarrow> tables
     \<Rightarrow> (nat \<times> tables) option" where
  "sql_exec uuid jsonb (InsertEvent i key source type payload st retry created) t =
     (case new_row uuid jsonb i key source type payload st retry created of
        None \<Rightarrow> None
      | Some e \<Rightarrow>
          if event_at t (ev_ID e) = None
          then Some (1, t\<lparr>webhook_events := webhook_events t @ [e]\<rparr>) else None)"
| "sql_exec uuid jsonb (UpdateEvent st processed i) t =
     (case uuid i of
        None \<Rightarrow> None
      | Some i' \<Rightarrow>
          if event_at t i' = None then Some (0, t)
          else if status_check st
          then Some (length (filter (\<lambda>e. ev_ID e = i') (webhook_events t)),
                 t\<lparr>webhook_events := map (\<lambda>e. if ev_ID e = i'
                     then e\<lparr>ev_Status := st, ev_ProcessedAt := map_option pg_time processed\<rparr> else e)
                     (webhook_events t)\<rparr>)
          else None)"
| "sql_exec uuid jsonb (IncrementEvent i) t =
     (case uuid i of
        None \<Rightarrow> None
      | Some i' \<Rightarrow>
          if list_ex (\<lambda>e. ev_ID e = i' \<and> \<not> pg_int4 (ev_RetryCount e + 1)) (webhook_events t) then None
          else Some (length (filter (\<lambda>e. ev_ID e = i') (webhook_events t)),
                 t\<lparr>webhook_events := map (\<lambda>e. if ev_ID e = i'
                     then e\<lparr>ev_RetryCount := ev_RetryCount e + 1\<rparr> else e) (webhook_events t)\<rparr>))"
| "sql_exec uuid jsonb (InsertKey key i response expires) t =
     (case (varchar 255 key, uuid i, jsonb response) of
        (Some key', Some i', Some response') \<Rightarrow>
          if map_of (idempotency_keys t) key' \<noteq> None then Some (0, t)
          else if event_at t i' = None then None
          else Some (1, t\<lparr>idempotency_keys := idempotency_keys t @
                 [(key', \<lparr>en_EventID = i', en_Response = response', en_ExpiresAt = pg_time expires\<rparr>)]\<rparr>)
      | _ \<Rightarrow> None)"

text \<open>A row of the two \<open>SELECT\<close>s of the event repository, column by column.\<close>

type_synonym columns =
  "string \<times> string \<times> string \<times> string \<times> string \<times> string \<times> int \<times> time \<times> time option"

definition columns_of :: "event \<Rightarrow> columns" where
  "columns_of e = (ev_ID e, ev_IdempotencyKey e, ev_Source e, ev_EventType e, ev_Payload e,
     ev_Status e, ev_RetryCount e, ev_CreatedAt e, ev_ProcessedAt e)"

section \<open>The driver\<close>

text \<open>
  \<open>q_event\<close> and \<open>q_key\<close> are \<open>QueryRow\<close> with \<open>Scan\<close>; \<open>q_status\<close> is \<open>Query\<close>, the scan of each row
  \<open>Next\<close> delivers, and the final \<open>Err\<close>.
\<close>

record 's pg_driver =
  pg_Exec :: "pg_exec \<Rightarrow> 's \<Rightarrow> (go_error + nat) \<times> 's"
  q_event :: "string \<Rightarrow> 's \<Rightarrow> (go_error + columns) \<times> 's"
  q_key :: "string \<Rightarrow> 's \<Rightarrow> (go_error + string \<times> string \<times> time) \<times> 's"
  q_status :: "string \<Rightarrow> int \<Rightarrow> 's
     \<Rightarrow> (go_error + (go_error + columns) list \<times> go_error option) \<times> 's"

section \<open>event_repository.go\<close>

definition pg_Insert :: "'s pg_driver \<Rightarrow> event \<Rightarrow> 's \<Rightarrow> go_error option \<times> 's" where
  "pg_Insert db e s =
     (case pg_Exec db (InsertEvent (ev_ID e) (ev_IdempotencyKey e) (ev_Source e) (ev_EventType e)
             (ev_Payload e) (ev_Status e) (ev_RetryCount e) (ev_CreatedAt e)) s of
        (Inl err, s') \<Rightarrow> (Some (Wrap ''insert event: '' err), s')
      | (Inr _, s') \<Rightarrow> (None, s'))"

fun scanEvent :: "go_error + columns \<Rightarrow> go_error + event" where
  "scanEvent (Inl err) = Inl err"
| "scanEvent (Inr (i, key, source, type, payload, st, retry, created, processed)) =
     Inr \<lparr>ev_ID = i, ev_IdempotencyKey = key, ev_Source = source, ev_EventType = type,
          ev_Payload = payload, ev_Status = st, ev_RetryCount = retry, ev_CreatedAt = created,
          ev_ProcessedAt = processed\<rparr>"

definition pg_FindByID :: "'s pg_driver \<Rightarrow> string \<Rightarrow> 's \<Rightarrow> (go_error + event) \<times> 's" where
  "pg_FindByID db i s =
     (case q_event db i s of (row, s') \<Rightarrow> (case scanEvent row of
        Inl err \<Rightarrow>
          (if errors_Is err ErrNoRows then Inl ErrNotFound
           else Inl (Wrap ''find event by id: '' err), s')
      | Inr e \<Rightarrow> (Inr e, s')))"

definition pg_UpdateStatus ::
  "'s pg_driver \<Rightarrow> ('s \<Rightarrow> time) \<Rightarrow> string \<Rightarrow> string \<Rightarrow> 's \<Rightarrow> go_error option \<times> 's" where
  "pg_UpdateStatus db now i st s =
     (let processedAt = (if st = EventStatusProcessed then Some (now s) else None)
      in case pg_Exec db (UpdateEvent st processedAt i) s of
           (Inl err, s') \<Rightarrow> (Some (Wrap ''update event status: '' err), s')
         | (Inr n, s') \<Rightarrow> (if n = 0 then Some ErrNotFound else None, s'))"

definition pg_IncrementRetry :: "'s pg_driver \<Rightarrow> string \<Rightarrow> 's \<Rightarrow> go_error option \<times> 's" where
  "pg_IncrementRetry db i s =
     (case pg_Exec db (IncrementEvent i) s of
        (Inl err, s') \<Rightarrow> (Some (Wrap ''increment retry: '' err), s')
      | (Inr n, s') \<Rightarrow> (if n = 0 then Some ErrNotFound else None, s'))"

text \<open>The loop over the rows: the first scan error ends it, with no events.\<close>

fun scan_events :: "(go_error + columns) list \<Rightarrow> go_error + event list" where
  "scan_events [] = Inr []"
| "scan_events (r # rs) = (case scanEvent r of
      Inl err \<Rightarrow> Inl (Wrap ''scan event row: '' err)
    | Inr e \<Rightarrow> (case scan_events rs of Inl err \<Rightarrow> Inl err | Inr es \<Rightarrow> Inr (e # es)))"

definition pg_ListByStatus ::
  "'s pg_driver \<Rightarrow> string \<Rightarrow> int \<Rightarrow> 's \<Rightarrow> (event list \<times> go_error option) \<times> 's" where
  "pg_ListByStatus db st limit s =
     (case q_status db st limit s of
        (Inl err, s') \<Rightarrow> (([], Some (Wrap ''list events by status: '' err)), s')
      | (Inr (rows, err), s') \<Rightarrow> (case scan_events rows of
          Inl e \<Rightarrow> (([], Some e), s')
        | Inr es \<Rightarrow> ((es, err), s')))"

definition NewEventRepository :: "'s pg_driver \<Rightarrow> ('s \<Rightarrow> time) \<Rightarrow> 's event_repository" where
  "NewEventRepository db now = \<lparr>Insert = pg_Insert db, FindByID = pg_FindByID db,
     UpdateStatus = pg_UpdateStatus db now, IncrementRetry = pg_IncrementRetry db,
     ListByStatus = pg_ListByStatus db\<rparr>"

section \<open>idempotency_store.go\<close>

definition pg_Get :: "'s pg_driver \<Rightarrow> string \<Rightarrow> 's \<Rightarrow> (go_error + Entry option) \<times> 's" where
  "pg_Get db key s =
     (case q_key db key s of
        (Inl err, s') \<Rightarrow>
          (if errors_Is err ErrNoRows then Inr None else Inl (Wrap ''idempotency get: '' err), s')
      | (Inr (i, response, expires), s') \<Rightarrow>
          (Inr (Some \<lparr>en_EventID = i, en_Response = response, en_ExpiresAt = expires\<rparr>), s'))"

definition pg_Set :: "'s pg_driver \<Rightarrow> string \<Rightarrow> Entry \<Rightarrow> 's \<Rightarrow> go_error option \<times> 's" where
  "pg_Set db key e s =
     (case pg_Exec db (InsertKey key (en_EventID e) (en_Response e) (en_ExpiresAt e)) s of
        (Inl err, s') \<Rightarrow> (Some (Wrap ''idempotency set: '' err), s')
      | (Inr _, s') \<Rightarrow> (None, s'))"

definition NewIdempotencyStore :: "'s pg_driver \<Rightarrow> 's idempotency_store" where
  "NewIdempotencyStore db = \<lparr>Get = pg_Get db, Set = pg_Set db\<rparr>"

lemmas pg_defs = NewEventRepository_def pg_Insert_def pg_FindByID_def pg_UpdateStatus_def
  pg_IncrementRetry_def pg_ListByStatus_def NewIdempotencyStore_def pg_Get_def pg_Set_def

section \<open>What storing does to a value\<close>

definition pg_canon :: "(string \<Rightarrow> string option) \<Rightarrow> string \<Rightarrow> string" where
  "pg_canon uuid i = (case uuid i of None \<Rightarrow> i | Some i' \<Rightarrow> i')"

definition pg_stored ::
  "(string \<Rightarrow> string option) \<Rightarrow> (string \<Rightarrow> string option) \<Rightarrow> event \<Rightarrow> event" where
  "pg_stored uuid jsonb e =
     (case new_row uuid jsonb (ev_ID e) (ev_IdempotencyKey e) (ev_Source e) (ev_EventType e)
             (ev_Payload e) (ev_Status e) (ev_RetryCount e) (ev_CreatedAt e) of
        None \<Rightarrow> e\<lparr>ev_ID := pg_canon uuid (ev_ID e)\<rparr>
      | Some r \<Rightarrow> r)"

definition pg_keyed :: "string \<Rightarrow> string" where
  "pg_keyed k = (case varchar 255 k of None \<Rightarrow> k | Some k' \<Rightarrow> k')"

definition pg_kept ::
  "(string \<Rightarrow> string option) \<Rightarrow> (string \<Rightarrow> string option) \<Rightarrow> Entry \<Rightarrow> Entry" where
  "pg_kept uuid jsonb e =
     \<lparr>en_EventID = pg_canon uuid (en_EventID e),
      en_Response = (case jsonb (en_Response e) of None \<Rightarrow> en_Response e | Some r \<Rightarrow> r),
      en_ExpiresAt = pg_time (en_ExpiresAt e)\<rparr>"

lemma find_Some_prop: "find P xs = Some x \<Longrightarrow> P x \<and> x \<in> set xs"
  by (auto simp: find_Some_iff)

lemma event_at_id: "event_at t i = Some e \<Longrightarrow> ev_ID e = i"
  unfolding event_at_def by (drule find_Some_prop) simp

lemma find_append_row:
  "find (\<lambda>e. ev_ID e = i) (es @ [x]) =
     (case find (\<lambda>e. ev_ID e = i) es of
        None \<Rightarrow> if ev_ID x = i then Some x else None | Some e \<Rightarrow> Some e)"
  by (induction es) auto

lemma find_map_row:
  assumes "\<And>e. ev_ID (f e) = ev_ID e"
  shows "find (\<lambda>e. ev_ID e = i) (map (\<lambda>e. if ev_ID e = j then f e else e) es) =
    (if i = j then map_option f (find (\<lambda>e. ev_ID e = i) es) else find (\<lambda>e. ev_ID e = i) es)"
  by (induction es) (auto simp: assms)

lemma find_eq_None: "find (\<lambda>e. ev_ID e = i) es = None \<longleftrightarrow> filter (\<lambda>e. ev_ID e = i) es = []"
  by (auto simp: find_None_iff filter_empty_conv)

lemma event_at_append:
  "event_at t (ev_ID e) = None \<Longrightarrow>
   event_at (t\<lparr>webhook_events := webhook_events t @ [e]\<rparr>) = (event_at t)(ev_ID e \<mapsto> e)"
  by (auto simp: event_at_def fun_eq_iff find_append_row split: option.splits)

lemma event_at_map:
  assumes "event_at t j = Some e" "\<And>e. ev_ID (f e) = ev_ID e"
  shows "event_at (t\<lparr>webhook_events := map (\<lambda>e. if ev_ID e = j then f e else e) (webhook_events t)\<rparr>) =
           (event_at t)(j \<mapsto> f e)"
  using assms(1) by (auto simp: event_at_def fun_eq_iff find_map_row [of f, OF assms(2)])

lemma new_row_Some:
  "new_row uuid jsonb i k s ty p st r c = Some e \<Longrightarrow>
   uuid i = Some (ev_ID e) \<and> ev_Status e = st \<and> ev_RetryCount e = r"
  by (auto simp: new_row_def split: option.splits if_splits)

lemma scanEvent_columns [simp]: "scanEvent (Inr (columns_of e)) = Inr e"
  by (simp add: columns_of_def)

lemma scan_events_columns [simp]: "scan_events (map (\<lambda>e. Inr (columns_of e)) es) = Inr es"
  by (induction es) auto

lemma scan_events_no_Inl: "scan_events rs = Inr es \<Longrightarrow> list_all (\<lambda>r. \<not> isl r) rs"
  by (induction rs arbitrary: es) (auto split: sum.splits simp: isl_def)

text \<open>The meaning of the statements, read off the tables.\<close>

lemma sql_insert_rows:
  assumes "sql_exec uuid jsonb (InsertEvent (ev_ID e) (ev_IdempotencyKey e) (ev_Source e) (ev_EventType e)
             (ev_Payload e) (ev_Status e) (ev_RetryCount e) (ev_CreatedAt e)) t = Some (n, t')"
  shows "event_at t (pg_canon uuid (ev_ID e)) = None \<and>
         event_at t' = (event_at t)(pg_canon uuid (ev_ID e) \<mapsto> pg_stored uuid jsonb e)"
  using assms
  by (auto simp: pg_stored_def pg_canon_def event_at_append dest!: new_row_Some
      split: option.splits if_splits)

lemma sql_update_rows:
  assumes "sql_exec uuid jsonb
      (UpdateEvent st (if st = EventStatusProcessed then Some t0 else None) i) t = Some (n, t')"
  shows "if n = 0 then event_at t (pg_canon uuid i) = None \<and> t' = t
         else \<exists>e. event_at t (pg_canon uuid i) = Some e \<and>
           event_at t' = (event_at t)(pg_canon uuid i \<mapsto> with_status st (pg_time t0) e)"
proof (cases "uuid i")
  case (Some i')
  let ?f = "\<lambda>e. e\<lparr>ev_Status := st,
      ev_ProcessedAt := map_option pg_time (if st = EventStatusProcessed then Some t0 else None)\<rparr>"
  have f: "?f = with_status st (pg_time t0)" by (auto simp: with_status_def fun_eq_iff)
  show ?thesis
  proof (cases "event_at t i'")
    case (Some e)
    then have "filter (\<lambda>e. ev_ID e = i') (webhook_events t) \<noteq> []"
      by (metis event_at_def find_eq_None option.distinct(1))
    with assms \<open>uuid i = Some i'\<close> Some event_at_map [OF Some, of ?f] show ?thesis
      unfolding f [symmetric] by (auto simp: pg_canon_def split: if_splits)
  qed (use assms \<open>uuid i = Some i'\<close> in \<open>auto simp: pg_canon_def\<close>)
qed (use assms in auto)

lemma sql_incr_rows:
  assumes "sql_exec uuid jsonb (IncrementEvent i) t = Some (n, t')"
  shows "if n = 0 then event_at t (pg_canon uuid i) = None \<and> event_at t' = event_at t
         else \<exists>e. event_at t (pg_canon uuid i) = Some e \<and>
           event_at t' = (event_at t)(pg_canon uuid i \<mapsto> with_retry e)"
proof (cases "uuid i")
  case (Some i')
  have t': "t' = t\<lparr>webhook_events := map (\<lambda>e. if ev_ID e = i' then with_retry e else e) (webhook_events t)\<rparr>"
    "n = length (filter (\<lambda>e. ev_ID e = i') (webhook_events t))"
    using assms Some by (auto simp: with_retry_def split: if_splits)
  show ?thesis
  proof (cases "event_at t i'")
    case None
    then have "filter (\<lambda>e. ev_ID e = i') (webhook_events t) = []"
      by (simp add: event_at_def find_eq_None)
    moreover have "event_at t' = event_at t"
      using None by (auto simp: t'(1) event_at_def fun_eq_iff find_map_row [of with_retry])
    ultimately show ?thesis using None Some t'(2) by (simp add: pg_canon_def)
  next
    case (Some e)
    then have "filter (\<lambda>e. ev_ID e = i') (webhook_events t) \<noteq> []"
      by (metis event_at_def find_eq_None option.distinct(1))
    then show ?thesis
      using \<open>uuid i = Some i'\<close> Some t' event_at_map [OF Some, of with_retry]
      by (auto simp: pg_canon_def)
  qed
qed (use assms in auto)

lemma sql_key_rows:
  assumes "sql_exec uuid jsonb (InsertKey k (en_EventID e) (en_Response e) (en_ExpiresAt e)) t = Some (n, t')"
  shows "map_of (idempotency_keys t') = (case map_of (idempotency_keys t) (pg_keyed k) of
            None \<Rightarrow> (map_of (idempotency_keys t))(pg_keyed k \<mapsto> pg_kept uuid jsonb e)
          | Some _ \<Rightarrow> map_of (idempotency_keys t))"
  using assms
  by (auto simp: pg_keyed_def pg_kept_def pg_canon_def map_add_def fun_eq_iff
      split: option.splits if_splits)

text \<open>A statement changes one table only.\<close>

fun on_events :: "pg_exec \<Rightarrow> bool" where
  "on_events (InsertKey _ _ _ _) \<longleftrightarrow> False"
| "on_events _ \<longleftrightarrow> True"

lemma sql_one_table:
  "sql_exec uuid jsonb q t = Some (n, t') \<Longrightarrow>
   if on_events q then idempotency_keys t' = idempotency_keys t else webhook_events t' = webhook_events t"
  by (cases q) (auto split: option.splits if_splits)

section \<open>The laws of the driver\<close>

definition key_live :: "(string \<times> Entry) list \<Rightarrow> time \<Rightarrow> string \<Rightarrow> Entry option" where
  "key_live t now k = (case map_of t k of
      None \<Rightarrow> None | Some e \<Rightarrow> if en_ExpiresAt e > now then Some e else None)"

text \<open>
  \<open>tabs\<close> gives the committed tables, \<open>pgnow\<close> what \<open>NOW()\<close> returns. A \<open>WHERE id = $1\<close> with no match gives
  \<open>ErrNoRows\<close>; the driver never returns the program's own \<open>ErrNotFound\<close>.
\<close>

locale pg_driver_laws =
  fixes db :: "'s pg_driver"
    and tabs :: "'s \<Rightarrow> tables"
    and pgnow :: "'s \<Rightarrow> time"
    and uuid :: "string \<Rightarrow> string option"
    and jsonb :: "string \<Rightarrow> string option"
    and frame :: "'s \<Rightarrow> 'f"
  assumes uuid_idem: "uuid i = Some c \<Longrightarrow> uuid c = Some c"
    and exec_ok: "pg_Exec db q s = (Inr n, s') \<Longrightarrow> sql_exec uuid jsonb q (tabs s) = Some (n, tabs s')"
    and exec_err: "pg_Exec db q s = (Inl x, s') \<Longrightarrow> \<not> errors_Is x ErrNotFound \<and>
      (tabs s' = tabs s \<or> (\<exists>n. sql_exec uuid jsonb q (tabs s) = Some (n, tabs s')))"
    and event_ok: "q_event db i s = (Inr row, s') \<Longrightarrow>
      \<exists>i' e. uuid i = Some i' \<and> event_at (tabs s) i' = Some e \<and> row = columns_of e"
    and event_err: "q_event db i s = (Inl x, s') \<Longrightarrow> \<not> errors_Is x ErrNotFound \<and>
      (errors_Is x ErrNoRows \<longrightarrow> (\<exists>i'. uuid i = Some i' \<and> event_at (tabs s) i' = None))"
    and key_ok: "q_key db k s = (Inr krow, s') \<Longrightarrow>
      \<exists>e. key_live (idempotency_keys (tabs s)) (pgnow s) k = Some e \<and>
          krow = (en_EventID e, en_Response e, en_ExpiresAt e)"
    and key_err: "q_key db k s = (Inl x, s') \<Longrightarrow> errors_Is x ErrNoRows \<Longrightarrow>
      key_live (idempotency_keys (tabs s)) (pgnow s) k = None"
    and status_ok: "q_status db st lim s = (Inr (rs, None), s') \<Longrightarrow> list_all (\<lambda>r. \<not> isl r) rs \<Longrightarrow>
      0 \<le> lim \<and> (\<exists>es. mset es = mset (filter (\<lambda>e. ev_Status e = st) (webhook_events (tabs s))) \<and>
        sorted (map ev_CreatedAt es) \<and> rs = map (\<lambda>e. Inr (columns_of e)) (take (nat lim) es))"
    and reads: "tabs (snd (q_event db i s)) = tabs s" "tabs (snd (q_key db k s)) = tabs s"
      "tabs (snd (q_status db st lim s)) = tabs s"
    and driver_frame: "frame (snd (pg_Exec db q s)) = frame s" "frame (snd (q_event db i s)) = frame s"
      "frame (snd (q_key db k s)) = frame s" "frame (snd (q_status db st lim s)) = frame s"
begin

lemma reads_eq:
  "q_event db i s = (r, s') \<Longrightarrow> tabs s' = tabs s \<and> frame s' = frame s"
  "q_key db k s = (r2, s') \<Longrightarrow> tabs s' = tabs s \<and> frame s' = frame s"
  "q_status db st lim s = (r3, s') \<Longrightarrow> tabs s' = tabs s \<and> frame s' = frame s"
  using reads(1) [of i s] reads(2) [of k s] reads(3) [of st lim s]
    driver_frame(2) [of i s] driver_frame(3) [of k s] driver_frame(4) [of st lim s] by auto

lemma exec_frame: "pg_Exec db q s = (r, s') \<Longrightarrow> frame s' = frame s"
  using driver_frame(1) [of q s] by auto

text \<open>What a write leaves in the tables: nothing, or the statement, whatever it reports.\<close>

lemma exec_tabs:
  "pg_Exec db q s = (r, s') \<Longrightarrow>
   tabs s' = tabs s \<or> (\<exists>n. sql_exec uuid jsonb q (tabs s) = Some (n, tabs s'))"
  using exec_ok exec_err by (cases r) blast+

lemma list_by_status:
  assumes "pg_ListByStatus db st lim s = ((es, None), s')"
  shows "0 \<le> lim \<and> (\<exists>xs. mset xs = mset (filter (\<lambda>e. ev_Status e = st) (webhook_events (tabs s))) \<and>
    sorted (map ev_CreatedAt xs) \<and> es = take (nat lim) xs)"
proof -
  obtain rs where q: "q_status db st lim s = (Inr (rs, None), s')" "scan_events rs = Inr es"
    using assms by (auto simp: pg_ListByStatus_def split: prod.splits sum.splits)
  have "0 \<le> lim \<and> (\<exists>xs. mset xs = mset (filter (\<lambda>e. ev_Status e = st) (webhook_events (tabs s))) \<and>
    sorted (map ev_CreatedAt xs) \<and> rs = map (\<lambda>e. Inr (columns_of e)) (take (nat lim) xs))"
    using status_ok [OF q(1) scan_events_no_Inl [OF q(2)]] .
  then show ?thesis using q(2) by auto
qed

end

context pg_driver_laws
begin

lemma exec_one_table:
  "pg_Exec db q s = (r, s') \<Longrightarrow>
   if on_events q then idempotency_keys (tabs s') = idempotency_keys (tabs s)
   else webhook_events (tabs s') = webhook_events (tabs s)"
  using exec_tabs sql_one_table by metis

lemma canon_idem: "pg_canon uuid (pg_canon uuid i) = pg_canon uuid i"
  by (auto simp: pg_canon_def dest: uuid_idem split: option.splits)

lemma Insert_ok:
  "pg_Insert db e s = (None, s') \<Longrightarrow> event_at (tabs s) (pg_canon uuid (ev_ID e)) = None \<and>
     event_at (tabs s') = (event_at (tabs s))(pg_canon uuid (ev_ID e) \<mapsto> pg_stored uuid jsonb e)"
  unfolding pg_Insert_def by (auto split: prod.splits sum.splits dest!: exec_ok sql_insert_rows)

lemma Insert_err:
  assumes "pg_Insert db e s = (Some x, s')"
  shows "event_at (tabs s') = event_at (tabs s) \<or> event_at (tabs s) (pg_canon uuid (ev_ID e)) = None \<and>
     event_at (tabs s') = (event_at (tabs s))(pg_canon uuid (ev_ID e) \<mapsto> pg_stored uuid jsonb e)"
proof -
  obtain r where "pg_Exec db (InsertEvent (ev_ID e) (ev_IdempotencyKey e) (ev_Source e) (ev_EventType e)
             (ev_Payload e) (ev_Status e) (ev_RetryCount e) (ev_CreatedAt e)) s = (r, s')"
    using assms by (auto simp: pg_Insert_def split: prod.splits sum.splits)
  from exec_tabs [OF this] show ?thesis using sql_insert_rows by metis
qed

lemma Find_ok:
  assumes "pg_FindByID db i s = (Inr e, s')"
  shows "event_at (tabs s) (pg_canon uuid i) = Some e \<and> event_at (tabs s') = event_at (tabs s)"
proof -
  obtain row where q: "q_event db i s = (row, s')" "scanEvent row = Inr e"
    using assms by (auto simp: pg_FindByID_def split: prod.splits sum.splits if_splits)
  from q(2) obtain c where c: "row = Inr c" by (cases row) auto
  with event_ok q obtain i' e' where e': "uuid i = Some i'" "event_at (tabs s) i' = Some e'" "c = columns_of e'"
    by blast
  with q(2) c have "e = e'" by simp
  with e' reads_eq(1) [OF q(1)] show ?thesis by (simp add: pg_canon_def)
qed

lemma Find_err:
  assumes "pg_FindByID db i s = (Inl x, s')"
  shows "event_at (tabs s') = event_at (tabs s) \<and>
    (errors_Is x ErrNotFound \<longrightarrow> event_at (tabs s) (pg_canon uuid i) = None)"
proof -
  obtain row y where q: "q_event db i s = (row, s')" "scanEvent row = Inl y"
    and x: "x = (if errors_Is y ErrNoRows then ErrNotFound else Wrap ''find event by id: '' y)"
    using assms by (auto simp: pg_FindByID_def split: prod.splits sum.splits if_splits)
  from q(2) have "row = Inl y" by (cases row) auto
  with event_err q(1) have "\<not> errors_Is y ErrNotFound"
    "errors_Is y ErrNoRows \<longrightarrow> event_at (tabs s) (pg_canon uuid i) = None"
    by (auto simp: pg_canon_def) fastforce
  with x reads_eq(1) [OF q(1)] show ?thesis by auto
qed

text \<open>The two updates report \<open>ErrNotFound\<close> when no row was affected.\<close>

lemma affected:
  assumes "pg_Exec db q s = (r, s')"
    and "res = (case r of Inl y \<Rightarrow> Some (Wrap p y) | Inr n \<Rightarrow> if n = 0 then Some ErrNotFound else None)"
    and rows: "\<And>n t'. sql_exec uuid jsonb q (tabs s) = Some (n, t') \<Longrightarrow>
      if n = 0 then event_at (tabs s) j = None \<and> event_at t' = event_at (tabs s) else R t'"
  shows "if res = None then R (tabs s')
    else (errors_Is (the res) ErrNotFound \<longrightarrow> event_at (tabs s) j = None) \<and>
      (event_at (tabs s') = event_at (tabs s) \<or> R (tabs s'))"
proof (cases r)
  case (Inl y)
  with assms(1) have "\<not> errors_Is y ErrNotFound" using exec_err by blast
  moreover have "event_at (tabs s') = event_at (tabs s) \<or> R (tabs s')"
    using exec_tabs [OF assms(1)] rows by metis
  ultimately show ?thesis using Inl assms(2) by simp
next
  case (Inr n)
  with assms(1) exec_ok have "sql_exec uuid jsonb q (tabs s) = Some (n, tabs s')" by blast
  from rows [OF this] show ?thesis using Inr assms(2) by auto
qed

lemma Update_rows:
  assumes "pg_UpdateStatus db now i st s = (res, s')"
  shows "if res = None
    then \<exists>e t. event_at (tabs s) (pg_canon uuid i) = Some e \<and>
        event_at (tabs s') = (event_at (tabs s))(pg_canon uuid i \<mapsto> with_status st t e)
    else (errors_Is (the res) ErrNotFound \<longrightarrow> event_at (tabs s) (pg_canon uuid i) = None) \<and>
      (event_at (tabs s') = event_at (tabs s) \<or>
       (\<exists>e t. event_at (tabs s) (pg_canon uuid i) = Some e \<and>
         event_at (tabs s') = (event_at (tabs s))(pg_canon uuid i \<mapsto> with_status st t e)))"
proof -
  let ?q = "UpdateEvent st (if st = EventStatusProcessed then Some (now s) else None) i"
  obtain r where "pg_Exec db ?q s = (r, s')" "res = (case r of Inl y \<Rightarrow> Some (Wrap ''update event status: '' y)
      | Inr n \<Rightarrow> if n = 0 then Some ErrNotFound else None)"
    using assms by (auto simp: pg_UpdateStatus_def Let_def split: prod.splits sum.splits
        simp del: status_defs)
  from affected [OF this, where j = "pg_canon uuid i" and R = "\<lambda>t'.
      \<exists>e t. event_at (tabs s) (pg_canon uuid i) = Some e \<and>
        event_at t' = (event_at (tabs s))(pg_canon uuid i \<mapsto> with_status st t e)"]
  show ?thesis using sql_update_rows [of uuid jsonb st "now s" i "tabs s"] by (metis (no_types, lifting))
qed

lemma Increment_rows:
  assumes "pg_IncrementRetry db i s = (res, s')"
  shows "if res = None
    then \<exists>e. event_at (tabs s) (pg_canon uuid i) = Some e \<and>
        event_at (tabs s') = (event_at (tabs s))(pg_canon uuid i \<mapsto> with_retry e)
    else (errors_Is (the res) ErrNotFound \<longrightarrow> event_at (tabs s) (pg_canon uuid i) = None) \<and>
      (event_at (tabs s') = event_at (tabs s) \<or>
       (\<exists>e. event_at (tabs s) (pg_canon uuid i) = Some e \<and>
         event_at (tabs s') = (event_at (tabs s))(pg_canon uuid i \<mapsto> with_retry e)))"
proof -
  obtain r where "pg_Exec db (IncrementEvent i) s = (r, s')"
    "res = (case r of Inl y \<Rightarrow> Some (Wrap ''increment retry: '' y)
      | Inr n \<Rightarrow> if n = 0 then Some ErrNotFound else None)"
    using assms by (auto simp: pg_IncrementRetry_def split: prod.splits sum.splits)
  from affected [OF this, where j = "pg_canon uuid i" and R = "\<lambda>t'.
      \<exists>e. event_at (tabs s) (pg_canon uuid i) = Some e \<and>
        event_at t' = (event_at (tabs s))(pg_canon uuid i \<mapsto> with_retry e)"]
  show ?thesis using sql_incr_rows [of uuid jsonb i "tabs s"] by (metis (no_types, lifting))
qed

lemmas Update_ok = Update_rows [where res = None, simplified]
lemmas Update_err = Update_rows [where res = "Some x" for x, simplified]
lemmas Increment_ok = Increment_rows [where res = None, simplified]
lemmas Increment_err = Increment_rows [where res = "Some x" for x, simplified]

lemma repo_frames:
  "idempotency_keys (tabs (snd (pg_Insert db e s))) = idempotency_keys (tabs s)"
  "frame (snd (pg_Insert db e s)) = frame s"
  "tabs (snd (pg_FindByID db i s)) = tabs s" "frame (snd (pg_FindByID db i s)) = frame s"
  "idempotency_keys (tabs (snd (pg_UpdateStatus db now i st s))) = idempotency_keys (tabs s)"
  "frame (snd (pg_UpdateStatus db now i st s)) = frame s"
  "idempotency_keys (tabs (snd (pg_IncrementRetry db i s))) = idempotency_keys (tabs s)"
  "frame (snd (pg_IncrementRetry db i s)) = frame s"
  "tabs (snd (pg_ListByStatus db st lim s)) = tabs s" "frame (snd (pg_ListByStatus db st lim s)) = frame s"
  unfolding pg_Insert_def pg_FindByID_def pg_UpdateStatus_def pg_IncrementRetry_def pg_ListByStatus_def Let_def
  by (auto split: prod.splits sum.splits dest: exec_one_table exec_frame reads_eq)

text \<open>The store.\<close>

lemma Get_some:
  "pg_Get db k s = (Inr (Some e), s') \<Longrightarrow>
   map_of (idempotency_keys (tabs s)) k = Some e \<and> pgnow s \<le> en_ExpiresAt e"
  unfolding pg_Get_def
  by (auto split: prod.splits sum.splits if_splits dest!: key_ok simp: key_live_def split: option.splits)

lemma Get_none:
  "pg_Get db k s = (Inr None, s') \<Longrightarrow> map_of (idempotency_keys (tabs s)) k = None \<or>
   (\<exists>e. map_of (idempotency_keys (tabs s)) k = Some e \<and> en_ExpiresAt e \<le> pgnow s)"
  unfolding pg_Get_def
  by (auto split: prod.splits sum.splits if_split_asm dest!: key_err simp: key_live_def split: option.splits)

lemma Set_ok:
  assumes "pg_Set db k e s = (None, s')"
  shows "map_of (idempotency_keys (tabs s')) = (case map_of (idempotency_keys (tabs s)) (pg_keyed k) of
       None \<Rightarrow> (map_of (idempotency_keys (tabs s)))(pg_keyed k \<mapsto> pg_kept uuid jsonb e)
     | Some _ \<Rightarrow> map_of (idempotency_keys (tabs s)))"
proof -
  obtain n where "pg_Exec db (InsertKey k (en_EventID e) (en_Response e) (en_ExpiresAt e)) s = (Inr n, s')"
    using assms by (auto simp: pg_Set_def split: prod.splits sum.splits)
  from sql_key_rows [OF exec_ok [OF this]] show ?thesis .
qed

lemma Set_err:
  assumes "pg_Set db k e s = (Some x, s')"
  shows "map_of (idempotency_keys (tabs s')) = map_of (idempotency_keys (tabs s)) \<or>
    map_of (idempotency_keys (tabs s)) (pg_keyed k) = None \<and>
    map_of (idempotency_keys (tabs s')) =
      (map_of (idempotency_keys (tabs s)))(pg_keyed k \<mapsto> pg_kept uuid jsonb e)"
proof -
  obtain r where r: "pg_Exec db (InsertKey k (en_EventID e) (en_Response e) (en_ExpiresAt e)) s = (r, s')"
    using assms by (auto simp: pg_Set_def split: prod.splits sum.splits)
  from exec_tabs [OF r] show ?thesis
    by (auto dest!: sql_key_rows split: option.splits simp del: sql_exec.simps)
qed

lemma store_frames:
  "tabs (snd (pg_Get db k s)) = tabs s" "frame (snd (pg_Get db k s)) = frame s"
  "webhook_events (tabs (snd (pg_Set db k e s))) = webhook_events (tabs s)"
  "frame (snd (pg_Set db k e s)) = frame s"
  unfolding pg_Get_def pg_Set_def
  by (auto split: prod.splits sum.splits dest: exec_one_table exec_frame reads_eq)

lemma list_short:
  assumes "pg_ListByStatus db st lim s = ((es, None), s')"
  shows "(\<forall>e \<in> set es. ev_Status e = st) \<and> int (length es) \<le> lim \<and> sorted (map ev_CreatedAt es)"
proof -
  obtain xs where xs: "0 \<le> lim" "mset xs = mset (filter (\<lambda>e. ev_Status e = st) (webhook_events (tabs s)))"
    "sorted (map ev_CreatedAt xs)" "es = take (nat lim) xs"
    using list_by_status [OF assms] by blast
  from xs(2) have "set xs = {e \<in> set (webhook_events (tabs s)). ev_Status e = st}"
    by (metis set_mset_mset set_filter)
  then show ?thesis
    using xs by (auto simp: take_map [symmetric] sorted_wrt_take dest: in_set_takeD)
qed

end

sublocale pg_driver_laws \<subseteq> pg_repo: event_repo "NewEventRepository db now" "\<lambda>s. event_at (tabs s)"
  "\<lambda>s. (idempotency_keys (tabs s), frame s)" "pg_canon uuid" "pg_stored uuid jsonb"
  for now
proof unfold_locales
  fix i e s s' x st lim es
  show "ev_ID (pg_stored uuid jsonb e) = pg_canon uuid (ev_ID e)"
    "ev_Status (pg_stored uuid jsonb e) = ev_Status e"
    "ev_RetryCount (pg_stored uuid jsonb e) = ev_RetryCount e"
    by (auto simp: pg_stored_def pg_canon_def dest: new_row_Some split: option.splits)
qed (simp_all add: NewEventRepository_def canon_idem event_at_id repo_frames Insert_ok Insert_err
  Find_ok Find_err Update_ok Update_err Increment_ok Increment_err list_short)

sublocale pg_driver_laws \<subseteq> pg_idem: idem_store "NewIdempotencyStore db"
  "\<lambda>s. map_of (idempotency_keys (tabs s))" pgnow pg_keyed "pg_kept uuid jsonb"
  "\<lambda>s. (webhook_events (tabs s), frame s)"
  by unfold_locales
    (use Get_some Get_none Set_ok Set_err in \<open>auto simp: NewIdempotencyStore_def store_frames\<close>)

end
