(* ===== verification/Messaging.thy ===== *)
theory Messaging
  imports Ports
begin

text \<open>
  \<open>internal/infra/messaging\<close>: the header carrier of the trace propagator, the Kafka producer and the
  Kafka consumer. The client library (kafka-go) is a parameter: a writer and a reader over the state
  \<open>'s\<close>, whose laws are the locale \<open>kafka_writer_laws\<close>. That locale gives \<open>publishing\<close> for the
  producer.
\<close>

section \<open>carrier.go\<close>

type_synonym kafka_headers = "(string \<times> string) list"

record HeaderCarrier =
  headers :: kafka_headers

definition NewHeaderCarrier :: "kafka_headers \<Rightarrow> HeaderCarrier" where
  "NewHeaderCarrier h = \<lparr>headers = [] @ h\<rparr>"

fun header_get :: "kafka_headers \<Rightarrow> string \<Rightarrow> string" where
  "header_get [] key = []"
| "header_get ((k, v) # hs) key = (if k = key then v else header_get hs key)"

definition carrier_Get :: "HeaderCarrier \<Rightarrow> string \<Rightarrow> string" where
  "carrier_Get c key = header_get (headers c) key"

fun header_set :: "kafka_headers \<Rightarrow> string \<Rightarrow> string \<Rightarrow> kafka_headers" where
  "header_set [] key value = [(key, value)]"
| "header_set ((k, v) # hs) key value =
     (if k = key then (k, value) # hs else (k, v) # header_set hs key value)"

definition carrier_Set :: "HeaderCarrier \<Rightarrow> string \<Rightarrow> string \<Rightarrow> HeaderCarrier" where
  "carrier_Set c key value = c\<lparr>headers := header_set (headers c) key value\<rparr>"

definition carrier_Keys :: "HeaderCarrier \<Rightarrow> string list" where
  "carrier_Keys c = map fst (headers c)"

definition carrier_Headers :: "HeaderCarrier \<Rightarrow> kafka_headers" where
  "carrier_Headers c = headers c"

lemma header_get_set: "header_get (header_set hs k v) k' = (if k' = k then v else header_get hs k')"
  by (induction hs) auto

lemma header_set_keys:
  "map fst (header_set hs k v) = (if k \<in> set (map fst hs) then map fst hs else map fst hs @ [k])"
  by (induction hs) (auto, force+)

lemma header_get_absent: "k \<notin> set (map fst hs) \<Longrightarrow> header_get hs k = []"
  by (induction hs) auto

text \<open>
  The carrier is the map the trace propagator needs. Injecting a list of fields one by one and
  extracting any key gives the last value injected for it, or what the carrier had before; the keys
  stay in the order they first came in and none is ever listed twice if none was.
\<close>

theorem carrier_inject_extract:
  "let c' = foldl (\<lambda>c (k, v). carrier_Set c k v) c kvs in
     carrier_Get c' key = (case map_of (rev kvs) key of Some v \<Rightarrow> v | None \<Rightarrow> carrier_Get c key) \<and>
     distinct (carrier_Keys c') = distinct (carrier_Keys c) \<and>
     set (carrier_Keys c') = set (carrier_Keys c) \<union> fst ` set kvs \<and>
     take (length (carrier_Keys c)) (carrier_Keys c') = carrier_Keys c"
proof (induction kvs rule: rev_induct)
  case (snoc f fs)
  obtain k v where f: "f = (k, v)" by force
  define d where "d = foldl (\<lambda>c (k, v). carrier_Set c k v) c fs"
  have IH: "carrier_Get d key = (case map_of (rev fs) key of Some v \<Rightarrow> v | None \<Rightarrow> carrier_Get c key)"
    "distinct (carrier_Keys d) = distinct (carrier_Keys c)"
    "set (carrier_Keys d) = set (carrier_Keys c) \<union> fst ` set fs"
    "take (length (carrier_Keys c)) (carrier_Keys d) = carrier_Keys c"
    using snoc by (simp_all add: d_def Let_def)
  have len: "length (carrier_Keys c) \<le> length (carrier_Keys d)"
    using arg_cong [OF IH(4), of length] by simp
  have keys: "carrier_Keys (carrier_Set d k v) =
      (if k \<in> set (carrier_Keys d) then carrier_Keys d else carrier_Keys d @ [k])"
    using header_set_keys [of "headers d" k v] by (simp add: carrier_Keys_def carrier_Set_def)
  have get: "carrier_Get (carrier_Set d k v) key = (if key = k then v else carrier_Get d key)"
    by (simp add: carrier_Get_def carrier_Set_def header_get_set)
  show ?case
    using IH len by (simp add: f keys get d_def [symmetric] Let_def) blast
qed simp

section \<open>producer.go\<close>

record kafka_message =
  km_Topic :: string
  km_Partition :: int
  km_Offset :: int
  km_Key :: string
  km_Value :: string
  km_Headers :: kafka_headers
  km_Time :: time

text \<open>The fields \<open>NewProducer\<close> sets of the library's writer.\<close>

datatype required_acks = RequireNone | RequireOne | RequireAll

record writer_config =
  w_Addr :: "string list"
  w_RequiredAcks :: required_acks
  w_Async :: bool
  w_AllowAutoTopicCreation :: bool
  w_WriteTimeout :: duration
  w_ReadTimeout :: duration

definition producer_config :: "string list \<Rightarrow> writer_config" where
  "producer_config brokers = \<lparr>w_Addr = brokers, w_RequiredAcks = RequireOne, w_Async = False,
     w_AllowAutoTopicCreation = False, w_WriteTimeout = 10 * second, w_ReadTimeout = 10 * second\<rparr>"

text \<open>
  The writer: \<open>WriteMessages\<close> with one message, and \<open>Close\<close>. \<open>inject\<close> is the trace propagator for the
  context of the call.
\<close>

record 's kafka_writer =
  WriteMessages :: "kafka_message \<Rightarrow> 's \<Rightarrow> go_error option \<times> 's"
  WriterClose :: "'s \<Rightarrow> go_error option \<times> 's"

definition outgoing ::
  "(HeaderCarrier \<Rightarrow> HeaderCarrier) \<Rightarrow> time \<Rightarrow> string \<Rightarrow> string \<Rightarrow> string \<Rightarrow> kafka_message" where
  "outgoing inject now topic key v =
     \<lparr>km_Topic = topic, km_Partition = 0, km_Offset = 0, km_Key = key, km_Value = v,
      km_Headers = carrier_Headers (inject (NewHeaderCarrier [])), km_Time = now\<rparr>"

definition producer_Publish ::
  "'s kafka_writer \<Rightarrow> (HeaderCarrier \<Rightarrow> HeaderCarrier) \<Rightarrow> ('s \<Rightarrow> time)
     \<Rightarrow> string \<Rightarrow> string \<Rightarrow> string \<Rightarrow> 's \<Rightarrow> go_error option \<times> 's" where
  "producer_Publish w inject now topic key v s =
     (case WriteMessages w (outgoing inject (now s) topic key v) s of
        (Some err, s') \<Rightarrow> (Some (Wrap (''kafka publish to '' @ topic @ '': '') err), s')
      | (None, s') \<Rightarrow> (None, s'))"

definition producer_Close :: "'s kafka_writer \<Rightarrow> 's \<Rightarrow> go_error option \<times> 's" where
  "producer_Close w s = WriterClose w s"

definition NewProducer ::
  "'s kafka_writer \<Rightarrow> (HeaderCarrier \<Rightarrow> HeaderCarrier) \<Rightarrow> ('s \<Rightarrow> time) \<Rightarrow> 's publisher" where
  "NewProducer w inject now = \<lparr>Publish = producer_Publish w inject now\<rparr>"

text \<open>\<open>log\<close> gives the messages the brokers hold, of all topics, in the order they were appended.\<close>

locale kafka_writer_laws =
  fixes w :: "'s kafka_writer"
    and log :: "'s \<Rightarrow> kafka_message list"
    and frame :: "'s \<Rightarrow> 'f"
  assumes write_ok: "WriteMessages w m s = (None, s') \<Longrightarrow> \<exists>n. log s' = log s @ replicate (Suc n) m"
    and write_err: "WriteMessages w m s = (Some x, s') \<Longrightarrow> \<exists>n. log s' = log s @ replicate n m"
    and writer_frame: "frame (snd (WriteMessages w m s)) = frame s"

definition message_key :: "kafka_message \<Rightarrow> string \<times> string \<times> string" where
  "message_key m = (km_Topic m, km_Key m, km_Value m)"

sublocale kafka_writer_laws \<subseteq> producer: publishing "NewProducer w inject now"
  "\<lambda>s. map message_key (log s)" frame
  for inject now
proof unfold_locales
  fix topic key v s s' x
  let ?m = "outgoing inject (now s) topic key v"
  have k: "message_key ?m = (topic, key, v)" by (simp add: message_key_def outgoing_def)
  show "\<exists>n. map message_key (log s') = map message_key (log s) @ replicate (Suc n) (topic, key, v)"
    if "Publish (NewProducer w inject now) topic key v s = (None, s')"
  proof -
    from that have "WriteMessages w ?m s = (None, s')"
      by (auto simp: NewProducer_def producer_Publish_def split: prod.splits option.splits)
    from write_ok [OF this] show ?thesis by (auto simp: k)
  qed
  show "\<exists>n. map message_key (log s') = map message_key (log s) @ replicate n (topic, key, v)"
    if "Publish (NewProducer w inject now) topic key v s = (Some x, s')"
  proof -
    from that obtain y where "WriteMessages w ?m s = (Some y, s')"
      by (auto simp: NewProducer_def producer_Publish_def split: prod.splits option.splits)
    from write_err [OF this] show ?thesis by (auto simp: k)
  qed
  show "frame (snd (Publish (NewProducer w inject now) topic key v s)) = frame s"
    using writer_frame [of ?m s]
    by (auto simp: NewProducer_def producer_Publish_def split: prod.splits option.splits)
qed

section \<open>consumer.go\<close>

record reader_config =
  r_Brokers :: "string list"
  r_Topic :: string
  r_GroupID :: string
  r_MinBytes :: int
  r_MaxBytes :: int
  r_MaxWait :: duration
  r_CommitInterval :: duration

definition NewConsumer :: "string list \<Rightarrow> string \<Rightarrow> string \<Rightarrow> reader_config" where
  "NewConsumer brokers topic groupID = \<lparr>r_Brokers = brokers, r_Topic = topic, r_GroupID = groupID,
     r_MinBytes = 1, r_MaxBytes = 10000000, r_MaxWait = second, r_CommitInterval = 0\<rparr>"

record 's kafka_reader =
  ReaderFetch :: "'s \<Rightarrow> (go_error + kafka_message) \<times> 's"
  ReaderCommit :: "kafka_message list \<Rightarrow> 's \<Rightarrow> go_error option \<times> 's"
  ReaderLag :: "'s \<Rightarrow> int"
  ReaderClose :: "'s \<Rightarrow> go_error option \<times> 's"

definition FetchMessage :: "'s kafka_reader \<Rightarrow> 's \<Rightarrow> (go_error + kafka_message) \<times> 's" where
  "FetchMessage r s = ReaderFetch r s"

definition CommitMessages :: "'s kafka_reader \<Rightarrow> kafka_message list \<Rightarrow> 's \<Rightarrow> go_error option \<times> 's" where
  "CommitMessages r msgs s = ReaderCommit r msgs s"

definition Lag :: "'s kafka_reader \<Rightarrow> 's \<Rightarrow> int" where
  "Lag r s = ReaderLag r s"

definition consumer_Close :: "'s kafka_reader \<Rightarrow> 's \<Rightarrow> go_error option \<times> 's" where
  "consumer_Close r s = ReaderClose r s"

end
