(* ===== verification/Clickhouse.thy ===== *)
theory Clickhouse
  imports Ports
begin

text \<open>
  \<open>internal/infra/storage/clickhouse\<close>: the writer of \<open>events_log\<close> and the querier of
  \<open>daily_event_stats\<close>. The connection of the client library is the parameter \<open>ch_conn\<close>; its laws on
  the rows of \<open>events_log\<close> are the locale \<open>ch_conn_laws\<close>, which gives \<open>analytics\<close> for the writer.
\<close>

section \<open>The connection\<close>

text \<open>
  \<open>PrepareBatch\<close> with the SQL text, \<open>Append\<close> (the checks of a row's values), \<open>Send\<close> of the rows
  appended, and \<open>Query\<close>: the rows \<open>Next\<close> delivers, each with the result of its \<open>Scan\<close>, and the final
  \<open>Err\<close>.
\<close>

record 's ch_conn =
  PrepareBatch :: "string \<Rightarrow> 's \<Rightarrow> go_error option \<times> 's"
  Append :: "log_row \<Rightarrow> go_error option"
  Send :: "log_row list \<Rightarrow> 's \<Rightarrow> go_error option \<times> 's"
  ch_Query :: "string \<Rightarrow> time \<Rightarrow> time \<Rightarrow> 's
     \<Rightarrow> (go_error + (go_error + DailyEventStat) list \<times> go_error option) \<times> 's"

section \<open>event_writer.go\<close>

text \<open>
  \<open>Time.Truncate(d)\<close> rounds down to a multiple of \<open>d\<close> since the zero time, which is also midnight UTC
  for a day.
\<close>

definition truncate :: "time \<Rightarrow> duration \<Rightarrow> time" where
  "truncate t d = t - (t - zero_time) mod d"

definition the_row :: "time \<Rightarrow> event \<Rightarrow> log_row" where
  "the_row now e =
     (let processedAt = (case ev_ProcessedAt e of Some t \<Rightarrow> t | None \<Rightarrow> now);
          date = truncate processedAt (24 * hour)
      in \<lparr>lr_event_id = ev_ID e, lr_source = ev_Source e, lr_event_type = ev_EventType e,
          lr_status = ev_Status e, lr_processed_at = processedAt, lr_date = date\<rparr>)"

definition ch_WriteEvent :: "'s ch_conn \<Rightarrow> ('s \<Rightarrow> time) \<Rightarrow> event \<Rightarrow> 's \<Rightarrow> go_error option \<times> 's" where
  "ch_WriteEvent conn now e s =
     (let row = the_row (now s) e
      in case PrepareBatch conn ''INSERT INTO events_log'' s of
           (Some err, s1) \<Rightarrow> (Some (Wrap ''analytics prepare batch: '' err), s1)
         | (None, s1) \<Rightarrow> (case Append conn row of
             Some err \<Rightarrow> (Some (Wrap ''analytics append row: '' err), s1)
           | None \<Rightarrow> (case Send conn [row] s1 of
               (Some err, s2) \<Rightarrow> (Some (Wrap ''analytics send batch: '' err), s2)
             | (None, s2) \<Rightarrow> (None, s2))))"

definition NewEventWriter :: "'s ch_conn \<Rightarrow> ('s \<Rightarrow> time) \<Rightarrow> 's analytics_writer" where
  "NewEventWriter conn now = \<lparr>WriteEvent = ch_WriteEvent conn now\<rparr>"

section \<open>event_querier.go\<close>

definition daily_query :: string where
  "daily_query = ''SELECT date, source, event_type, sum(event_count) AS event_count '' @
     ''FROM daily_event_stats WHERE date >= ? AND date <= ? '' @
     ''GROUP BY date, source, event_type ORDER BY date ASC, source ASC, event_type ASC''"

text \<open>The loop appends to \<open>stats\<close>, a \<open>nil\<close> slice before the first row; a scan error ends it.\<close>

fun scan_stats :: "(go_error + DailyEventStat) list \<Rightarrow> DailyEventStat list option
    \<Rightarrow> go_error + DailyEventStat list option" where
  "scan_stats [] stats = Inr stats"
| "scan_stats (Inl err # rs) stats = Inl (Wrap ''scan daily event stat: '' err)"
| "scan_stats (Inr st # rs) stats =
     scan_stats rs (Some ((case stats of None \<Rightarrow> [] | Some xs \<Rightarrow> xs) @ [st]))"

definition ch_DailyEvents :: "'s ch_conn \<Rightarrow> time \<Rightarrow> time \<Rightarrow> 's
    \<Rightarrow> (go_error + DailyEventStat list option) \<times> 's" where
  "ch_DailyEvents conn from until s =
     (case ch_Query conn daily_query from until s of
        (Inl err, s') \<Rightarrow> (Inl (Wrap ''daily events query: '' err), s')
      | (Inr (rows, final), s') \<Rightarrow> (case scan_stats rows None of
          Inl err \<Rightarrow> (Inl err, s')
        | Inr stats \<Rightarrow> (case final of
            Some err \<Rightarrow> (Inl (Wrap ''iterate daily events: '' err), s')
          | None \<Rightarrow> (Inr stats, s'))))"

definition NewEventQuerier :: "'s ch_conn \<Rightarrow> 's analytics_querier" where
  "NewEventQuerier conn = \<lparr>DailyEvents = ch_DailyEvents conn\<rparr>"

section \<open>The laws of the connection\<close>

text \<open>
  \<open>logged\<close> gives the rows inserted into \<open>events_log\<close> (the table's engine may later drop rows that
  repeat the same key).
\<close>

locale ch_conn_laws =
  fixes conn :: "'s ch_conn"
    and logged :: "'s \<Rightarrow> log_row list"
    and frame :: "'s \<Rightarrow> 'f"
  assumes prepare_logged: "logged (snd (PrepareBatch conn sql s)) = logged s"
    and send_ok: "Send conn rs s = (None, s') \<Longrightarrow> logged s' = logged s @ rs"
    and send_err: "Send conn rs s = (Some x, s') \<Longrightarrow> logged s' = logged s \<or> logged s' = logged s @ rs"
    and conn_frame: "frame (snd (PrepareBatch conn sql s)) = frame s" "frame (snd (Send conn rs s)) = frame s"

lemma row_of_the_row: "row_of_event e (the_row now e)"
  by (simp add: row_of_event_def the_row_def Let_def)

sublocale ch_conn_laws \<subseteq> ch_writer: analytics "NewEventWriter conn now" logged frame
  for now
proof unfold_locales
  fix e s s' x
  let ?r = "the_row (now s) e"
  let ?s1 = "snd (PrepareBatch conn ''INSERT INTO events_log'' s)"
  have p: "logged ?s1 = logged s" "frame ?s1 = frame s"
    by (simp_all add: prepare_logged conn_frame)
  have sent: "logged (snd (Send conn [?r] ?s1)) = logged ?s1 \<or> logged (snd (Send conn [?r] ?s1)) = logged ?s1 @ [?r]"
    by (cases "Send conn [?r] ?s1"; cases "fst (Send conn [?r] ?s1)") (auto dest: send_ok send_err)
  show "\<exists>r. logged s' = logged s @ [r] \<and> row_of_event e r" if "WriteEvent (NewEventWriter conn now) e s = (None, s')"
  proof -
    from that have "Send conn [?r] ?s1 = (None, s')"
      by (auto simp: NewEventWriter_def ch_WriteEvent_def Let_def split: prod.splits option.splits)
    from send_ok [OF this] show ?thesis using p row_of_the_row by auto
  qed
  show "logged s' = logged s \<or> (\<exists>r. logged s' = logged s @ [r] \<and> row_of_event e r)"
    if "WriteEvent (NewEventWriter conn now) e s = (Some x, s')"
  proof -
    from that have "s' = ?s1 \<or> s' = snd (Send conn [?r] ?s1)"
      by (auto simp: NewEventWriter_def ch_WriteEvent_def Let_def split: prod.splits option.splits)
    then show ?thesis using p sent row_of_the_row by metis
  qed
  show "frame (snd (WriteEvent (NewEventWriter conn now) e s)) = frame s"
    using p conn_frame(2) [of "[?r]" ?s1]
    by (auto simp: NewEventWriter_def ch_WriteEvent_def Let_def split: prod.splits option.splits)
qed

lemma scan_stats_all:
  "scan_stats (map Inr xs) stats =
     Inr (if xs = [] then stats else Some ((case stats of None \<Rightarrow> [] | Some ys \<Rightarrow> ys) @ xs))"
  by (induction xs arbitrary: stats) auto

lemma scan_stats_Inr:
  "scan_stats rows stats = Inr r \<Longrightarrow> \<exists>xs. rows = map Inr xs"
proof (induction rows stats rule: scan_stats.induct)
  case (3 st rs stats)
  then obtain xs where "rs = map Inr xs" by auto
  then show ?case by (intro exI [of _ "st # xs"]) simp
qed auto

end
