(* ===== verification/Environment.thy ===== *)
theory Environment
  imports Postgres Messaging Clickhouse
begin

text \<open>
  The platform as the binaries wire it: the PostgreSQL repository and store, the Kafka producer and the
  ClickHouse writer over one state. The locale \<open>drivers\<close> puts the laws of the three client libraries
  together and gives \<open>platform\<close>; a property stated from \<open>drivers\<close> is one of the whole stack.

  The second half is an executable instance of the laws: a world with tables, a broker log, log rows,
  a clock and a list of faults that decides which calls fail and whether they take effect all the
  same. It shows that the laws can hold together and evaluates the properties on concrete inputs.
\<close>

section \<open>The three drivers\<close>

locale drivers =
  pg: pg_driver_laws db tabs pgnow uuid jsonb "\<lambda>s. (log s, logged s)" +
  kafka: kafka_writer_laws w log "\<lambda>s. (tabs s, logged s)" +
  ch: ch_conn_laws conn logged "\<lambda>s. (tabs s, log s)"
  for db :: "'s pg_driver" and tabs pgnow uuid jsonb
    and w :: "'s kafka_writer" and log
    and conn :: "'s ch_conn" and logged

context drivers
begin

lemma is_platform:
  "platform (NewEventRepository db now) (\<lambda>s. event_at (tabs s)) (pg_canon uuid) (pg_stored uuid jsonb)
     (NewProducer w inject now) (\<lambda>s. map message_key (log s)) (NewEventWriter conn now) logged
     (NewIdempotencyStore db) (\<lambda>s. map_of (idempotency_keys (tabs s))) pgnow pg_keyed (pg_kept uuid jsonb)"
proof (intro platform.intro)
  show "event_repo (NewEventRepository db now) (\<lambda>s. event_at (tabs s))
     (\<lambda>s. (map message_key (log s), logged s, map_of (idempotency_keys (tabs s))))
     (pg_canon uuid) (pg_stored uuid jsonb)"
    by (rule event_repo_reframe [OF pg.pg_repo.event_repo_axioms]) simp
  show "publishing (NewProducer w inject now) (\<lambda>s. map message_key (log s))
     (\<lambda>s. (event_at (tabs s), logged s, map_of (idempotency_keys (tabs s))))"
    by (rule publishing_reframe [OF kafka.producer.publishing_axioms]) simp
  show "analytics (NewEventWriter conn now) logged
     (\<lambda>s. (event_at (tabs s), map message_key (log s), map_of (idempotency_keys (tabs s))))"
    by (rule analytics_reframe [OF ch.ch_writer.analytics_axioms]) simp
  show "idem_store (NewIdempotencyStore db) (\<lambda>s. map_of (idempotency_keys (tabs s))) pgnow pg_keyed
     (pg_kept uuid jsonb) (\<lambda>s. (event_at (tabs s), map message_key (log s), logged s))"
    by (rule idem_store_reframe [OF pg.pg_idem.idem_store_axioms]) (auto simp: event_at_def fun_eq_iff)
qed

end

sublocale drivers \<subseteq> stack: platform "NewEventRepository db now" "\<lambda>s. event_at (tabs s)"
  "pg_canon uuid" "pg_stored uuid jsonb" "NewProducer w inject now" "\<lambda>s. map message_key (log s)"
  "NewEventWriter conn now" logged "NewIdempotencyStore db" "\<lambda>s. map_of (idempotency_keys (tabs s))"
  pgnow pg_keyed "pg_kept uuid jsonb"
  for now inject
  by (rule is_platform)

section \<open>A world\<close>

text \<open>
  \<open>w_faults\<close> decides the fate of the next calls: one that is \<open>Refused\<close> has no effect and reports the
  text, one that is \<open>Unacked\<close> takes effect and reports the text; when the list is used up calls
  succeed. \<open>w_inbox\<close> and \<open>w_committed\<close> are the reader's side of Kafka.
\<close>

datatype fault = Fine | Refused string | Unacked string

record world =
  w_tabs :: tables
  w_log :: "kafka_message list"
  w_rows :: "log_row list"
  w_now :: time
  w_faults :: "fault list"
  w_inbox :: "kafka_message list"
  w_committed :: "kafka_message list"

definition new_world :: "time \<Rightarrow> fault list \<Rightarrow> world" where
  "new_world now fs = \<lparr>w_tabs = \<lparr>webhook_events = [], idempotency_keys = []\<rparr>, w_log = [], w_rows = [],
     w_now = now, w_faults = fs, w_inbox = [], w_committed = []\<rparr>"

definition next_fault :: "world \<Rightarrow> fault \<times> world" where
  "next_fault s = (case w_faults s of [] \<Rightarrow> (Fine, s) | f # fs \<Rightarrow> (f, s\<lparr>w_faults := fs\<rparr>))"

lemma next_fault_keeps:
  assumes "next_fault s = (f, s')"
  shows "w_tabs s' = w_tabs s" "w_log s' = w_log s" "w_rows s' = w_rows s" "w_now s' = w_now s"
    "w_inbox s' = w_inbox s" "w_committed s' = w_committed s"
  using assms by (auto simp: next_fault_def split: list.splits)

definition world_uuid :: "string \<Rightarrow> string option" where
  "world_uuid i =
     (if length i = 36 \<and> list_all (\<lambda>(n, c). if n \<in> {8, 13, 18, 23} then c = CHR ''-''
           else in_range 48 57 c \<or> in_range 97 102 c) (enumerate 0 i)
      then Some i else None)"

definition world_jsonb :: "string \<Rightarrow> string option" where
  "world_jsonb t = (case scan_value (Suc (length t)) max_nesting t of
      None \<Rightarrow> None | Some r \<Rightarrow> if skip_ws r = [] then Some t else None)"

definition world_exec :: "pg_exec \<Rightarrow> world \<Rightarrow> (go_error + nat) \<times> world" where
  "world_exec q s = (case next_fault s of
      (Refused x, s1) \<Rightarrow> (Inl (ErrText x), s1)
    | (f, s1) \<Rightarrow> (case sql_exec world_uuid world_jsonb q (w_tabs s1) of
        None \<Rightarrow> (Inl (ErrText ''constraint''), s1)
      | Some (n, t) \<Rightarrow> (case f of
          Unacked x \<Rightarrow> (Inl (ErrText x), s1\<lparr>w_tabs := t\<rparr>)
        | _ \<Rightarrow> (Inr n, s1\<lparr>w_tabs := t\<rparr>))))"

definition world_read :: "(world \<Rightarrow> go_error + 'a) \<Rightarrow> world \<Rightarrow> (go_error + 'a) \<times> world" where
  "world_read q s = (case next_fault s of
      (Fine, s1) \<Rightarrow> (q s1, s1)
    | (Refused x, s1) \<Rightarrow> (Inl (ErrText x), s1)
    | (Unacked x, s1) \<Rightarrow> (Inl (ErrText x), s1))"

definition world_event :: "string \<Rightarrow> world \<Rightarrow> go_error + columns" where
  "world_event i s = (case world_uuid i of
      None \<Rightarrow> Inl (ErrText ''invalid UUID'')
    | Some i' \<Rightarrow> (case event_at (w_tabs s) i' of None \<Rightarrow> Inl ErrNoRows | Some e \<Rightarrow> Inr (columns_of e)))"

definition world_key :: "string \<Rightarrow> world \<Rightarrow> go_error + string \<times> string \<times> time" where
  "world_key k s = (case key_live (idempotency_keys (w_tabs s)) (w_now s) k of
      None \<Rightarrow> Inl ErrNoRows | Some e \<Rightarrow> Inr (en_EventID e, en_Response e, en_ExpiresAt e))"

definition world_status :: "string \<Rightarrow> int \<Rightarrow> world
    \<Rightarrow> go_error + (go_error + columns) list \<times> go_error option" where
  "world_status st lim s = (if lim < 0 then Inl (ErrText ''negative limit'') else
     Inr (map (\<lambda>e. Inr (columns_of e)) (take (nat lim)
       (sort_key ev_CreatedAt (filter (\<lambda>e. ev_Status e = st) (webhook_events (w_tabs s))))), None))"

definition world_db :: "world pg_driver" where
  "world_db = \<lparr>pg_Exec = world_exec, q_event = \<lambda>i. world_read (world_event i),
     q_key = \<lambda>k. world_read (world_key k), q_status = \<lambda>st lim. world_read (world_status st lim)\<rparr>"

definition world_send :: "(world \<Rightarrow> world) \<Rightarrow> world \<Rightarrow> go_error option \<times> world" where
  "world_send g s = (case next_fault s of
      (Fine, s1) \<Rightarrow> (None, g s1)
    | (Refused x, s1) \<Rightarrow> (Some (ErrText x), s1)
    | (Unacked x, s1) \<Rightarrow> (Some (ErrText x), g s1))"

definition world_writer :: "world kafka_writer" where
  "world_writer = \<lparr>WriteMessages = \<lambda>m. world_send (\<lambda>s. s\<lparr>w_log := w_log s @ [m]\<rparr>), WriterClose = \<lambda>s. (None, s)\<rparr>"

definition world_conn :: "world ch_conn" where
  "world_conn = \<lparr>PrepareBatch = \<lambda>sql. world_send (\<lambda>s. s), Append = \<lambda>r. None,
     Send = \<lambda>rs. world_send (\<lambda>s. s\<lparr>w_rows := w_rows s @ rs\<rparr>),
     ch_Query = \<lambda>sql from until. world_read (\<lambda>s. Inr ([], None))\<rparr>"

lemmas world_defs = world_db_def world_writer_def world_conn_def world_exec_def world_read_def
  world_event_def world_key_def world_send_def next_fault_def new_world_def

lemma world_read_keeps:
  "w_tabs (snd (world_read q s)) = w_tabs s" "w_log (snd (world_read q s)) = w_log s"
  "w_rows (snd (world_read q s)) = w_rows s"
  by (auto simp: world_read_def split: prod.splits fault.splits dest: next_fault_keeps)

lemma world_read_Inr: "world_read q s = (Inr r, s') \<Longrightarrow> \<exists>s1. q s1 = Inr r \<and> w_tabs s1 = w_tabs s \<and> w_now s1 = w_now s"
  unfolding world_read_def by (auto split: prod.splits fault.splits) (metis next_fault_keeps(1,4))

lemma world_read_Inl:
  "world_read q s = (Inl x, s') \<Longrightarrow>
   (\<exists>t. x = ErrText t) \<or> (\<exists>s1. q s1 = Inl x \<and> w_tabs s1 = w_tabs s \<and> w_now s1 = w_now s)"
  unfolding world_read_def by (auto split: prod.splits fault.splits) (metis next_fault_keeps(1,4))

lemma world_uuid_idem:
  assumes "world_uuid i = Some c"
  shows "world_uuid c = Some c"
proof -
  have "c = i" using assms unfolding world_uuid_def by (simp only: option.inject option.distinct split: if_split_asm)
  with assms show ?thesis by simp
qed

lemma world_exec_ok:
  "world_exec q s = (Inr n, s') \<Longrightarrow> sql_exec world_uuid world_jsonb q (w_tabs s) = Some (n, w_tabs s')"
  unfolding world_exec_def
  by (auto simp del: sql_exec.simps split: prod.splits fault.splits option.splits dest: next_fault_keeps)

lemma world_exec_err:
  "world_exec q s = (Inl x, s') \<Longrightarrow> \<not> errors_Is x ErrNotFound \<and>
    (w_tabs s' = w_tabs s \<or> (\<exists>n. sql_exec world_uuid world_jsonb q (w_tabs s) = Some (n, w_tabs s')))"
  unfolding world_exec_def
  by (auto simp del: sql_exec.simps split: prod.splits fault.splits option.splits dest: next_fault_keeps)

lemma world_exec_frame: "(w_log (snd (world_exec q s)), w_rows (snd (world_exec q s))) = (w_log s, w_rows s)"
  unfolding world_exec_def
  by (auto simp del: sql_exec.simps split: prod.splits fault.splits option.splits dest: next_fault_keeps)

lemma world_send_cases:
  assumes "world_send g s = (r, s')"
  obtains s1 where "w_tabs s1 = w_tabs s" "w_log s1 = w_log s" "w_rows s1 = w_rows s" "s' = g s1"
  | "r \<noteq> None" "w_tabs s' = w_tabs s" "w_log s' = w_log s" "w_rows s' = w_rows s"
  using assms unfolding world_send_def
  by (auto split: prod.splits fault.splits dest: next_fault_keeps)

lemma world_status_ok:
  assumes "world_read (world_status st lim) s = (Inr (rs, None), s')"
  shows "0 \<le> lim \<and> (\<exists>es. mset es = mset (filter (\<lambda>e. ev_Status e = st) (webhook_events (w_tabs s))) \<and>
        sorted (map ev_CreatedAt es) \<and> rs = map (\<lambda>e. Inr (columns_of e)) (take (nat lim) es))"
proof -
  let ?es = "sort_key ev_CreatedAt (filter (\<lambda>e. ev_Status e = st) (webhook_events (w_tabs s)))"
  have "0 \<le> lim \<and> rs = map (\<lambda>e. Inr (columns_of e)) (take (nat lim) ?es)"
    using world_read_Inr [OF assms] by (auto simp: world_status_def split: if_splits)
  then show ?thesis by (intro conjI exI [of _ ?es]) auto
qed

interpretation world: drivers world_db w_tabs w_now world_uuid world_jsonb world_writer w_log
  world_conn w_rows
proof unfold_locales
  fix i c q s n s' x row k krow st lim rs m sql rws
  show "world_uuid i = Some c \<Longrightarrow> world_uuid c = Some c" by (rule world_uuid_idem)
  show "pg_Exec world_db q s = (Inr n, s') \<Longrightarrow> sql_exec world_uuid world_jsonb q (w_tabs s) = Some (n, w_tabs s')"
    by (simp add: world_db_def world_exec_ok)
  show "pg_Exec world_db q s = (Inl x, s') \<Longrightarrow> \<not> errors_Is x ErrNotFound \<and>
    (w_tabs s' = w_tabs s \<or> (\<exists>n. sql_exec world_uuid world_jsonb q (w_tabs s) = Some (n, w_tabs s')))"
    by (simp add: world_db_def world_exec_err)
  show "q_event world_db i s = (Inr row, s') \<Longrightarrow>
      \<exists>i' e. world_uuid i = Some i' \<and> event_at (w_tabs s) i' = Some e \<and> row = columns_of e"
    by (auto simp: world_db_def world_event_def dest!: world_read_Inr split: option.splits)
  show "q_event world_db i s = (Inl x, s') \<Longrightarrow> \<not> errors_Is x ErrNotFound \<and>
      (errors_Is x ErrNoRows \<longrightarrow> (\<exists>i'. world_uuid i = Some i' \<and> event_at (w_tabs s) i' = None))"
    by (auto simp: world_db_def world_event_def dest!: world_read_Inl split: option.splits)
  show "q_key world_db k s = (Inr krow, s') \<Longrightarrow>
      \<exists>e. key_live (idempotency_keys (w_tabs s)) (w_now s) k = Some e \<and>
          krow = (en_EventID e, en_Response e, en_ExpiresAt e)"
    by (auto simp: world_db_def world_key_def dest!: world_read_Inr split: option.splits)
  show "q_key world_db k s = (Inl x, s') \<Longrightarrow> errors_Is x ErrNoRows \<Longrightarrow>
      key_live (idempotency_keys (w_tabs s)) (w_now s) k = None"
    by (auto simp: world_db_def world_key_def dest!: world_read_Inl split: option.splits)
  show "q_status world_db st lim s = (Inr (rs, None), s') \<Longrightarrow> list_all (\<lambda>r. \<not> isl r) rs \<Longrightarrow>
      0 \<le> lim \<and> (\<exists>es. mset es = mset (filter (\<lambda>e. ev_Status e = st) (webhook_events (w_tabs s))) \<and>
        sorted (map ev_CreatedAt es) \<and> rs = map (\<lambda>e. Inr (columns_of e)) (take (nat lim) es))"
    using world_status_ok [of st lim s rs s'] by (simp add: world_db_def)
  show "w_tabs (snd (q_event world_db i s)) = w_tabs s" "w_tabs (snd (q_key world_db k s)) = w_tabs s"
    "w_tabs (snd (q_status world_db st lim s)) = w_tabs s"
    by (simp_all add: world_db_def world_read_keeps)
  show "(w_log (snd (pg_Exec world_db q s)), w_rows (snd (pg_Exec world_db q s))) = (w_log s, w_rows s)"
    using world_exec_frame [of q s] by (simp add: world_db_def)
  show "(w_log (snd (q_event world_db i s)), w_rows (snd (q_event world_db i s))) = (w_log s, w_rows s)"
    "(w_log (snd (q_key world_db k s)), w_rows (snd (q_key world_db k s))) = (w_log s, w_rows s)"
    "(w_log (snd (q_status world_db st lim s)), w_rows (snd (q_status world_db st lim s))) = (w_log s, w_rows s)"
    by (simp_all add: world_db_def world_read_keeps)
  show "WriteMessages world_writer m s = (None, s') \<Longrightarrow> \<exists>n. w_log s' = w_log s @ replicate (Suc n) m"
    by (rule exI [of _ 0]) (auto simp: world_writer_def elim!: world_send_cases)
  show "WriteMessages world_writer m s = (Some x, s') \<Longrightarrow> \<exists>n. w_log s' = w_log s @ replicate n m"
    by (auto simp: world_writer_def intro: exI [of _ 0] exI [of _ "Suc 0"] elim!: world_send_cases)
  show "(w_tabs (snd (WriteMessages world_writer m s)), w_rows (snd (WriteMessages world_writer m s))) =
      (w_tabs s, w_rows s)"
    by (cases "WriteMessages world_writer m s") (auto simp: world_writer_def elim!: world_send_cases)
  show "w_rows (snd (PrepareBatch world_conn sql s)) = w_rows s"
    by (cases "PrepareBatch world_conn sql s") (auto simp: world_conn_def elim!: world_send_cases)
  show "Send world_conn rws s = (None, s') \<Longrightarrow> w_rows s' = w_rows s @ rws"
    by (auto simp: world_conn_def elim!: world_send_cases)
  show "Send world_conn rws s = (Some x, s') \<Longrightarrow> w_rows s' = w_rows s \<or> w_rows s' = w_rows s @ rws"
    by (auto simp: world_conn_def elim!: world_send_cases)
  show "(w_tabs (snd (PrepareBatch world_conn sql s)), w_log (snd (PrepareBatch world_conn sql s))) =
      (w_tabs s, w_log s)"
    by (cases "PrepareBatch world_conn sql s") (auto simp: world_conn_def elim!: world_send_cases)
  show "(w_tabs (snd (Send world_conn rws s)), w_log (snd (Send world_conn rws s))) = (w_tabs s, w_log s)"
    by (cases "Send world_conn rws s") (auto simp: world_conn_def elim!: world_send_cases)
qed

definition demo_id :: string where
  "demo_id = ''123e4567-e89b-12d3-a456-426614174000''"

lemma demo_canon: "pg_canon world_uuid demo_id = demo_id"
  by code_simp

definition demo_world :: "fault list \<Rightarrow> world" where
  "demo_world fs = new_world 1700000000123456789 fs"

text \<open>A world whose event table holds one event, \<open>demo_id\<close>, in the status given.\<close>

definition demo_event :: "string \<Rightarrow> event" where
  "demo_event st = \<lparr>ev_ID = demo_id, ev_IdempotencyKey = ''k1'', ev_Source = ''shopify'',
     ev_EventType = ''order.shipped'', ev_Payload = ''{}'', ev_Status = st, ev_RetryCount = 0,
     ev_CreatedAt = 1600000000000000000,
     ev_ProcessedAt = (if st = EventStatusProcessed then Some 1600000000000001000 else None)\<rparr>"

definition world_with :: "string \<Rightarrow> fault list \<Rightarrow> world" where
  "world_with st fs = (demo_world fs)\<lparr>w_tabs := \<lparr>webhook_events = [demo_event st], idempotency_keys = []\<rparr>\<rparr>"

text \<open>
  A reader over \<open>w_inbox\<close> whose context is cancelled once the inbox is empty.
\<close>

definition world_fetch :: "world \<Rightarrow> (go_error + kafka_message) \<times> world" where
  "world_fetch s = (case w_inbox s of
      [] \<Rightarrow> (Inl Canceled, s) | m # ms \<Rightarrow> (Inr m, s\<lparr>w_inbox := ms\<rparr>))"

definition world_reader :: "world kafka_reader" where
  "world_reader = \<lparr>ReaderFetch = world_fetch,
     ReaderCommit = \<lambda>ms. world_send (\<lambda>s. s\<lparr>w_committed := w_committed s @ ms\<rparr>),
     ReaderLag = \<lambda>s. int (length (w_inbox s)), ReaderClose = \<lambda>s. (None, s)\<rparr>"

definition world_ctx :: "world \<Rightarrow> go_error option" where
  "world_ctx s = (if w_inbox s = [] then Some Canceled else None)"

definition demo_message :: "int \<Rightarrow> kafka_message" where
  "demo_message n = outgoing id 1600000000000000000 ''events'' demo_id
     (projr (MarshalEventMessage \<lparr>msg_EventID = demo_id, msg_Attempt = n\<rparr>))"

text \<open>Nothing but the reader touches the inbox.\<close>

lemma world_inbox:
  "w_inbox (snd (pg_Exec world_db q s)) = w_inbox s" "w_inbox (snd (q_event world_db i s)) = w_inbox s"
  "w_inbox (snd (WriteMessages world_writer m s)) = w_inbox s"
  "w_inbox (snd (PrepareBatch world_conn sql s)) = w_inbox s"
  "w_inbox (snd (Send world_conn rs s)) = w_inbox s"
  "w_inbox (snd (ReaderCommit world_reader ms s)) = w_inbox s"
  by (auto simp: world_db_def world_exec_def world_read_def world_writer_def world_conn_def world_send_def
      world_reader_def simp del: sql_exec.simps split: prod.splits fault.splits option.splits
      dest: next_fault_keeps)

lemma world_commit_inbox:
  "w_inbox (snd (world_send (\<lambda>s. s\<lparr>w_committed := w_committed s @ ms\<rparr>) s)) = w_inbox s"
  by (auto simp: world_send_def split: prod.splits fault.splits dest: next_fault_keeps)

lemma world_inbox_eq:
  "pg_Exec world_db q s = (r, s') \<Longrightarrow> w_inbox s' = w_inbox s"
  "q_event world_db i s = (r2, s') \<Longrightarrow> w_inbox s' = w_inbox s"
  "WriteMessages world_writer m s = (r3, s') \<Longrightarrow> w_inbox s' = w_inbox s"
  "PrepareBatch world_conn sql s = (r3, s') \<Longrightarrow> w_inbox s' = w_inbox s"
  "Send world_conn rs s = (r3, s') \<Longrightarrow> w_inbox s' = w_inbox s"
  using world_inbox by (metis snd_conv)+

lemma world_ports_inbox:
  "w_inbox (snd (FindByID (NewEventRepository world_db now) i s)) = w_inbox s"
  "w_inbox (snd (UpdateStatus (NewEventRepository world_db now) i st s)) = w_inbox s"
  "w_inbox (snd (IncrementRetry (NewEventRepository world_db now) i s)) = w_inbox s"
  "w_inbox (snd (Publish (NewProducer world_writer inject now) topic k v s)) = w_inbox s"
  "w_inbox (snd (WriteEvent (NewEventWriter world_conn now) e s)) = w_inbox s"
  by (auto simp: pg_defs NewProducer_def producer_Publish_def NewEventWriter_def ch_WriteEvent_def Let_def
      split: prod.splits sum.splits option.splits dest!: world_inbox_eq)

end
