(* ===== verification/Process.thy ===== *)
theory Process
  imports Environment
begin

text \<open>
  \<open>internal/core/usecase/process_event.go\<close>: the use case behind the event consumer, and the life of an
  event's status it is responsible for. Log lines are left out.
\<close>

datatype ProcessAction = ProcessActionDone | ProcessActionRetry | ProcessActionDLQ

record ProcessEventResult =
  res_Action :: ProcessAction
  res_EventSource :: string

record 's ProcessEvent =
  pe_events :: "'s event_repository"
  pe_analytics :: "'s analytics_writer option"
  pe_maxRetries :: int

definition NewProcessEvent ::
  "'s event_repository \<Rightarrow> 's analytics_writer option \<Rightarrow> int \<Rightarrow> 's ProcessEvent" where
  "NewProcessEvent events an maxRetries =
     \<lparr>pe_events = events, pe_analytics = an, pe_maxRetries = maxRetries\<rparr>"

text \<open>A result and an error are both returned; the source is empty unless set.\<close>

type_synonym 's process_result = "(ProcessEventResult \<times> go_error option) \<times> 's"

definition handleFailure ::
  "'s ProcessEvent \<Rightarrow> EventMessage \<Rightarrow> go_error \<Rightarrow> 's \<Rightarrow> 's process_result" where
  "handleFailure uc msg cause s =
     (case IncrementRetry (pe_events uc) (msg_EventID msg) s of (_, s1) \<Rightarrow>
        if msg_Attempt msg \<ge> pe_maxRetries uc
        then (case UpdateStatus (pe_events uc) (msg_EventID msg) EventStatusFailed s1 of (_, s2) \<Rightarrow>
               ((\<lparr>res_Action = ProcessActionDLQ, res_EventSource = []\<rparr>, Some cause), s2))
        else ((\<lparr>res_Action = ProcessActionRetry, res_EventSource = []\<rparr>, Some cause), s1))"

definition Process_Execute :: "'s ProcessEvent \<Rightarrow> EventMessage \<Rightarrow> 's \<Rightarrow> 's process_result" where
  "Process_Execute uc msg s =
     (case FindByID (pe_events uc) (msg_EventID msg) s of
        (Inl err, s1) \<Rightarrow>
          (if errors_Is err ErrNotFound
           then ((\<lparr>res_Action = ProcessActionDone, res_EventSource = []\<rparr>, None), s1)
           else handleFailure uc msg err s1)
      | (Inr event, s1) \<Rightarrow>
          (if ev_Status event = EventStatusProcessed \<or> ev_Status event = EventStatusFailed
           then ((\<lparr>res_Action = ProcessActionDone, res_EventSource = []\<rparr>, None), s1)
           else (case UpdateStatus (pe_events uc) (ev_ID event) EventStatusProcessing s1 of
               (Some err, s2) \<Rightarrow> handleFailure uc msg err s2
             | (None, s2) \<Rightarrow>
                 (let s3 = (case pe_analytics uc of
                       None \<Rightarrow> s2
                     | Some a \<Rightarrow> (case WriteEvent a event s2 of (_, s3) \<Rightarrow> s3))
                  in case UpdateStatus (pe_events uc) (ev_ID event) EventStatusProcessed s3 of (_, s4) \<Rightarrow>
                    ((\<lparr>res_Action = ProcessActionDone, res_EventSource = ev_Source event\<rparr>, None), s4)))))"

text \<open>
  The action and the error agree, so the consumer may dereference the error exactly where it does:
  no error means done; with an error the message is retried while its attempt is below \<open>maxRetries\<close>
  and goes to the dead letter queue from \<open>maxRetries\<close> on, whatever the stores do.
\<close>

theorem process_action_iff_error:
  "case fst (Process_Execute uc msg s) of (res, err) \<Rightarrow>
     (res_Action res = ProcessActionDone \<longleftrightarrow> err = None) \<and>
     (res_Action res = ProcessActionRetry \<longleftrightarrow> err \<noteq> None \<and> msg_Attempt msg < pe_maxRetries uc) \<and>
     (res_Action res = ProcessActionDLQ \<longleftrightarrow> err \<noteq> None \<and> pe_maxRetries uc \<le> msg_Attempt msg)"
  by (auto simp: Process_Execute_def handleFailure_def Let_def split: prod.splits sum.splits option.splits)

section \<open>Over the platform\<close>

text \<open>The status an update leaves when it may or may not have been applied.\<close>

context platform
begin

lemma update_at:
  assumes "UpdateStatus repo i st s = (r, s')" "canon i = j"
  shows "rows s' = (rows s)(j := rows s' j) \<and>
    (rows s' j = rows s j \<or> (\<exists>e t. rows s j = Some e \<and> rows s' j = Some (with_status st t e))) \<and>
    sent s' = sent s \<and> written s' = written s \<and> entries s' = entries s"
  using repo.update_rows [of i st s] untouched(7-9) [of i st s] assms by (auto simp: fun_upd_idem)

lemma update_at_ok:
  assumes "UpdateStatus repo i st s = (None, s')" "canon i = j"
  shows "\<exists>e t. rows s j = Some e \<and> rows s' j = Some (with_status st t e)"
  using repo.update_ok [OF assms(1)] assms(2) by auto

lemma incr_at:
  assumes "IncrementRetry repo i s = (r, s')" "canon i = j"
  shows "rows s' = (rows s)(j := rows s' j) \<and>
    (rows s' j = rows s j \<or> (\<exists>e. rows s j = Some e \<and> rows s' j = Some (with_retry e))) \<and>
    sent s' = sent s \<and> written s' = written s \<and> entries s' = entries s"
  using repo.incr_rows [of i s] untouched(10-12) [of i s] assms by (auto simp: fun_upd_idem)

lemma find_at:
  assumes "FindByID repo i s = (r, s')"
  shows "rows s' = rows s \<and> sent s' = sent s \<and> written s' = written s \<and> entries s' = entries s"
  using repo.find_rows [of i s] untouched(4-6) [of i s] assms by auto

text \<open>What \<open>handleFailure\<close> does to the event's row.\<close>

lemma handleFailure_at:
  assumes "handleFailure (NewProcessEvent repo a maxR) msg cause s = ((res, err), s')"
    and j: "canon (msg_EventID msg) = j"
  shows "err = Some cause \<and> sent s' = sent s \<and> written s' = written s \<and> entries s' = entries s \<and>
    rows s' = (rows s)(j := rows s' j) \<and> (rows s j = None \<longleftrightarrow> rows s' j = None) \<and>
    (\<forall>e e'. rows s j = Some e \<longrightarrow> rows s' j = Some e' \<longrightarrow>
       (ev_Status e' = ev_Status e \<or> maxR \<le> msg_Attempt msg \<and> ev_Status e' = EventStatusFailed) \<and>
       ev_RetryCount e' \<in> {ev_RetryCount e, ev_RetryCount e + 1})"
proof -
  obtain r1 s1 where i: "IncrementRetry repo (msg_EventID msg) s = (r1, s1)" by force
  note I = incr_at [OF i j]
  show ?thesis
  proof (cases "maxR \<le> msg_Attempt msg")
    case True
    obtain r2 s2 where u: "UpdateStatus repo (msg_EventID msg) EventStatusFailed s1 = (r2, s2)" by force
    note U = update_at [OF u j]
    from assms(1) True i u have "s' = s2" "err = Some cause"
      by (auto simp: handleFailure_def NewProcessEvent_def)
    moreover have "rows s2 = (rows s)(j := rows s2 j)" using I U by (metis fun_upd_upd)
    moreover have "rows s j = None \<longleftrightarrow> rows s2 j = None" using I U by (metis option.distinct(1))
    moreover have "(ev_Status e' = ev_Status e \<or> ev_Status e' = EventStatusFailed) \<and>
        ev_RetryCount e' \<in> {ev_RetryCount e, ev_RetryCount e + 1}"
      if "rows s j = Some e" "rows s2 j = Some e'" for e e'
      using I [THEN conjunct2, THEN conjunct1] U [THEN conjunct2, THEN conjunct1] that
      by (elim disjE) (auto simp del: status_defs)
    ultimately show ?thesis using I U True by (simp del: status_defs)
  next
    case False
    from assms(1) False i have "s' = s1" "err = Some cause"
      by (auto simp: handleFailure_def NewProcessEvent_def)
    with I False show ?thesis by auto
  qed
qed

lemma write_at:
  assumes "WriteEvent writer e s = (r, s')"
  shows "rows s' = rows s \<and> sent s' = sent s \<and> entries s' = entries s \<and>
    (written s' = written s \<or> (\<exists>x. written s' = written s @ [x] \<and> row_of_event e x))"
  using untouched(16-18) [of e s] writer.write_written [of e s] assms by auto

text \<open>A message that ends without an error: it was none of the consumer's business, or the event went through.\<close>

lemma Execute_done:
  assumes ex: "Process_Execute (NewProcessEvent repo (Some writer) maxR) msg s = ((res, None), s')"
    and j: "canon (msg_EventID msg) = j"
  shows "sent s' = sent s \<and> entries s' = entries s \<and>
    (res_EventSource res = [] \<and> rows s' = rows s \<and> written s' = written s \<and>
       (\<forall>e. rows s j = Some e \<longrightarrow> terminal (ev_Status e)) \<or>
     (\<exists>e e'. rows s j = Some e \<and> \<not> terminal (ev_Status e) \<and> res_EventSource res = ev_Source e \<and>
       rows s' = (rows s)(j \<mapsto> e') \<and> ev_Status e' \<in> {EventStatusProcessing, EventStatusProcessed} \<and>
       ev_RetryCount e' = ev_RetryCount e \<and>
       (written s' = written s \<or> (\<exists>x. written s' = written s @ [x] \<and> row_of_event e x))))"
proof -
  obtain f s1 where f: "FindByID repo (msg_EventID msg) s = (f, s1)" by force
  note F = find_at [OF f]
  show ?thesis
  proof (cases f)
    case (Inl x)
    with ex f have "errors_Is x ErrNotFound" "res_EventSource res = []" "s' = s1"
      by (auto simp: Process_Execute_def NewProcessEvent_def handleFailure_def split: if_splits prod.splits)
    with F repo.find_err [OF f [unfolded Inl]] j show ?thesis by auto
  next
    case (Inr e)
    have e: "rows s j = Some e" "ev_ID e = j" "canon (ev_ID e) = j"
      using repo.find_ok [OF f [unfolded Inr]] repo.rows_id repo.canon_idem j by auto
    show ?thesis
    proof (cases "terminal (ev_Status e)")
      case True
      with ex f Inr have "res_EventSource res = []" "s' = s1"
        by (auto simp: Process_Execute_def NewProcessEvent_def terminal_def)
      with F e True show ?thesis by auto
    next
      case False
      obtain r2 s2 where u: "UpdateStatus repo (ev_ID e) EventStatusProcessing s1 = (r2, s2)" by force
      obtain r3 s3 where wr: "WriteEvent writer e s2 = (r3, s3)" by force
      obtain r4 s4 where v: "UpdateStatus repo (ev_ID e) EventStatusProcessed s3 = (r4, s4)" by force
      from ex f Inr False u wr v have "r2 = None" "res_EventSource res = ev_Source e" "s' = s4"
        by (auto simp: Process_Execute_def NewProcessEvent_def handleFailure_def terminal_def
            split: option.splits prod.splits if_splits)
      note U = update_at [OF u e(3)] update_at_ok [OF u [unfolded \<open>r2 = None\<close>] e(3)]
      note W = write_at [OF wr]
      note V = update_at [OF v e(3)]
      obtain t where t: "rows s2 j = Some (with_status EventStatusProcessing t e)" using U F e by auto
      obtain e' where e': "rows s4 j = Some e'" "ev_Status e' \<in> {EventStatusProcessing, EventStatusProcessed}"
        "ev_RetryCount e' = ev_RetryCount e"
        using V W t by auto
      have "rows s4 = (rows s)(j \<mapsto> e')"
        using U(1) V W F e'(1) by (metis fun_upd_upd)
      with e' e False U(1) V W F \<open>s' = s4\<close> \<open>res_EventSource res = ev_Source e\<close> show ?thesis by auto
    qed
  qed
qed

text \<open>A message that ends with an error.\<close>

lemma Execute_failed:
  assumes ex: "Process_Execute (NewProcessEvent repo (Some writer) maxR) msg s = ((res, Some err), s')"
    and j: "canon (msg_EventID msg) = j"
  shows "sent s' = sent s \<and> entries s' = entries s \<and> written s' = written s \<and>
    rows s' = (rows s)(j := rows s' j) \<and> (rows s j = None \<longleftrightarrow> rows s' j = None) \<and>
    (\<forall>e e'. rows s j = Some e \<longrightarrow> rows s' j = Some e' \<longrightarrow>
       (ev_Status e' = ev_Status e \<or> ev_Status e' = EventStatusProcessing \<and> \<not> terminal (ev_Status e) \<or>
        ev_Status e' = EventStatusFailed \<and> maxR \<le> msg_Attempt msg) \<and>
       ev_RetryCount e' \<in> {ev_RetryCount e, ev_RetryCount e + 1}) \<and>
    ((\<exists>x. FindByID repo (msg_EventID msg) s = (Inl x, snd (FindByID repo (msg_EventID msg) s))) \<or>
     (\<exists>e. rows s j = Some e \<and> \<not> terminal (ev_Status e)))"
proof -
  obtain f s1 where f: "FindByID repo (msg_EventID msg) s = (f, s1)" by force
  note F = find_at [OF f]
  show ?thesis
  proof (cases f)
    case (Inl x)
    with ex f have h: "handleFailure (NewProcessEvent repo (Some writer) maxR) msg x s1 = ((res, Some err), s')"
      by (auto simp: Process_Execute_def NewProcessEvent_def split: if_splits)
    show ?thesis using handleFailure_at [OF h j] F f Inl by auto
  next
    case (Inr e)
    have e: "rows s j = Some e" "ev_ID e = j" "canon (ev_ID e) = j"
      using repo.find_ok [OF f [unfolded Inr]] repo.rows_id repo.canon_idem j by auto
    from ex f Inr have "\<not> terminal (ev_Status e)"
      by (auto simp: Process_Execute_def NewProcessEvent_def terminal_def)
    obtain r2 s2 where u: "UpdateStatus repo (ev_ID e) EventStatusProcessing s1 = (r2, s2)" by force
    with ex f Inr \<open>\<not> terminal (ev_Status e)\<close> obtain y where
      h: "handleFailure (NewProcessEvent repo (Some writer) maxR) msg y s2 = ((res, Some err), s')"
      by (auto simp: Process_Execute_def NewProcessEvent_def terminal_def Let_def
          split: option.splits prod.splits)
    note U = update_at [OF u e(3)]
    note H = handleFailure_at [OF h j]
    obtain e2 where e2: "rows s2 j = Some e2" "ev_Status e2 = ev_Status e \<or> ev_Status e2 = EventStatusProcessing"
      "ev_RetryCount e2 = ev_RetryCount e"
      using U F e by auto
    have "rows s' = (rows s)(j := rows s' j)" using U H F by (metis fun_upd_upd)
    then show ?thesis using U H F e e2 \<open>\<not> terminal (ev_Status e)\<close> by (auto simp del: status_defs)
  qed
qed

end

section \<open>Properties of the stack\<close>

text \<open>The use case as \<open>RunWorker\<close> builds it: over the PostgreSQL repository and the ClickHouse writer.\<close>

definition worker_process ::
  "'s pg_driver \<Rightarrow> 's ch_conn \<Rightarrow> ('s \<Rightarrow> time) \<Rightarrow> int \<Rightarrow> 's ProcessEvent" where
  "worker_process db conn now maxR =
     NewProcessEvent (NewEventRepository db now) (Some (NewEventWriter conn now)) maxR"

text \<open>
  C12: a message that ends without an error. Either it was for an event that is absent or in a terminal
  state, and then nothing changes; or the event was there and not terminal, the result carries its
  source, only its row changes, to processed or (when the last update failed) processing, with the
  same retry count, and the analytics log gains nothing or one row for it. That row is written with
  the status the event had before: never processed. Nothing is published and no key touched.
\<close>

theorem process_done:
  assumes "drivers db tabs pgnow uuid jsonb w log conn logged"
    and "Process_Execute (worker_process db conn now maxR) msg s = ((res, None), s')"
    and "pg_canon uuid (msg_EventID msg) = j"
  shows "map message_key (log s') = map message_key (log s) \<and>
    map_of (idempotency_keys (tabs s')) = map_of (idempotency_keys (tabs s)) \<and>
    (res_EventSource res = [] \<and> event_at (tabs s') = event_at (tabs s) \<and> logged s' = logged s \<and>
       (case event_at (tabs s) j of None \<Rightarrow> True | Some e \<Rightarrow> terminal (ev_Status e)) \<or>
     (\<exists>e e'. event_at (tabs s) j = Some e \<and> \<not> terminal (ev_Status e) \<and>
       res_EventSource res = ev_Source e \<and> event_at (tabs s') = (event_at (tabs s))(j \<mapsto> e') \<and>
       ev_Status e' \<in> {EventStatusProcessing, EventStatusProcessed} \<and>
       ev_RetryCount e' = ev_RetryCount e \<and>
       (logged s' = logged s \<or>
        (\<exists>r. logged s' = logged s @ [r] \<and> row_of_event e r \<and> lr_status r \<noteq> EventStatusProcessed))))"
  using platform.Execute_done [OF drivers.is_platform [OF assms(1)] assms(2) [unfolded worker_process_def] assms(3)]
  by (auto simp: row_of_event_def terminal_def split: option.splits)

abbreviation demo_process :: "int \<Rightarrow> string \<Rightarrow> fault list \<Rightarrow> world process_result" where
  "demo_process attempt st fs \<equiv> Process_Execute (worker_process world_db world_conn w_now 3)
     \<lparr>msg_EventID = demo_id, msg_Attempt = attempt\<rparr> (world_with st fs)"

theorem process_done_witness:
  "\<exists>e'. event_at (w_tabs (snd (demo_process 1 ''pending'' []))) demo_id = Some e' \<and>
     ev_Status e' \<in> {EventStatusProcessing, EventStatusProcessed}"
proof -
  have ex: "demo_process 1 ''pending'' [] =
      ((\<lparr>res_Action = ProcessActionDone, res_EventSource = ''shopify''\<rparr>, None), snd (demo_process 1 ''pending'' []))"
    by (rule prod_eqI) (simp only: fst_conv, code_simp, simp)
  have j: "pg_canon world_uuid (msg_EventID \<lparr>msg_EventID = demo_id, msg_Attempt = 1\<rparr>) = demo_id"
    by (simp add: demo_canon)
  show ?thesis using process_done [OF world.drivers_axioms ex j] by auto
qed

text \<open>
  C19: a message that ends with an error. Nothing is published, logged or stored under a key; only the
  event's row may change, it neither appears nor disappears, its retry count grows by one at most, and
  its status stays, or becomes processing if it was not terminal, or failed if the attempt has
  reached \<open>maxRetries\<close>.
\<close>

theorem process_failed:
  assumes "drivers db tabs pgnow uuid jsonb w log conn logged"
    and "Process_Execute (worker_process db conn now maxR) msg s = ((res, Some err), s')"
    and "pg_canon uuid (msg_EventID msg) = j"
  shows "map message_key (log s') = map message_key (log s) \<and> logged s' = logged s \<and>
    map_of (idempotency_keys (tabs s')) = map_of (idempotency_keys (tabs s)) \<and>
    event_at (tabs s') = (event_at (tabs s))(j := event_at (tabs s') j) \<and>
    (case (event_at (tabs s) j, event_at (tabs s') j) of
       (None, None) \<Rightarrow> True
     | (Some e, Some e') \<Rightarrow>
         (ev_Status e' = ev_Status e \<or> ev_Status e' = EventStatusProcessing \<and> \<not> terminal (ev_Status e) \<or>
          ev_Status e' = EventStatusFailed \<and> maxR \<le> msg_Attempt msg) \<and>
         ev_RetryCount e \<le> ev_RetryCount e' \<and> ev_RetryCount e' \<le> ev_RetryCount e + 1
     | _ \<Rightarrow> False)"
  using platform.Execute_failed [OF drivers.is_platform [OF assms(1)] assms(2) [unfolded worker_process_def] assms(3)]
  by (auto simp del: status_defs split: option.splits)

theorem process_failed_witness:
  "w_rows (snd (demo_process 3 ''pending'' [Fine, Refused ''db''])) = w_rows (world_with ''pending'' [Fine, Refused ''db''])"
proof -
  let ?p = "demo_process 3 ''pending'' [Fine, Refused ''db'']"
  have ex: "?p = ((\<lparr>res_Action = ProcessActionDLQ, res_EventSource = []\<rparr>,
      Some (Wrap ''update event status: '' (ErrText ''db''))), snd ?p)"
    by (rule prod_eqI) (simp only: fst_conv, code_simp, simp)
  have j: "pg_canon world_uuid (msg_EventID \<lparr>msg_EventID = demo_id, msg_Attempt = 3\<rparr>) = demo_id"
    by (simp add: demo_canon)
  show ?thesis using process_failed [OF world.drivers_axioms ex j] by simp
qed

text \<open>
  A read error at the last attempt can undo a finished event. When \<open>FindByID\<close> fails (with anything
  but \<open>ErrNotFound\<close>) on a message whose attempt has reached \<open>maxRetries\<close>, and the update to failed
  goes through, the event is left failed whatever its status was, processed included, although its
  analytics row is there already; the terminal states are not final.
\<close>

theorem process_read_error_fails_event:
  assumes "drivers db tabs pgnow uuid jsonb w log conn logged"
    and "uc = worker_process db conn now maxR"
    and "FindByID (pe_events uc) (msg_EventID msg) s = (Inl x, s1)" "\<not> errors_Is x ErrNotFound"
    and "maxR \<le> msg_Attempt msg"
    and "IncrementRetry (pe_events uc) (msg_EventID msg) s1 = (r, s2)"
    and "UpdateStatus (pe_events uc) (msg_EventID msg) EventStatusFailed s2 = (None, s3)"
  shows "Process_Execute uc msg s = ((\<lparr>res_Action = ProcessActionDLQ, res_EventSource = []\<rparr>, Some x), s3) \<and>
    (\<exists>e. event_at (tabs s3) (pg_canon uuid (msg_EventID msg)) = Some e \<and> ev_Status e = EventStatusFailed)"
proof -
  have "Process_Execute uc msg s = ((\<lparr>res_Action = ProcessActionDLQ, res_EventSource = []\<rparr>, Some x), s3)"
    using assms(2-7)
    by (simp add: Process_Execute_def handleFailure_def worker_process_def NewProcessEvent_def del: status_defs)
  moreover have "UpdateStatus (NewEventRepository db now) (msg_EventID msg) EventStatusFailed s2 = (None, s3)"
    using assms(2,7) by (simp add: worker_process_def NewProcessEvent_def del: status_defs)
  note platform.update_at_ok [OF drivers.is_platform [OF assms(1)] this refl]
  ultimately show ?thesis by fastforce
qed

theorem process_read_error_fails_event_witness:
  "\<exists>e. event_at (w_tabs (snd (demo_process 3 ''processed'' [Refused ''db'']))) demo_id = Some e \<and>
     ev_Status e = EventStatusFailed"
proof -
  let ?uc = "worker_process world_db world_conn w_now 3"
  let ?s = "world_with ''processed'' [Refused ''db'']"
  let ?m = "\<lparr>msg_EventID = demo_id, msg_Attempt = 3\<rparr>"
  let ?f = "FindByID (pe_events ?uc) (msg_EventID ?m) ?s"
  let ?i = "IncrementRetry (pe_events ?uc) (msg_EventID ?m) (snd ?f)"
  let ?u = "UpdateStatus (pe_events ?uc) (msg_EventID ?m) EventStatusFailed (snd ?i)"
  have f: "?f = (Inl (Wrap ''find event by id: '' (ErrText ''db'')), snd ?f)"
    by (rule prod_eqI) (simp only: fst_conv, code_simp, simp)
  have i: "?i = (fst ?i, snd ?i)" by simp
  have u: "?u = (None, snd ?u)" by (rule prod_eqI) (simp only: fst_conv, code_simp, simp)
  show ?thesis
    using process_read_error_fails_event [OF world.drivers_axioms refl f _ _ i u] by (simp add: demo_canon)
qed

end
