(* ===== verification/Ingest.thy ===== *)
theory Ingest
  imports Environment
begin

text \<open>
  \<open>internal/core/usecase/ingest_event.go\<close>: the use case behind the webhook endpoint. The fresh id
  (\<open>uuid.NewString\<close>) and the time are arguments; a publisher of \<open>None\<close> is the nil interface value. Log
  lines are left out.
\<close>

record IngestEventInput =
  in_IdempotencyKey :: string
  in_Source :: string
  in_EventType :: string
  in_Payload :: string

record IngestEventOutput =
  out_EventID :: string

record 's IngestEvent =
  ing_events :: "'s event_repository"
  ing_publisher :: "'s publisher option"
  ing_topic :: string

definition NewIngestEvent :: "'s event_repository \<Rightarrow> 's publisher option \<Rightarrow> string \<Rightarrow> 's IngestEvent" where
  "NewIngestEvent events publisher topic =
     \<lparr>ing_events = events, ing_publisher = publisher, ing_topic = topic\<rparr>"

definition new_event :: "string \<Rightarrow> time \<Rightarrow> IngestEventInput \<Rightarrow> event" where
  "new_event newid now inp =
     \<lparr>ev_ID = newid, ev_IdempotencyKey = in_IdempotencyKey inp, ev_Source = in_Source inp,
      ev_EventType = in_EventType inp, ev_Payload = in_Payload inp, ev_Status = EventStatusPending,
      ev_RetryCount = 0, ev_CreatedAt = now, ev_ProcessedAt = None\<rparr>"

definition Ingest_Execute ::
  "'s IngestEvent \<Rightarrow> string \<Rightarrow> time \<Rightarrow> IngestEventInput \<Rightarrow> 's \<Rightarrow> (go_error + IngestEventOutput) \<times> 's" where
  "Ingest_Execute uc newid now inp s =
     (let event = new_event newid now inp
      in case Insert (ing_events uc) event s of
           (Some err, s1) \<Rightarrow> (Inl (Wrap ''insert event: '' err), s1)
         | (None, s1) \<Rightarrow>
             (let s2 = (case ing_publisher uc of
                   None \<Rightarrow> s1
                 | Some p \<Rightarrow>
                     (let msg = \<lparr>msg_EventID = ev_ID event, msg_Attempt = 1\<rparr>
                      in case MarshalEventMessage msg of
                           Inl _ \<Rightarrow> s1
                         | Inr v \<Rightarrow> (case Publish p (ing_topic uc) (ev_ID event) v s1 of (_, s2) \<Rightarrow> s2)))
              in (Inr \<lparr>out_EventID = ev_ID event\<rparr>, s2)))"

text \<open>The message of an event and an attempt: key and value on a topic.\<close>

definition event_message :: "string \<Rightarrow> string \<Rightarrow> int \<Rightarrow> string \<times> string \<times> string" where
  "event_message topic i n =
     (topic, i, projr (MarshalEventMessage \<lparr>msg_EventID = i, msg_Attempt = n\<rparr>))"

context platform
begin

lemma Ingest_ok:
  assumes "Ingest_Execute (NewIngestEvent repo (Some pub) topic) newid now inp s = (Inr out, s')"
  shows "out_EventID out = newid \<and> rows s (canon newid) = None \<and>
    rows s' = (rows s)(canon newid \<mapsto> stored (new_event newid now inp)) \<and>
    (\<exists>n. sent s' = sent s @ replicate n (event_message topic newid 1)) \<and>
    written s' = written s \<and> entries s' = entries s"
proof -
  let ?e = "new_event newid now inp"
  let ?v = "snd (snd (event_message topic newid 1))"
  obtain s1 where i: "Insert repo ?e s = (None, s1)"
    and out: "out = \<lparr>out_EventID = newid\<rparr>" and s': "s' = snd (Publish pub topic newid ?v s1)"
    using assms
    by (auto simp: Ingest_Execute_def NewIngestEvent_def Let_def MarshalEventMessage_def new_event_def
        event_message_def split: prod.splits option.splits)
  have "rows s1 = (rows s)(canon newid \<mapsto> stored ?e)" "rows s (canon newid) = None"
    using repo.insert_ok [OF i] by (simp_all add: new_event_def)
  moreover have "sent s1 = sent s" "written s1 = written s" "entries s1 = entries s"
    using untouched(1-3) [of ?e s] i by simp_all
  ultimately show ?thesis
    using pub.publish_sent [of topic newid ?v s1] out s' by (simp add: event_message_def)
qed

lemma Ingest_err:
  assumes "Ingest_Execute (NewIngestEvent repo p topic) newid now inp s = (Inl err, s')"
  shows "(\<exists>x. err = Wrap ''insert event: '' x) \<and> sent s' = sent s \<and> written s' = written s \<and>
    entries s' = entries s \<and>
    (rows s' = rows s \<or> rows s (canon newid) = None \<and>
      rows s' = (rows s)(canon newid \<mapsto> stored (new_event newid now inp)))"
proof -
  let ?e = "new_event newid now inp"
  obtain x where i: "Insert repo ?e s = (Some x, s')" and "err = Wrap ''insert event: '' x"
    using assms
    by (auto simp: Ingest_Execute_def NewIngestEvent_def Let_def split: prod.splits option.splits)
  moreover have "sent s' = sent s" "written s' = written s" "entries s' = entries s"
    using untouched(1-3) [of ?e s] i by simp_all
  ultimately show ?thesis using repo.insert_err [OF i] by (auto simp: new_event_def)
qed

end

section \<open>Properties of the stack\<close>

text \<open>
  The use case as \<open>RunServer\<close> builds it: over the PostgreSQL repository and the Kafka producer.
\<close>

definition server_ingest ::
  "'s pg_driver \<Rightarrow> 's kafka_writer \<Rightarrow> (HeaderCarrier \<Rightarrow> HeaderCarrier) \<Rightarrow> ('s \<Rightarrow> time) \<Rightarrow> string \<Rightarrow> 's IngestEvent" where
  "server_ingest db w inject now topic =
     NewIngestEvent (NewEventRepository db now) (Some (NewProducer w inject now)) topic"

text \<open>
  An accepted event is stored, and at most its own message queued. When \<open>Execute\<close> returns an
  output, its id is the fresh id, no row had that id before, the row now there is the input's event
  with status pending, retry count 0 and no processing time, no other row has changed, the log has
  grown by copies of the message (id, attempt 1) on the topic, keyed by the id, and by nothing else,
  and the idempotency keys and the analytics log are as they were.
\<close>

theorem ingest_accepts:
  assumes "drivers db tabs pgnow uuid jsonb w log conn logged"
    and "Ingest_Execute (server_ingest db w inject now topic) newid t inp s = (Inr out, s')"
  shows "out_EventID out = newid \<and>
    event_at (tabs s) (pg_canon uuid newid) = None \<and>
    event_at (tabs s') = (event_at (tabs s))(pg_canon uuid newid \<mapsto> pg_stored uuid jsonb (new_event newid t inp)) \<and>
    (\<exists>n. map message_key (log s') = map message_key (log s) @ replicate n (event_message topic newid 1)) \<and>
    map_of (idempotency_keys (tabs s')) = map_of (idempotency_keys (tabs s)) \<and> logged s' = logged s"
  using platform.Ingest_ok [OF drivers.is_platform [OF assms(1)] assms(2) [unfolded server_ingest_def]]
  by simp

definition demo_input :: IngestEventInput where
  "demo_input = \<lparr>in_IdempotencyKey = ''k1'', in_Source = ''shopify'', in_EventType = ''order.shipped'',
     in_Payload = ''{\"order\":1}''\<rparr>"

abbreviation demo_ingest :: "fault list \<Rightarrow> (go_error + IngestEventOutput) \<times> world" where
  "demo_ingest fs \<equiv> Ingest_Execute (server_ingest world_db world_writer id w_now ''events'') demo_id
     1700000000123456789 demo_input (demo_world fs)"

theorem ingest_accepts_witness:
  "event_at (w_tabs (snd (demo_ingest []))) demo_id =
     Some (pg_stored world_uuid world_jsonb (new_event demo_id 1700000000123456789 demo_input)) \<and>
   w_rows (snd (demo_ingest [])) = []"
proof -
  have "demo_ingest [] = (Inr \<lparr>out_EventID = demo_id\<rparr>, snd (demo_ingest []))"
    by (rule prod_eqI) (simp only: fst_conv, code_simp, simp)
  note P = ingest_accepts [OF world.drivers_axioms this]
  have "pg_canon world_uuid demo_id = demo_id" by code_simp
  moreover have "w_rows (demo_world []) = []" by code_simp
  ultimately show ?thesis using P by simp
qed

text \<open>
  A refused event is not queued. When \<open>Execute\<close> returns an error, it is the insert's error in the
  use case's wrapping, no message has been published, the idempotency keys and the analytics log are
  as they were, and the event table is too, unless the insert took effect and its acknowledgement was
  lost: then the pending event is there.
\<close>

theorem ingest_refuses:
  assumes "drivers db tabs pgnow uuid jsonb w log conn logged"
    and "Ingest_Execute (server_ingest db w inject now topic) newid t inp s = (Inl err, s')"
  shows "(\<exists>x. err = Wrap ''insert event: '' x) \<and>
    map message_key (log s') = map message_key (log s) \<and>
    map_of (idempotency_keys (tabs s')) = map_of (idempotency_keys (tabs s)) \<and> logged s' = logged s \<and>
    (event_at (tabs s') = event_at (tabs s) \<or>
     event_at (tabs s) (pg_canon uuid newid) = None \<and>
     event_at (tabs s') =
       (event_at (tabs s))(pg_canon uuid newid \<mapsto> pg_stored uuid jsonb (new_event newid t inp)))"
  using platform.Ingest_err [OF drivers.is_platform [OF assms(1)] assms(2) [unfolded server_ingest_def]]
  by blast

theorem ingest_refuses_witness:
  "w_log (snd (demo_ingest [Unacked ''lost''])) = []"
proof -
  let ?e = "Wrap ''insert event: '' (Wrap ''insert event: '' (ErrText ''lost''))"
  have "demo_ingest [Unacked ''lost''] = (Inl ?e, snd (demo_ingest [Unacked ''lost'']))"
    by (rule prod_eqI) (simp only: fst_conv, code_simp, simp)
  note P = ingest_refuses [OF world.drivers_axioms this]
  have "w_log (demo_world [Unacked ''lost'']) = []" by code_simp
  with P show ?thesis by simp
qed

text \<open>
  A failed publish does not fail the request. When the insert succeeds and the producer reports an
  error, \<open>Execute\<close> still returns the output, in the state the failed call left: where the broker did
  not get the message, the event is accepted, stays pending, and nothing refers to it.
\<close>

theorem ingest_ignores_publish_error:
  assumes "Insert (ing_events uc) (new_event newid t inp) s = (None, s1)"
    and "ing_publisher uc = Some p"
    and "event_message (ing_topic uc) newid 1 = (topic, key, v)"
    and "Publish p topic key v s1 = (Some x, s2)"
  shows "Ingest_Execute uc newid t inp s = (Inr \<lparr>out_EventID = newid\<rparr>, s2)"
  using assms
  by (auto simp: Ingest_Execute_def MarshalEventMessage_def event_message_def new_event_def Let_def)

theorem ingest_ignores_publish_error_witness:
  "fst (demo_ingest [Fine, Refused ''broker down'']) = Inr \<lparr>out_EventID = demo_id\<rparr> \<and>
   w_log (snd (demo_ingest [Fine, Refused ''broker down''])) = []"
proof -
  let ?uc = "server_ingest world_db world_writer id w_now ''events''"
  let ?s = "demo_world [Fine, Refused ''broker down'']"
  let ?m = "event_message ''events'' demo_id 1"
  let ?i = "Insert (ing_events ?uc) (new_event demo_id 1700000000123456789 demo_input) ?s"
  let ?p = "Publish (NewProducer world_writer id w_now) ''events'' demo_id (snd (snd ?m)) (snd ?i)"
  have i: "?i = (None, snd ?i)" by (rule prod_eqI) (simp only: fst_conv, code_simp, simp)
  have p: "?p = (Some (Wrap ''kafka publish to events: '' (ErrText ''broker down'')), snd ?p)"
    by (rule prod_eqI) (simp only: fst_conv, code_simp, simp)
  have "demo_ingest [Fine, Refused ''broker down''] = (Inr \<lparr>out_EventID = demo_id\<rparr>, snd ?p)"
    by (rule ingest_ignores_publish_error [OF i _ _ p])
      (simp_all add: server_ingest_def NewIngestEvent_def event_message_def)
  moreover have "w_log (snd ?p) = []" by code_simp
  ultimately show ?thesis by simp
qed

end
