(* ===== verification/Processor.thy ===== *)
theory Processor
  imports Process Ingest Metrics
begin

text \<open>
  \<open>internal/app/processor\<close>: the consumer of the events topic and the consumer of the dead letter topic.
  Their loops run until the context is cancelled, so they are partial functions: \<open>None\<close> is a loop that
  never ends. The context and the clock are read from the state: \<open>ctx_err\<close> is \<open>ctx.Err()\<close>, \<open>sleep\<close>
  what waiting does to the state. Log lines and spans are left out, except that dereferencing a nil
  error is a panic.
\<close>

section \<open>processor.go\<close>

record Topics =
  tp_Events :: string
  tp_DLQ :: string

record 's Processor =
  pr_consumer :: "'s kafka_reader"
  pr_producer :: "'s publisher"
  pr_processEvent :: "'s ProcessEvent"
  pr_topics :: Topics

definition NewProcessor ::
  "'s kafka_reader \<Rightarrow> 's publisher \<Rightarrow> 's ProcessEvent \<Rightarrow> Topics \<Rightarrow> 's Processor" where
  "NewProcessor consumer producer pe topics =
     \<lparr>pr_consumer = consumer, pr_producer = producer, pr_processEvent = pe, pr_topics = topics\<rparr>"

definition publishRetry :: "'s Processor \<Rightarrow> EventMessage \<Rightarrow> 's \<Rightarrow> 's" where
  "publishRetry p msg s =
     (let retryMsg = \<lparr>msg_EventID = msg_EventID msg, msg_Attempt = wrap64 (msg_Attempt msg + 1)\<rparr>
      in case MarshalEventMessage retryMsg of
           Inl _ \<Rightarrow> s
         | Inr v \<Rightarrow> snd (Publish (pr_producer p) (tp_Events (pr_topics p)) (msg_EventID retryMsg) v s))"

definition publishToDLQ :: "'s Processor \<Rightarrow> EventMessage \<Rightarrow> 's \<Rightarrow> 's" where
  "publishToDLQ p msg s =
     (case MarshalEventMessage msg of
        Inl _ \<Rightarrow> s
      | Inr v \<Rightarrow> snd (Publish (pr_producer p) (tp_DLQ (pr_topics p)) (msg_EventID msg) v s))"

definition processMessage ::
  "'s Processor \<Rightarrow> kafka_message \<Rightarrow> metrics \<Rightarrow> 's \<Rightarrow> (metrics \<times> 's) outcome" where
  "processMessage p raw m s =
     (case UnmarshalEventMessage (km_Value raw) of
        Inl _ \<Rightarrow> Returns (m, s)
      | Inr evtMsg \<Rightarrow> (case Process_Execute (pr_processEvent p) evtMsg s of
          ((result, err), s1) \<Rightarrow> (case res_Action result of
              ProcessActionDone \<Rightarrow>
                (if err = None \<and> res_EventSource result \<noteq> []
                 then Returns (m\<lparr>EventsProcessedTotal :=
                        Inc [res_EventSource result, ''processed''] (EventsProcessedTotal m)\<rparr>, s1)
                 else Returns (m, s1))
            | ProcessActionRetry \<Rightarrow> (case err of
                None \<Rightarrow> Panics ''invalid memory address or nil pointer dereference''
              | Some _ \<Rightarrow> Returns (m, publishRetry p evtMsg s1))
            | ProcessActionDLQ \<Rightarrow>
                Returns (m\<lparr>EventsFailedTotal :=
                    Inc [''unknown'', ''max_retries_exceeded''] (EventsFailedTotal m)\<rparr>,
                  publishToDLQ p evtMsg s1))))"

partial_function (option) Run ::
  "'s Processor \<Rightarrow> ('s \<Rightarrow> go_error option) \<Rightarrow> (duration \<Rightarrow> 's \<Rightarrow> 's) \<Rightarrow> metrics \<Rightarrow> 's
     \<Rightarrow> (go_error \<times> metrics \<times> 's) outcome option" where
  "Run p ctx_err sleep m s =
     (case FetchMessage (pr_consumer p) s of
        (Inl err, s1) \<Rightarrow> (case ctx_err s1 of
            Some e \<Rightarrow> Some (Returns (e, m, s1))
          | None \<Rightarrow> Run p ctx_err sleep m (sleep second s1))
      | (Inr msg, s1) \<Rightarrow> (case processMessage p msg m s1 of
            Panics x \<Rightarrow> Some (Panics x)
          | Returns (m2, s2) \<Rightarrow> (case CommitMessages (pr_consumer p) [msg] s2 of
              (Some err, s3) \<Rightarrow> (case ctx_err s3 of
                  Some e \<Rightarrow> Some (Returns (e, m2, s3))
                | None \<Rightarrow> Run p ctx_err sleep m2 s3)
            | (None, s3) \<Rightarrow> Run p ctx_err sleep m2 s3)))"

text \<open>\<open>reportLag\<close> runs beside the loop: every 15 s it sets the gauge.\<close>

definition lag_interval :: duration where
  "lag_interval = 15 * second"

definition reportLag_tick :: "'s Processor \<Rightarrow> metrics \<Rightarrow> 's \<Rightarrow> metrics" where
  "reportLag_tick p m s =
     m\<lparr>QueueLagMessages := (QueueLagMessages m)([tp_Events (pr_topics p)] := Lag (pr_consumer p) s)\<rparr>"

section \<open>dlq.go\<close>

record 's DLQHandler =
  dh_consumer :: "'s kafka_reader"
  dh_events :: "'s event_repository"

definition NewDLQHandler :: "'s kafka_reader \<Rightarrow> 's event_repository \<Rightarrow> 's DLQHandler" where
  "NewDLQHandler consumer events = \<lparr>dh_consumer = consumer, dh_events = events\<rparr>"

text \<open>A message that parses marks its event failed; an error of the update is only logged.\<close>

definition dlq_handle :: "'s DLQHandler \<Rightarrow> EventMessage \<Rightarrow> 's \<Rightarrow> 's" where
  "dlq_handle h msg s = snd (UpdateStatus (dh_events h) (msg_EventID msg) EventStatusFailed s)"

partial_function (option) DLQ_Run ::
  "'s DLQHandler \<Rightarrow> ('s \<Rightarrow> go_error option) \<Rightarrow> (duration \<Rightarrow> 's \<Rightarrow> 's) \<Rightarrow> 's \<Rightarrow> (go_error \<times> 's) option" where
  "DLQ_Run h ctx_err sleep s =
     (case FetchMessage (dh_consumer h) s of
        (Inl err, s1) \<Rightarrow> (case ctx_err s1 of
            Some e \<Rightarrow> Some (e, s1)
          | None \<Rightarrow> DLQ_Run h ctx_err sleep (sleep second s1))
      | (Inr msg, s1) \<Rightarrow> (case UnmarshalEventMessage (km_Value msg) of
            Inl _ \<Rightarrow> (case CommitMessages (dh_consumer h) [msg] s1 of (_, s2) \<Rightarrow>
                DLQ_Run h ctx_err sleep s2)
          | Inr evtMsg \<Rightarrow> (case CommitMessages (dh_consumer h) [msg] (dlq_handle h evtMsg s1) of
              (Some err, s3) \<Rightarrow> (case ctx_err s3 of
                  Some e \<Rightarrow> Some (e, s3)
                | None \<Rightarrow> DLQ_Run h ctx_err sleep s3)
            | (None, s3) \<Rightarrow> DLQ_Run h ctx_err sleep s3)))"

text \<open>The event a delivery is about, and what handling one delivery does, before the commit.\<close>

definition delivery :: "kafka_message \<Rightarrow> EventMessage option" where
  "delivery raw = (case UnmarshalEventMessage (km_Value raw) of Inl _ \<Rightarrow> None | Inr msg \<Rightarrow> Some msg)"

lemma int_field_int64: "int_field v old = Some i \<Longrightarrow> in_int64 old \<Longrightarrow> in_int64 i"
  by (auto simp: int_field_def parse_int_def Let_def split: if_splits prod.splits)

lemma decode_message_int64:
  "decode_members message_member ms msg = Some msg' \<Longrightarrow> in_int64 (msg_Attempt msg) \<Longrightarrow> in_int64 (msg_Attempt msg')"
proof (induction ms arbitrary: msg)
  case (Cons x ms)
  then obtain y where y: "message_member x msg = Some y" "decode_members message_member ms y = Some msg'"
    by (auto split: bind_splits)
  have "in_int64 (msg_Attempt y)"
    using y(1) Cons.prems(2) by (auto simp: message_member_def dest: int_field_int64 split: if_splits)
  with Cons.IH y(2) show ?case by blast
qed simp

lemma Unmarshal_int64: "UnmarshalEventMessage v = Inr msg \<Longrightarrow> in_int64 (msg_Attempt msg)"
  by (auto simp: UnmarshalEventMessage_def Let_def int64_defs split: option.splits prod.splits if_splits top_value.splits
      dest!: decode_message_int64)

lemma processMessage_returns: "\<exists>m' s'. processMessage p raw m s = Returns (m', s')"
  using process_action_iff_error [where uc = "pr_processEvent p" and msg = "the (delivery raw)" and s = s]
  by (auto simp: processMessage_def delivery_def split: sum.splits prod.splits ProcessAction.splits option.splits)

section \<open>One delivery\<close>

lemma event_message_marshal:
  "MarshalEventMessage \<lparr>msg_EventID = i, msg_Attempt = n\<rparr> = Inr v \<longleftrightarrow> v = snd (snd (event_message topic i n))"
  by (auto simp: MarshalEventMessage_def event_message_def)

context platform
begin

lemma publishRetry_sent:
  assumes "in_int64 (msg_Attempt msg)" "msg_Attempt msg < maxR" "in_int64 maxR"
  shows "\<exists>n. sent (publishRetry (NewProcessor c pub pe topics) msg s) = sent s @ replicate n
      (event_message (tp_Events topics) (msg_EventID msg) (msg_Attempt msg + 1))"
  using pub.publish_sent wrap64_succ [OF assms(3) _ assms(2)] assms(1)
  by (simp add: publishRetry_def NewProcessor_def MarshalEventMessage_def event_message_def int64_defs)

lemma publishToDLQ_sent:
  "\<exists>n. sent (publishToDLQ (NewProcessor c pub pe topics) msg s) = sent s @ replicate n
      (event_message (tp_DLQ topics) (msg_EventID msg) (msg_Attempt msg))"
  using pub.publish_sent by (simp add: publishToDLQ_def NewProcessor_def MarshalEventMessage_def event_message_def)

lemma publish_keeps:
  "rows (publishRetry (NewProcessor c pub pe topics) msg s) = rows s"
  "written (publishRetry (NewProcessor c pub pe topics) msg s) = written s"
  "entries (publishRetry (NewProcessor c pub pe topics) msg s) = entries s"
  "rows (publishToDLQ (NewProcessor c pub pe topics) msg s) = rows s"
  "written (publishToDLQ (NewProcessor c pub pe topics) msg s) = written s"
  "entries (publishToDLQ (NewProcessor c pub pe topics) msg s) = entries s"
  by (simp_all add: publishRetry_def publishToDLQ_def NewProcessor_def Let_def untouched split: sum.splits)

text \<open>The messages one delivery publishes.\<close>

lemma processMessage_sent:
  assumes "delivery raw = Some msg" "in_int64 maxR"
    and "Process_Execute (NewProcessEvent repo (Some writer) maxR) msg s = ((res, err), s1)"
    and "processMessage (NewProcessor c pub (NewProcessEvent repo (Some writer) maxR) topics) raw m s = Returns (m', s')"
  shows "rows s' = rows s1 \<and> written s' = written s1 \<and> entries s' = entries s1 \<and>
    (case err of
       None \<Rightarrow> s' = s1
     | Some e \<Rightarrow>
         if msg_Attempt msg < maxR
         then \<exists>n. sent s' = sent s1 @ replicate n
                (event_message (tp_Events topics) (msg_EventID msg) (msg_Attempt msg + 1))
         else \<exists>n. sent s' = sent s1 @ replicate n
                (event_message (tp_DLQ topics) (msg_EventID msg) (msg_Attempt msg)))"
proof -
  let ?p = "NewProcessor c pub (NewProcessEvent repo (Some writer) maxR) topics"
  have un: "UnmarshalEventMessage (km_Value raw) = Inr msg"
    using assms(1) by (auto simp: delivery_def split: sum.splits)
  note int = Unmarshal_int64 [OF un]
  have pe: "pr_processEvent ?p = NewProcessEvent repo (Some writer) maxR" "pe_maxRetries (pr_processEvent ?p) = maxR"
    by (simp_all add: NewProcessor_def NewProcessEvent_def)
  have A: "(res_Action res = ProcessActionDone \<longleftrightarrow> err = None)"
    "(res_Action res = ProcessActionRetry \<longleftrightarrow> err \<noteq> None \<and> msg_Attempt msg < maxR)"
    using process_action_iff_error [where uc = "pr_processEvent ?p" and msg = msg and s = s] assms(3) pe
    by simp_all
  have s': "s' = (case err of None \<Rightarrow> s1 | Some e \<Rightarrow>
      if msg_Attempt msg < maxR then publishRetry ?p msg s1 else publishToDLQ ?p msg s1)"
    using assms(3,4) A
    by (auto simp: processMessage_def un pe split: ProcessAction.splits option.splits if_splits)
  show ?thesis
    using publishRetry_sent [OF int _ assms(2)] publishToDLQ_sent
    by (auto simp: s' publish_keeps split: option.splits)
qed

end

section \<open>Properties of the stack\<close>

text \<open>The consumer as \<open>RunWorker\<close> builds it.\<close>

definition worker_processor ::
  "'s kafka_reader \<Rightarrow> 's pg_driver \<Rightarrow> 's kafka_writer \<Rightarrow> (HeaderCarrier \<Rightarrow> HeaderCarrier) \<Rightarrow> 's ch_conn
     \<Rightarrow> ('s \<Rightarrow> time) \<Rightarrow> int \<Rightarrow> Topics \<Rightarrow> 's Processor" where
  "worker_processor c db w inject conn now maxR topics =
     NewProcessor c (NewProducer w inject now) (worker_process db conn now maxR) topics"

text \<open>
  C13: what one delivery publishes. Handling a message never panics. An unparseable one changes
  nothing. Otherwise the use case runs, and after it only the broker's log may grow, by copies of one
  message: nothing when the use case reported no error; the same event with the attempt plus one, on
  the events topic, when it failed below \<open>maxRetries\<close>; the message itself on the dead letter topic when
  it failed at \<open>maxRetries\<close> or later. The attempt never wraps around.
\<close>

theorem delivery_publishes:
  assumes "drivers db tabs pgnow uuid jsonb w log conn logged" and "in_int64 maxR"
  shows "\<exists>m' s'. processMessage (worker_processor c db w inject conn now maxR topics) raw m s = Returns (m', s') \<and>
    (case delivery raw of
       None \<Rightarrow> m' = m \<and> s' = s
     | Some msg \<Rightarrow> (case Process_Execute (worker_process db conn now maxR) msg s of ((res, err), s1) \<Rightarrow>
         event_at (tabs s') = event_at (tabs s1) \<and> logged s' = logged s1 \<and>
         (case err of
            None \<Rightarrow> s' = s1
          | Some e \<Rightarrow>
              (\<exists>n. map message_key (log s') = map message_key (log s1) @ replicate n
                (if msg_Attempt msg < maxR
                 then event_message (tp_Events topics) (msg_EventID msg) (msg_Attempt msg + 1)
                 else event_message (tp_DLQ topics) (msg_EventID msg) (msg_Attempt msg))))))"
proof -
  let ?p = "worker_processor c db w inject conn now maxR topics"
  obtain m' s' where r: "processMessage ?p raw m s = Returns (m', s')"
    using processMessage_returns [of ?p raw m s] by blast
  show ?thesis
  proof (cases "delivery raw")
    case None
    then have "m' = m \<and> s' = s"
      using r by (auto simp: processMessage_def delivery_def split: sum.splits)
    then show ?thesis using r None by auto
  next
    case (Some msg)
    obtain res err s1 where ex: "Process_Execute (worker_process db conn now maxR) msg s = ((res, err), s1)"
      by (metis prod.collapse)
    note P = platform.processMessage_sent [OF drivers.is_platform [OF assms(1)] Some assms(2)
        ex [unfolded worker_process_def] r [unfolded worker_processor_def worker_process_def]]
    then show ?thesis using r Some ex by (auto split: option.splits if_splits)
  qed
qed

abbreviation demo_processor :: "world Processor" where
  "demo_processor \<equiv> worker_processor world_reader world_db world_writer id world_conn w_now 3
     \<lparr>tp_Events = ''events'', tp_DLQ = ''events.dlq''\<rparr>"

lemma demo_delivery: "delivery (demo_message 1) = Some \<lparr>msg_EventID = demo_id, msg_Attempt = 1\<rparr>"
  by code_simp

theorem delivery_publishes_witness:
  "\<exists>m' s'. processMessage demo_processor (demo_message 1) new_metrics (world_with ''pending'' [Refused ''db'']) =
       Returns (m', s') \<and>
     (\<exists>n. map message_key (w_log s') = replicate n (event_message ''events'' demo_id 2))"
proof -
  let ?x = "demo_process 1 ''pending'' [Refused ''db'']"
  obtain s1 where s1: "s1 = snd ?x" by simp
  have ex: "?x = ((\<lparr>res_Action = ProcessActionRetry, res_EventSource = []\<rparr>,
      Some (Wrap ''find event by id: '' (ErrText ''db''))), s1)"
    unfolding s1 by (rule prod_eqI) (simp only: fst_conv, code_simp, simp)
  have l: "w_log s1 = []" unfolding s1 by code_simp
  have i: "in_int64 3" by (simp add: int64_defs)
  show ?thesis
    using delivery_publishes [OF world.drivers_axioms i, of world_reader id w_now
        "\<lparr>tp_Events = ''events'', tp_DLQ = ''events.dlq''\<rparr>" "demo_message 1" new_metrics
        "world_with ''pending'' [Refused ''db'']"]
    unfolding demo_delivery option.case ex prod.case l
    by (auto simp: l)
qed

text \<open>
  A retry whose publish fails is dropped. When the use case asks for a retry and the producer
  reports an error, handling the delivery still returns normally, in the state the failed call left, so
  the loop goes on to commit the delivery: where the broker did not get the message, no message for the
  event is left anywhere.
\<close>

theorem retry_publish_failure_is_dropped:
  assumes "delivery raw = Some msg"
    and "Process_Execute (pr_processEvent p) msg s = ((\<lparr>res_Action = ProcessActionRetry, res_EventSource = src\<rparr>, Some e), s1)"
    and "event_message (tp_Events (pr_topics p)) (msg_EventID msg) (wrap64 (msg_Attempt msg + 1)) = (topic, key, v)"
    and "Publish (pr_producer p) topic key v s1 = (Some x, s2)"
  shows "processMessage p raw m s = Returns (m, s2)"
  using assms
  by (auto simp: processMessage_def publishRetry_def delivery_def event_message_def MarshalEventMessage_def
      split: sum.splits)

abbreviation lossy_world :: world where
  "lossy_world \<equiv> (world_with ''pending'' [Refused ''db'', Fine, Refused ''broker'', Fine])\<lparr>w_inbox := [demo_message 1]\<rparr>"

theorem retry_publish_failure_is_dropped_witness:
  "case processMessage demo_processor (demo_message 1) new_metrics (snd (world_fetch lossy_world)) of
     Panics _ \<Rightarrow> False
   | Returns (m, s) \<Rightarrow> w_log s = [] \<and> w_inbox s = [] \<and>
       map_option ev_Status (event_at (w_tabs s) demo_id) = Some ''pending''"
proof -
  let ?s = "snd (world_fetch lossy_world)"
  obtain s1 where s1: "s1 = snd (Process_Execute (pr_processEvent demo_processor)
      \<lparr>msg_EventID = demo_id, msg_Attempt = 1\<rparr> ?s)" by simp
  obtain s2 where s2: "s2 = snd (Publish (pr_producer demo_processor) ''events'' demo_id
      (snd (snd (event_message ''events'' demo_id 2))) s1)" by simp
  have ex: "Process_Execute (pr_processEvent demo_processor) \<lparr>msg_EventID = demo_id, msg_Attempt = 1\<rparr> ?s =
      ((\<lparr>res_Action = ProcessActionRetry, res_EventSource = []\<rparr>, Some (Wrap ''find event by id: '' (ErrText ''db''))), s1)"
    unfolding s1 by (rule prod_eqI) (simp only: fst_conv, code_simp, simp)
  have p: "Publish (pr_producer demo_processor) ''events'' demo_id
      (snd (snd (event_message ''events'' demo_id 2))) s1 =
      (Some (Wrap ''kafka publish to events: '' (ErrText ''broker'')), s2)"
    unfolding s2 s1 by (rule prod_eqI) (simp only: fst_conv, code_simp, simp)
  have t: "event_message (tp_Events (pr_topics demo_processor)) (msg_EventID \<lparr>msg_EventID = demo_id, msg_Attempt = 1\<rparr>)
      (wrap64 (msg_Attempt \<lparr>msg_EventID = demo_id, msg_Attempt = 1\<rparr> + 1)) =
      (''events'', demo_id, snd (snd (event_message ''events'' demo_id 2)))"
    by code_simp
  have "w_log s2 = []" "w_inbox s2 = []" "map_option ev_Status (event_at (w_tabs s2) demo_id) = Some ''pending''"
    unfolding s2 s1 by code_simp+
  then show ?thesis
    by (simp only: retry_publish_failure_is_dropped [OF demo_delivery ex t p] outcome.case prod.case simp_thms)
qed

section \<open>The loops\<close>

lemma Run_stops:
  "Run p ctx_err sleep m s = Some r \<Longrightarrow> \<exists>e m' s'. r = Returns (e, m', s') \<and> ctx_err s' = Some e"
proof (induction rule: Run.raw_induct [rotated, consumes 1, case_names step])
  case (step run p ctx_err sleep m s r)
  obtain m' s' where "\<And>msg s1. processMessage p msg m s1 \<noteq> Panics x" for x
    using processMessage_returns by (metis outcome.distinct(1))
  with step show ?case
    by (auto split: prod.splits sum.splits option.splits outcome.splits)
qed

text \<open>
  C30: only the cancelled context ends the consumer. Whatever the broker, the stores and the messages
  do, if the loop ends, it returns the context's error, and the context is cancelled then: fetch
  errors, commit errors, unparseable messages and failing events never stop it, and it never panics.
\<close>

theorem consumer_stops_only_on_cancel:
  assumes "Run p ctx_err sleep m s = Some r"
  shows "\<exists>e m' s'. r = Returns (e, m', s') \<and> ctx_err s' = Some e"
  using Run_stops [OF assms] .

theorem consumer_stops_only_on_cancel_witness:
  "\<exists>e m' s'. Run demo_processor world_ctx (\<lambda>_ s. s) new_metrics (demo_world []) = Some (Returns (e, m', s')) \<and>
     world_ctx s' = Some e"
proof -
  have "Run demo_processor world_ctx (\<lambda>_ s. s) new_metrics (demo_world []) =
      Some (Returns (Canceled, new_metrics, demo_world []))"
    by (subst Run.simps)
      (simp add: FetchMessage_def worker_processor_def NewProcessor_def world_reader_def world_fetch_def
        demo_world_def new_world_def world_ctx_def)
  from consumer_stops_only_on_cancel [OF this] this show ?thesis by auto
qed

text \<open>
  C29: the consumer stops once the context is cancelled. When only finitely many messages and errors
  come before a fetch that fails with the context cancelled (\<open>budget\<close> bounds how many are left: a
  fetched message uses it up, so does a failed fetch with the context alive, and nothing else adds to
  it), the loop ends and returns the context's error.
\<close>

theorem consumer_stops_on_cancel:
  assumes fetch: "\<And>s msg s1. FetchMessage (pr_consumer p) s = (Inr msg, s1) \<Longrightarrow> budget s1 < budget s"
    and alive: "\<And>s x s1. FetchMessage (pr_consumer p) s = (Inl x, s1) \<Longrightarrow> ctx_err s1 = None \<Longrightarrow>
      budget (sleep second s1) < budget s"
    and handle: "\<And>raw m s m' s'. processMessage p raw m s = Returns (m', s') \<Longrightarrow> budget s' \<le> budget s"
    and commit: "\<And>ms s. budget (snd (CommitMessages (pr_consumer p) ms s)) \<le> (budget s :: nat)"
  shows "\<exists>e m' s'. Run p ctx_err sleep m s = Some (Returns (e, m', s')) \<and> ctx_err s' = Some e"
proof (induction "budget s" arbitrary: s m rule: less_induct)
  case less
  obtain f s1 where f: "FetchMessage (pr_consumer p) s = (f, s1)" by force
  show ?case
  proof (cases f)
    case (Inl x)
    show ?thesis
    proof (cases "ctx_err s1")
      case None
      from less [OF alive [OF f [unfolded Inl] None]] show ?thesis
        by (subst Run.simps) (simp add: f Inl None)
    qed (subst Run.simps, simp add: f Inl)
  next
    case (Inr msg)
    obtain m2 s2 where h: "processMessage p msg m s1 = Returns (m2, s2)"
      using processMessage_returns [of p msg m s1] by blast
    obtain r s3 where c: "CommitMessages (pr_consumer p) [msg] s2 = (r, s3)" by force
    have "budget s3 \<le> budget s2" "budget s2 \<le> budget s1" "budget s1 < budget s"
      using commit [of "[msg]" s2] c handle [OF h] fetch [OF f [unfolded Inr]] by simp_all
    then have "budget s3 < budget s" by simp
    from less [OF this, of m2] show ?thesis
      by (subst Run.simps) (auto simp: f Inr h c split: option.splits)
  qed
qed

text \<open>A view that no port operation changes is left alone by the whole delivery.\<close>

lemma Process_Execute_keeps:
  assumes "\<And>i s. V (snd (FindByID (pe_events uc) i s)) = V s"
    and "\<And>i st s. V (snd (UpdateStatus (pe_events uc) i st s)) = V s"
    and "\<And>i s. V (snd (IncrementRetry (pe_events uc) i s)) = V s"
    and "\<And>a e s. pe_analytics uc = Some a \<Longrightarrow> V (snd (WriteEvent a e s)) = V s"
  shows "V (snd (Process_Execute uc msg s)) = V s"
proof -
  have eq: "FindByID (pe_events uc) i s = (r, s') \<Longrightarrow> V s' = V s"
    "UpdateStatus (pe_events uc) i st s = (r2, s') \<Longrightarrow> V s' = V s"
    "IncrementRetry (pe_events uc) i s = (r2, s') \<Longrightarrow> V s' = V s"
    "WriteEvent a e s = (r2, s') \<Longrightarrow> pe_analytics uc = Some a \<Longrightarrow> V s' = V s" for i st s s' r r2 a e
    using assms by (metis snd_conv)+
  have "V (snd (handleFailure uc msg x s)) = V s" for x s
    by (auto simp: handleFailure_def split: prod.splits dest!: eq)
  then show ?thesis
    by (auto simp: Process_Execute_def Let_def split: prod.splits sum.splits option.splits
        dest!: eq(1-3) dest: eq(4))
qed

lemma processMessage_keeps:
  assumes "\<And>msg s. V (snd (Process_Execute (pr_processEvent p) msg s)) = V s"
    and "\<And>topic k v s. V (snd (Publish (pr_producer p) topic k v s)) = V s"
    and "processMessage p raw m s = Returns (m', s')"
  shows "V s' = V s"
proof -
  have "V (publishRetry p msg s) = V s" "V (publishToDLQ p msg s) = V s" for msg s
    by (simp_all add: publishRetry_def publishToDLQ_def assms(2) Let_def split: sum.splits)
  moreover have "Process_Execute (pr_processEvent p) msg s = (r, s1) \<Longrightarrow> V s1 = V s" for msg s r s1
    using assms(1) by (metis snd_conv)
  ultimately show ?thesis
    using assms(3)
    by (auto simp: processMessage_def split: sum.splits prod.splits ProcessAction.splits option.splits if_splits)
qed

theorem consumer_stops_on_cancel_witness:
  "\<exists>e m' s'. Run demo_processor world_ctx (\<lambda>_ s. s) new_metrics lossy_world = Some (Returns (e, m', s')) \<and>
     world_ctx s' = Some e"
proof (rule consumer_stops_on_cancel [where budget = "\<lambda>s. length (w_inbox s)"])
  show "length (w_inbox s') \<le> length (w_inbox s)" if "processMessage demo_processor raw m s = Returns (m', s')"
    for raw m s m' s'
  proof -
    have "w_inbox s' = w_inbox s"
      by (rule processMessage_keeps [OF _ _ that], rule Process_Execute_keeps)
        (auto simp: worker_processor_def NewProcessor_def worker_process_def NewProcessEvent_def world_ports_inbox)
    then show ?thesis by simp
  qed
qed (auto simp: FetchMessage_def CommitMessages_def worker_processor_def NewProcessor_def world_inbox
    world_reader_def world_fetch_def world_ctx_def split: list.splits 
    simp: world_commit_inbox)

section \<open>The dead letter consumer\<close>

context platform
begin

lemma dlq_handle_at:
  assumes "canon (msg_EventID msg) = j"
  shows "sent (dlq_handle (NewDLQHandler c repo) msg s) = sent s \<and>
    written (dlq_handle (NewDLQHandler c repo) msg s) = written s \<and>
    entries (dlq_handle (NewDLQHandler c repo) msg s) = entries s \<and>
    (rows (dlq_handle (NewDLQHandler c repo) msg s) = rows s \<or>
     (\<exists>e t. rows s j = Some e \<and> rows (dlq_handle (NewDLQHandler c repo) msg s) =
        (rows s)(j \<mapsto> with_status EventStatusFailed t e)))"
  using repo.update_rows [of "msg_EventID msg" EventStatusFailed s] assms
  by (simp add: dlq_handle_def NewDLQHandler_def untouched del: status_defs)

end

text \<open>The dead letter consumer as \<open>RunWorker\<close> builds it.\<close>

definition worker_dlq :: "'s kafka_reader \<Rightarrow> 's pg_driver \<Rightarrow> ('s \<Rightarrow> time) \<Rightarrow> 's DLQHandler" where
  "worker_dlq c db now = NewDLQHandler c (NewEventRepository db now)"

text \<open>
  A dead letter changes the status of its event and nothing else. The event table is as it was, or
  the event of the message, which exists, has become failed and lost its processing time, whatever its
  status was, its other columns kept; the log, the keys and the analytics rows are untouched.
\<close>

theorem dead_letter_fails_event:
  assumes "drivers db tabs pgnow uuid jsonb w log conn logged"
    and "pg_canon uuid (msg_EventID msg) = j"
  shows "let s' = dlq_handle (worker_dlq c db now) msg s in
    map message_key (log s') = map message_key (log s) \<and> logged s' = logged s \<and>
    map_of (idempotency_keys (tabs s')) = map_of (idempotency_keys (tabs s)) \<and>
    (event_at (tabs s') = event_at (tabs s) \<or>
     (\<exists>e. event_at (tabs s) j = Some e \<and> event_at (tabs s') =
        (event_at (tabs s))(j \<mapsto> e\<lparr>ev_Status := EventStatusFailed, ev_ProcessedAt := None\<rparr>)))"
  using platform.dlq_handle_at [OF drivers.is_platform [OF assms(1)] assms(2), where c = c and s = s]
  by (auto simp: worker_dlq_def Let_def with_status_def)

theorem dead_letter_fails_event_witness:
  "map_option ev_Status (event_at (w_tabs (dlq_handle (worker_dlq world_reader world_db w_now)
     \<lparr>msg_EventID = demo_id, msg_Attempt = 3\<rparr> (world_with ''processed'' []))) demo_id) = Some ''failed'' \<and>
   w_rows (dlq_handle (worker_dlq world_reader world_db w_now)
     \<lparr>msg_EventID = demo_id, msg_Attempt = 3\<rparr> (world_with ''processed'' [])) = []"
proof -
  have j: "pg_canon world_uuid (msg_EventID \<lparr>msg_EventID = demo_id, msg_Attempt = 3\<rparr>) = demo_id"
    by (simp add: demo_canon)
  have "w_rows (world_with ''processed'' []) = []" by code_simp
  moreover have "map_option ev_Status (event_at (w_tabs (dlq_handle (worker_dlq world_reader world_db w_now)
     \<lparr>msg_EventID = demo_id, msg_Attempt = 3\<rparr> (world_with ''processed'' []))) demo_id) = Some ''failed''"
    by code_simp
  ultimately show ?thesis
    using dead_letter_fails_event [OF world.drivers_axioms j, where c = world_reader and now = w_now and s = "world_with ''processed'' []"]
    by (simp add: Let_def)
qed

lemma DLQ_Run_stops: "DLQ_Run h ctx_err sleep s = Some r \<Longrightarrow> ctx_err (snd r) = Some (fst r)"
proof (induction rule: DLQ_Run.raw_induct [rotated, consumes 1, case_names step])
  case (step run h ctx_err sleep s r)
  then show ?case by (auto split: prod.splits sum.splits option.splits)
qed

end
