(* ===== verification/Pipeline.thy ===== *)
theory Pipeline
  imports Processor
begin

text \<open>
  The pipeline as a whole: the server ingests, the workers handle deliveries, the dead letter consumer
  handles its own, in any order and any number of times (Kafka redelivers what was not committed, and
  after a crash what was handled but not committed). A step relation says what one of them does to the
  shared state, and the invariants of the reachable states say what the log, the event table and the
  analytics rows have to do with each other. A step runs one handler to its end (\<open>System\<close> splits a
  request at the lookup of its key); handlers interleaved at every call, and cut off in the middle by a
  crash, are in \<open>Interleave\<close>.
\<close>

record 's stack =
  sk_db :: "'s pg_driver"
  sk_writer :: "'s kafka_writer"
  sk_inject :: "HeaderCarrier \<Rightarrow> HeaderCarrier"
  sk_conn :: "'s ch_conn"
  sk_now :: "'s \<Rightarrow> time"
  sk_reader :: "'s kafka_reader"
  sk_dlq_reader :: "'s kafka_reader"
  sk_maxRetries :: int
  sk_topics :: Topics

definition stack_ingest :: "'s stack \<Rightarrow> 's IngestEvent" where
  "stack_ingest k = server_ingest (sk_db k) (sk_writer k) (sk_inject k) (sk_now k) (tp_Events (sk_topics k))"

definition stack_processor :: "'s stack \<Rightarrow> 's Processor" where
  "stack_processor k = worker_processor (sk_reader k) (sk_db k) (sk_writer k) (sk_inject k) (sk_conn k)
     (sk_now k) (sk_maxRetries k) (sk_topics k)"

definition stack_dlq :: "'s stack \<Rightarrow> 's DLQHandler" where
  "stack_dlq k = worker_dlq (sk_dlq_reader k) (sk_db k) (sk_now k)"

text \<open>
  A delivery is of a message the broker has on the topic. \<open>uuid.NewString\<close> gives ASCII text. The last
  rule is everything else that happens: time passes, keys are stored and read, offsets are committed.
\<close>

inductive pipe :: "'s stack \<Rightarrow> ('s \<Rightarrow> tables) \<Rightarrow> ('s \<Rightarrow> kafka_message list) \<Rightarrow> ('s \<Rightarrow> log_row list) \<Rightarrow> 's \<Rightarrow> 's \<Rightarrow> bool"
  for k tabs log logged where
  ingest: "valid_utf8 newid \<Longrightarrow> Ingest_Execute (stack_ingest k) newid t inp s = (r, s') \<Longrightarrow>
    pipe k tabs log logged s s'"
| consume: "raw \<in> set (log s) \<Longrightarrow> km_Topic raw = tp_Events (sk_topics k) \<Longrightarrow>
    processMessage (stack_processor k) raw m s = Returns (m', s') \<Longrightarrow> pipe k tabs log logged s s'"
| dead: "raw \<in> set (log s) \<Longrightarrow> km_Topic raw = tp_DLQ (sk_topics k) \<Longrightarrow> delivery raw = Some msg \<Longrightarrow>
    s' = dlq_handle (stack_dlq k) msg s \<Longrightarrow> pipe k tabs log logged s s'"
| other: "event_at (tabs s') = event_at (tabs s) \<Longrightarrow> log s' = log s \<Longrightarrow> logged s' = logged s \<Longrightarrow>
    pipe k tabs log logged s s'"

inductive_cases pipeE [consumes 1, case_names ingest consume dead other]: "pipe k tabs log logged s s'"

inductive pipe_reach :: "'s stack \<Rightarrow> ('s \<Rightarrow> tables) \<Rightarrow> ('s \<Rightarrow> kafka_message list) \<Rightarrow> ('s \<Rightarrow> log_row list) \<Rightarrow> 's \<Rightarrow> bool"
  for k tabs log logged where
  start: "webhook_events (tabs s) = [] \<Longrightarrow> log s = [] \<Longrightarrow> logged s = [] \<Longrightarrow> pipe_reach k tabs log logged s"
| step: "pipe_reach k tabs log logged s \<Longrightarrow> pipe k tabs log logged s s' \<Longrightarrow> pipe_reach k tabs log logged s'"

section \<open>The invariant\<close>

text \<open>
  A message of the log is for a stored event: on the events topic with an attempt from 1 to
  \<open>maxRetries\<close> (1 where \<open>maxRetries\<close> is smaller), on the dead letter topic with the attempt that was
  the last.
\<close>

definition sound_message ::
  "int \<Rightarrow> Topics \<Rightarrow> (string \<Rightarrow> string) \<Rightarrow> (string \<Rightarrow> event option) \<Rightarrow> string \<times> string \<times> string \<Rightarrow> bool" where
  "sound_message maxR topics canon rows m \<longleftrightarrow>
     (\<exists>i n. valid_utf8 i \<and> 1 \<le> n \<and> n \<le> max 1 maxR \<and> rows (canon i) \<noteq> None \<and>
        (m = event_message (tp_Events topics) i n \<or> m = event_message (tp_DLQ topics) i n \<and> n = max 1 maxR))"

definition sound_row :: "(string \<Rightarrow> event option) \<Rightarrow> log_row \<Rightarrow> bool" where
  "sound_row rows r \<longleftrightarrow> rows (lr_event_id r) \<noteq> None \<and> \<not> terminal (lr_status r)"

definition sound_event :: "event \<Rightarrow> bool" where
  "sound_event e \<longleftrightarrow>
     ev_Status e \<in> {EventStatusPending, EventStatusProcessing, EventStatusProcessed, EventStatusFailed} \<and>
     0 \<le> ev_RetryCount e"

definition pipe_inv ::
  "int \<Rightarrow> Topics \<Rightarrow> (string \<Rightarrow> string) \<Rightarrow> (string \<Rightarrow> event option) \<Rightarrow> (string \<times> string \<times> string) list
     \<Rightarrow> log_row list \<Rightarrow> bool" where
  "pipe_inv maxR topics canon rows sent written \<longleftrightarrow>
     list_all (sound_message maxR topics canon rows) sent \<and> list_all (sound_row rows) written \<and>
     (\<forall>i e. rows i = Some e \<longrightarrow> sound_event e)"

lemma sound_message_mono [inv_intros]:
  "sound_message maxR topics canon rows m \<Longrightarrow> (\<And>i. rows i \<noteq> None \<Longrightarrow> rows' i \<noteq> None) \<Longrightarrow>
   sound_message maxR topics canon rows' m"
  unfolding sound_message_def by metis

lemma sound_row_mono [inv_intros]:
  "sound_row rows r \<Longrightarrow> (\<And>i. rows i \<noteq> None \<Longrightarrow> rows' i \<noteq> None) \<Longrightarrow> sound_row rows' r"
  unfolding sound_row_def by blast

lemma pipe_inv_mono:
  assumes inv: "pipe_inv maxR topics canon rows sent written"
    and more: "\<And>i. rows i \<noteq> None \<Longrightarrow> rows' i \<noteq> None"
    and "\<And>i e. rows' i = Some e \<Longrightarrow> sound_event e"
    and "list_all (sound_message maxR topics canon rows') new"
    and "list_all (sound_row rows') new_rows"
  shows "pipe_inv maxR topics canon rows' (sent @ new) (written @ new_rows)"
proof -
  have "list_all (sound_message maxR topics canon rows') sent"
    by (rule list.pred_mono_strong [OF inv [unfolded pipe_inv_def, THEN conjunct1]])
      (erule sound_message_mono, erule more)
  moreover have "list_all (sound_row rows') written"
    by (rule list.pred_mono_strong [OF inv [unfolded pipe_inv_def, THEN conjunct2, THEN conjunct1]])
      (erule sound_row_mono, erule more)
  ultimately show ?thesis using assms(3-5) by (simp add: pipe_inv_def)
qed

lemma sound_delivery:
  assumes "sound_message maxR topics canon rows (message_key raw)" "in_int64 maxR"
    and "tp_Events topics \<noteq> tp_DLQ topics"
  shows "\<exists>i n. valid_utf8 i \<and> delivery raw = Some \<lparr>msg_EventID = i, msg_Attempt = n\<rparr> \<and> 1 \<le> n \<and> n \<le> max 1 maxR \<and>
    rows (canon i) \<noteq> None"
proof -
  obtain i n where i: "valid_utf8 i" "1 \<le> n" "n \<le> max 1 maxR" "rows (canon i) \<noteq> None"
    and m: "message_key raw = event_message (tp_Events topics) i n \<or> message_key raw = event_message (tp_DLQ topics) i n"
    using assms(1) by (auto simp: sound_message_def)
  have "in_int64 n" using i assms(2) by (auto simp: int64_defs max_def split: if_splits)
  then have "UnmarshalEventMessage (projr (MarshalEventMessage \<lparr>msg_EventID = i, msg_Attempt = n\<rparr>)) =
      Inr \<lparr>msg_EventID = i, msg_Attempt = n\<rparr>"
    using Unmarshal_Marshal [of "\<lparr>msg_EventID = i, msg_Attempt = n\<rparr>"] to_valid_id [OF i(1)] by simp
  moreover have "km_Value raw = projr (MarshalEventMessage \<lparr>msg_EventID = i, msg_Attempt = n\<rparr>)"
    using m by (auto simp: message_key_def event_message_def)
  ultimately show ?thesis using i by (auto simp: delivery_def)
qed

lemma pipe_invD:
  "pipe_inv maxR topics canon rows sent written \<Longrightarrow> rows i = Some e \<Longrightarrow> sound_event e"
  by (auto simp: pipe_inv_def)

text \<open>One row written, some messages and log rows added.\<close>

lemma pipe_inv_row:
  assumes "pipe_inv maxR topics canon rows sent written" "sound_event e'"
    and "list_all (sound_message maxR topics canon (rows(j \<mapsto> e'))) new"
    and "list_all (sound_row (rows(j \<mapsto> e'))) new_rows"
  shows "pipe_inv maxR topics canon (rows(j \<mapsto> e')) (sent @ new) (written @ new_rows)"
  using assms by (intro pipe_inv_mono [OF assms(1)]) (auto simp: pipe_inv_def split: if_splits)

lemma pipe_inv_row_only:
  "pipe_inv maxR topics canon rows sent written \<Longrightarrow> sound_event e' \<Longrightarrow>
   pipe_inv maxR topics canon (rows(j \<mapsto> e')) sent written"
  using pipe_inv_row [of maxR topics canon rows sent written e' j "[]" "[]"] by simp

context platform
begin

lemma ingest_inv:
  assumes inv: "pipe_inv maxR topics canon (rows s) (sent s) (written s)" and "valid_utf8 newid"
    and ex: "Ingest_Execute (NewIngestEvent repo (Some pub) (tp_Events topics)) newid t inp s = (r, s')"
  shows "pipe_inv maxR topics canon (rows s') (sent s') (written s')"
proof -
  let ?e = "stored (new_event newid t inp)"
  have e: "sound_event ?e"
    by (simp add: sound_event_def repo.stored_fields new_event_def)
  show ?thesis
  proof (cases r)
    case (Inl err)
    from Ingest_err [OF ex [unfolded Inl]] inv show ?thesis
      by (auto intro!: pipe_inv_row_only [OF inv] e)
  next
    case (Inr out)
    note E = Ingest_ok [OF ex [unfolded Inr]]
    then obtain n where n: "sent s' = sent s @ replicate n (event_message (tp_Events topics) newid 1)" by blast
    have "sound_message maxR topics canon (rows s') (event_message (tp_Events topics) newid 1)"
      unfolding sound_message_def using E assms(2) by (intro exI [of _ newid] exI [of _ 1]) auto
    moreover have row: "rows s' = (rows s)(canon newid \<mapsto> ?e)" "written s' = written s" using E by simp_all
    ultimately have "pipe_inv maxR topics canon ((rows s)(canon newid \<mapsto> ?e))
        (sent s @ replicate n (event_message (tp_Events topics) newid 1)) (written s @ [])"
      by (intro pipe_inv_row [OF inv e]) (simp_all add: list_all_iff)
    then show ?thesis by (simp add: row n)
  qed
qed

lemma dead_inv:
  assumes inv: "pipe_inv maxR topics canon (rows s) (sent s) (written s)"
  shows "let s' = dlq_handle (NewDLQHandler c repo) msg s in
    pipe_inv maxR topics canon (rows s') (sent s') (written s')"
proof -
  have "sound_event (with_status EventStatusFailed t e)" if "rows s j = Some e" for j t e
    using pipe_invD [OF inv that] by (simp add: sound_event_def)
  then show ?thesis
    using dlq_handle_at [OF refl, of c msg s] inv
    by (auto simp: Let_def simp del: status_defs intro!: pipe_inv_row_only [OF inv])
qed

text \<open>A delivery that ended without an error, and one that ended with one.\<close>

lemma done_inv:
  assumes inv: "pipe_inv maxR topics canon (rows s) (sent s) (written s)"
    and ex: "Process_Execute (NewProcessEvent repo (Some writer) maxR) msg s = ((res, None), s1)"
  shows "pipe_inv maxR topics canon (rows s1) (sent s1) (written s1)"
proof -
  let ?j = "canon (msg_EventID msg)"
  note D = Execute_done [OF ex, of ?j]
  show ?thesis
  proof (cases "rows s1 = rows s \<and> written s1 = written s")
    case True
    then show ?thesis using D inv by auto
  next
    case False
    with D obtain e e' where e: "rows s ?j = Some e" "\<not> terminal (ev_Status e)"
      "rows s1 = (rows s)(?j \<mapsto> e')" "ev_RetryCount e' = ev_RetryCount e"
      "ev_Status e' \<in> {EventStatusProcessing, EventStatusProcessed}"
      "written s1 = written s \<or> (\<exists>x. written s1 = written s @ [x] \<and> row_of_event e x)"
      "sent s1 = sent s"
      by auto
    from e(5) pipe_invD [OF inv e(1)] e(4) have s: "sound_event e'" by (auto simp: sound_event_def)
    have "sound_row ((rows s)(?j \<mapsto> e')) x" if "row_of_event e x" for x
      using that e(1,2) repo.rows_id [OF e(1)] by (auto simp: sound_row_def row_of_event_def)
    then show ?thesis
      using e(6) pipe_inv_row_only [OF inv s] pipe_inv_row [OF inv s, of ?j "[]"]
      unfolding e(3,7) by auto
  qed
qed

lemma failed_inv:
  assumes inv: "pipe_inv maxR topics canon (rows s) (sent s) (written s)"
    and ex: "Process_Execute (NewProcessEvent repo (Some writer) maxR) \<lparr>msg_EventID = j, msg_Attempt = n\<rparr> s =
        ((res, Some e), s1)"
    and d: "valid_utf8 j" "1 \<le> n" "n \<le> max 1 maxR" "rows s (canon j) \<noteq> None"
    and ms: "ms = (if n < maxR then event_message (tp_Events topics) j (n + 1) else event_message (tp_DLQ topics) j n)"
  shows "pipe_inv maxR topics canon (rows s1) (sent s1 @ replicate k ms) (written s1)"
proof -
  note F = Execute_failed [OF ex, of "canon j"]
  obtain x x' where x: "rows s (canon j) = Some x" "rows s1 (canon j) = Some x'"
    using F d(4) by auto
  then have row: "rows s1 = (rows s)(canon j \<mapsto> x')"
    using F by (metis EventMessage.select_convs(1))
  have "sound_event x'"
    using F x pipe_invD [OF inv x(1)] by (auto simp: sound_event_def)
  moreover have "sound_message maxR topics canon ((rows s)(canon j \<mapsto> x')) ms"
  proof (cases "n < maxR")
    case True
    then show ?thesis unfolding sound_message_def ms using d by (intro exI [of _ j] exI [of _ "n + 1"]) auto
  next
    case False
    then show ?thesis unfolding sound_message_def ms using d by (intro exI [of _ j] exI [of _ n]) auto
  qed
  ultimately have "pipe_inv maxR topics canon ((rows s)(canon j \<mapsto> x')) (sent s @ replicate k ms) (written s @ [])"
    by (intro pipe_inv_row [OF inv]) (auto simp: list_all_iff)
  then show ?thesis using F row by simp
qed

lemma consume_inv:
  assumes inv: "pipe_inv maxR topics canon (rows s) (sent s) (written s)"
    and raw: "message_key raw \<in> set (sent s)" and t: "tp_Events topics \<noteq> tp_DLQ topics" and i: "in_int64 maxR"
    and r: "processMessage (NewProcessor c pub (NewProcessEvent repo (Some writer) maxR) topics) raw m s = Returns (m', s')"
  shows "pipe_inv maxR topics canon (rows s') (sent s') (written s')"
proof -
  let ?uc = "NewProcessEvent repo (Some writer) maxR"
  have "sound_message maxR topics canon (rows s) (message_key raw)"
    using inv raw by (auto simp: pipe_inv_def list_all_iff)
  from sound_delivery [OF this i t] obtain j n where
    d: "delivery raw = Some \<lparr>msg_EventID = j, msg_Attempt = n\<rparr>" "valid_utf8 j" "1 \<le> n" "n \<le> max 1 maxR"
      "rows s (canon j) \<noteq> None"
    by blast
  obtain res err s1 where ex: "Process_Execute ?uc \<lparr>msg_EventID = j, msg_Attempt = n\<rparr> s = ((res, err), s1)"
    by (metis prod.collapse)
  note P = processMessage_sent [OF d(1) i ex r]
  show ?thesis
  proof (cases err)
    case None
    with done_inv [OF inv ex [unfolded None]] P show ?thesis by simp
  next
    case (Some e)
    let ?ms = "if n < maxR then event_message (tp_Events topics) j (n + 1) else event_message (tp_DLQ topics) j n"
    obtain k where "sent s' = sent s1 @ replicate k ?ms"
      using P Some by (cases "n < maxR") auto
    with failed_inv [OF inv ex [unfolded Some] d(2-5) refl, of k] P show ?thesis by simp
  qed
qed

end

section \<open>The reachable states\<close>

lemma pipe_step_inv:
  assumes "drivers (sk_db k) tabs pgnow uuid jsonb (sk_writer k) log (sk_conn k) logged"
    and t: "tp_Events (sk_topics k) \<noteq> tp_DLQ (sk_topics k)" and i: "in_int64 (sk_maxRetries k)"
    and inv: "pipe_inv (sk_maxRetries k) (sk_topics k) (pg_canon uuid) (event_at (tabs s)) (map message_key (log s)) (logged s)"
    and step: "pipe k tabs log logged s s'"
  shows "pipe_inv (sk_maxRetries k) (sk_topics k) (pg_canon uuid) (event_at (tabs s')) (map message_key (log s')) (logged s')"
proof -
  note pl = drivers.is_platform [OF assms(1), where now = "sk_now k" and inject = "sk_inject k"]
  show ?thesis using step
  proof (cases rule: pipeE)
    case (ingest newid t inp r)
    then show ?thesis
      using platform.ingest_inv [OF pl inv] by (simp add: stack_ingest_def server_ingest_def)
  next
    case (consume raw m m')
    then have "message_key raw \<in> set (map message_key (log s))" by simp
    from platform.consume_inv [OF pl inv this t i] consume(3) show ?thesis
      by (simp add: stack_processor_def worker_processor_def worker_process_def)
  next
    case (dead raw msg)
    then show ?thesis
      using platform.dead_inv [OF pl inv] by (simp add: stack_dlq_def worker_dlq_def Let_def)
  next
    case other
    with inv show ?thesis by simp
  qed
qed

lemma pipe_reach_inv:
  assumes "drivers (sk_db k) tabs pgnow uuid jsonb (sk_writer k) log (sk_conn k) logged"
    and "tp_Events (sk_topics k) \<noteq> tp_DLQ (sk_topics k)" "in_int64 (sk_maxRetries k)"
    and "pipe_reach k tabs log logged s"
  shows "pipe_inv (sk_maxRetries k) (sk_topics k) (pg_canon uuid) (event_at (tabs s)) (map message_key (log s)) (logged s)"
  using assms(4)
proof (induction rule: pipe_reach.induct)
  case (start s)
  then show ?case by (simp add: pipe_inv_def event_at_def)
next
  case (step s s')
  then show ?case using pipe_step_inv [OF assms(1-3)] by blast
qed

text \<open>
  C1: the invariant of the pipeline. From an empty platform, in whatever order requests, deliveries,
  redeliveries and dead letters are handled and whichever calls of the drivers fail: every message on
  the log is the message of a stored event, on the events topic with an attempt between 1 and
  \<open>maxRetries\<close>, on the dead letter topic with the last attempt; every analytics row is for a stored
  event and carries a status that is not terminal; every stored event has one of the four statuses and
  a retry count that is not negative.
\<close>

theorem pipeline_invariant:
  assumes "drivers (sk_db k) tabs pgnow uuid jsonb (sk_writer k) log (sk_conn k) logged"
    and "tp_Events (sk_topics k) \<noteq> tp_DLQ (sk_topics k)" and "in_int64 (sk_maxRetries k)"
    and "pipe_reach k tabs log logged s"
  shows "pipe_inv (sk_maxRetries k) (sk_topics k) (pg_canon uuid) (event_at (tabs s)) (map message_key (log s)) (logged s)"
  using assms by (rule pipe_reach_inv)

definition demo_stack :: "world stack" where
  "demo_stack = \<lparr>sk_db = world_db, sk_writer = world_writer, sk_inject = id, sk_conn = world_conn,
     sk_now = w_now, sk_reader = world_reader, sk_dlq_reader = world_reader, sk_maxRetries = 3,
     sk_topics = \<lparr>tp_Events = ''events'', tp_DLQ = ''events.dlq''\<rparr>\<rparr>"

lemma demo_reach_ingest:
  "pipe_reach demo_stack w_tabs w_log w_rows (snd (demo_ingest fs))"
proof (rule pipe_reach.step [OF pipe_reach.start])
  have "valid_utf8 demo_id" by code_simp
  then show "pipe demo_stack w_tabs w_log w_rows (demo_world fs) (snd (demo_ingest fs))"
    by (rule pipe.ingest [where r = "fst (demo_ingest fs)"])
      (simp add: stack_ingest_def demo_stack_def)
qed (simp_all add: demo_world_def new_world_def)

theorem pipeline_invariant_witness:
  "pipe_inv 3 \<lparr>tp_Events = ''events'', tp_DLQ = ''events.dlq''\<rparr> (pg_canon world_uuid)
     (event_at (w_tabs (snd (demo_ingest [])))) (map message_key (w_log (snd (demo_ingest [])))) []"
proof -
  have "w_rows (snd (demo_ingest [])) = []" by code_simp
  moreover have "drivers (sk_db demo_stack) w_tabs w_now world_uuid world_jsonb (sk_writer demo_stack) w_log
      (sk_conn demo_stack) w_rows"
    by (simp add: demo_stack_def world.drivers_axioms)
  moreover have "tp_Events (sk_topics demo_stack) \<noteq> tp_DLQ (sk_topics demo_stack)" "in_int64 (sk_maxRetries demo_stack)"
    by (simp_all add: demo_stack_def int64_defs)
  ultimately show ?thesis
    using pipeline_invariant [of demo_stack w_tabs w_now world_uuid world_jsonb w_log w_rows "snd (demo_ingest [])",
        OF _ _ _ demo_reach_ingest]
    by (simp add: demo_stack_def)
qed

end
