(* ===== verification/Http.thy ===== *)
theory Http
  imports HttpClient Json
begin

text \<open>
  The HTTP side without its handlers: \<open>internal/platform/logger\<close>, \<open>internal/app/http/middleware\<close>, the
  error responses of \<open>handler/errors.go\<close> and the probes of \<open>handler/health.go\<close>.

  A handler answers a request with the operations it performs on the \<open>http.ResponseWriter\<close>, in order,
  the log lines that matter here, and the new state; or it panics after some operations. \<open>sent\<close> gives
  the response \<open>net/http\<close> makes of the operations: the first \<open>WriteHeader\<close> decides the status, a \<open>Write\<close>
  before it implies 200, and headers changed afterwards are not sent. The state is the metrics
  registry and whatever else the handlers share.
\<close>

section \<open>platform/logger\<close>

record req_context =
  cx_request_id :: "string option"
  cx_trace_id :: "string option"

definition WithRequestID :: "req_context \<Rightarrow> string \<Rightarrow> req_context" where
  "WithRequestID ctx requestID = ctx\<lparr>cx_request_id := Some requestID\<rparr>"

definition WithTraceID :: "req_context \<Rightarrow> string \<Rightarrow> req_context" where
  "WithTraceID ctx traceID = ctx\<lparr>cx_trace_id := Some traceID\<rparr>"

definition RequestIDFromContext :: "req_context \<Rightarrow> string" where
  "RequestIDFromContext ctx = (case cx_request_id ctx of Some v \<Rightarrow> v | None \<Rightarrow> [])"

definition TraceIDFromContext :: "req_context \<Rightarrow> string" where
  "TraceIDFromContext ctx = (case cx_trace_id ctx of Some v \<Rightarrow> v | None \<Rightarrow> [])"

definition Fields :: "req_context \<Rightarrow> (string \<times> string) list" where
  "Fields ctx =
     (if RequestIDFromContext ctx \<noteq> [] then [(''request_id'', RequestIDFromContext ctx)] else []) @
     (if TraceIDFromContext ctx \<noteq> [] then [(''trace_id'', TraceIDFromContext ctx)] else [])"

text \<open>A logger is its level, its format and the attributes every line carries.\<close>

datatype log_level = LevelDebug | LevelInfo | LevelWarn | LevelError
datatype log_format = TextFormat | JSONFormat

record logger =
  lg_level :: log_level
  lg_format :: log_format
  lg_attrs :: "(string \<times> string) list"

definition New_logger :: "string \<Rightarrow> string \<Rightarrow> logger" where
  "New_logger level format = \<lparr>
     lg_level = (if level = ''debug'' then LevelDebug else if level = ''warn'' then LevelWarn
                 else if level = ''error'' then LevelError else LevelInfo),
     lg_format = (if format = ''text'' then TextFormat else JSONFormat),
     lg_attrs = []\<rparr>"

definition FromContext :: "req_context \<Rightarrow> logger \<Rightarrow> logger" where
  "FromContext ctx base =
     (if Fields ctx = [] then base else base\<lparr>lg_attrs := lg_attrs base @ Fields ctx\<rparr>)"

record log_line =
  ll_level :: log_level
  ll_msg :: string
  ll_attrs :: "(string \<times> string) list"

text \<open>The levels in the order of their numbers; a line is written when its level reaches the handler's.\<close>

fun level_num :: "log_level \<Rightarrow> int" where
  "level_num LevelDebug = - 4"
| "level_num LevelInfo = 0"
| "level_num LevelWarn = 4"
| "level_num LevelError = 8"

lemma level_num_inject [simp]: "level_num a = level_num b \<longleftrightarrow> a = b"
  by (cases a; cases b) simp_all

instantiation log_level :: linorder
begin

definition less_eq_log_level :: "log_level \<Rightarrow> log_level \<Rightarrow> bool" where
  "less_eq_log_level a b \<longleftrightarrow> level_num a \<le> level_num b"

definition less_log_level :: "log_level \<Rightarrow> log_level \<Rightarrow> bool" where
  "less_log_level a b \<longleftrightarrow> level_num a < level_num b"

instance
  by standard (auto simp: less_eq_log_level_def less_log_level_def simp flip: level_num_inject)

end

definition log_at :: "logger \<Rightarrow> log_level \<Rightarrow> string \<Rightarrow> (string \<times> string) list \<Rightarrow> log_line list" where
  "log_at l lvl msg attrs =
     (if lg_level l \<le> lvl
      then [\<lparr>ll_level = lvl, ll_msg = msg, ll_attrs = lg_attrs l @ attrs\<rparr>] else [])"

section \<open>Requests and responses\<close>

text \<open>The body is the bytes a reader delivers and the error after them, \<open>None\<close> for the end of file.\<close>

record http_req =
  hr_method :: string
  hr_path :: string
  hr_query :: string
  hr_headers :: headers
  hr_remote :: string
  hr_body :: string
  hr_body_err :: "go_error option"
  hr_ctx :: req_context

datatype rw_op = SetHeader string string | DelHeader string | WriteHeader int | Write string

record 'z hresult =
  h_ops :: "rw_op list"
  h_panic :: "string option"
  h_logs :: "log_line list"
  h_state :: 'z

type_synonym 's shared = "metrics \<times> 's"
type_synonym 'z handler = "http_req \<Rightarrow> 'z \<Rightarrow> 'z hresult"

definition reply_with :: "rw_op list \<Rightarrow> 'z \<Rightarrow> 'z hresult" where
  "reply_with ops z = \<lparr>h_ops = ops, h_panic = None, h_logs = [], h_state = z\<rparr>"

record response =
  rs_header :: headers
  rs_wrote :: "(int \<times> headers) option"
  rs_body :: string

definition apply_header :: "int \<Rightarrow> response \<Rightarrow> response" where
  "apply_header ecode w = (case rs_wrote w of
      Some _ \<Rightarrow> w | None \<Rightarrow> w\<lparr>rs_wrote := Some (ecode, rs_header w)\<rparr>)"

fun apply_op :: "response \<Rightarrow> rw_op \<Rightarrow> response" where
  "apply_op w (SetHeader k v) = w\<lparr>rs_header := Header_Set k v (rs_header w)\<rparr>"
| "apply_op w (DelHeader k) = w\<lparr>rs_header := (rs_header w)(CanonicalHeaderKey k := None)\<rparr>"
| "apply_op w (WriteHeader ecode) = apply_header ecode w"
| "apply_op w (Write bs) = (let w' = apply_header 200 w in w'\<lparr>rs_body := rs_body w' @ bs\<rparr>)"

definition answer :: "rw_op list \<Rightarrow> response" where
  "answer ops = apply_header 200 (foldl apply_op \<lparr>rs_header = Map.empty, rs_wrote = None, rs_body = []\<rparr> ops)"

definition rs_status :: "response \<Rightarrow> int" where
  "rs_status w = (case rs_wrote w of Some (c, _) \<Rightarrow> c | None \<Rightarrow> 200)"

definition rs_sent_header :: "response \<Rightarrow> string \<Rightarrow> string" where
  "rs_sent_header w k = (case rs_wrote w of Some (_, h) \<Rightarrow> Header_Get k h | None \<Rightarrow> [])"

section \<open>handler/errors.go, handler/health.go\<close>

text \<open>\<open>json.Encoder.Encode\<close> writes the value and a newline.\<close>

definition newline :: string where "newline = [CHR 0x0A]"

definition writeJSON :: "int \<Rightarrow> string \<Rightarrow> rw_op list" where
  "writeJSON status v = [SetHeader ''Content-Type'' ''application/json'', WriteHeader status, Write (v @ newline)]"

definition errorResponse :: "string \<Rightarrow> string \<Rightarrow> string" where
  "errorResponse message ecode = ''{\"error\":'' @ json_string message @
     (if ecode = [] then [] else '',\"code\":'' @ json_string ecode) @ ''}''"

definition respondError :: "int \<Rightarrow> string \<Rightarrow> string \<Rightarrow> rw_op list" where
  "respondError status ecode message = writeJSON status (errorResponse message ecode)"

definition Health :: "'z handler" where
  "Health r z = reply_with (writeJSON 200 ''{\"status\":\"ok\"}'') z"

text \<open>\<open>Ping\<close> with a deadline of 3 s; \<open>json\<close> writes a map in the order of its keys.\<close>

definition ready_timeout :: duration where "ready_timeout = 3 * second"

definition Ready :: "(duration \<Rightarrow> 'z \<Rightarrow> go_error option \<times> 'z) \<Rightarrow> 'z handler" where
  "Ready ping r z = (case ping ready_timeout z of
      (Some err, z') \<Rightarrow> reply_with (writeJSON 503 ''{\"reason\":\"database unreachable\",\"status\":\"unavailable\"}'') z'
    | (None, z') \<Rightarrow> reply_with (writeJSON 200 ''{\"status\":\"ready\"}'') z')"

lemma answer_writeJSON [simp]: "rs_status (answer (writeJSON st v)) = st" "rs_body (answer (writeJSON st v)) = v @ newline"
  by (simp_all add: answer_def writeJSON_def rs_status_def apply_header_def Let_def)

lemma answer_respondError [simp]: "rs_status (answer (respondError st c msg)) = st"
  by (simp add: respondError_def)

lemma canonical_content_type: "CanonicalHeaderKey ''Content-Type'' = ''Content-Type''"
  by code_simp

section \<open>middleware\<close>

text \<open>The first middleware of the list is the outermost.\<close>

definition Chain :: "'h \<Rightarrow> ('h \<Rightarrow> 'h) list \<Rightarrow> 'h" where
  "Chain h middlewares = foldr (\<lambda>m h. m h) middlewares h"

definition RequestID :: "string \<Rightarrow> 'z handler \<Rightarrow> 'z handler" where
  "RequestID newid next r z =
     (let requestID = (if Header_Get ''X-Request-ID'' (hr_headers r) = [] then newid
                       else Header_Get ''X-Request-ID'' (hr_headers r));
          res = next (r\<lparr>hr_ctx := WithRequestID (hr_ctx r) requestID\<rparr>) z
      in res\<lparr>h_ops := SetHeader ''X-Request-ID'' requestID # h_ops res\<rparr>)"

text \<open>
  \<open>responseWriter\<close> records the status of every \<open>WriteHeader\<close> that goes through it, the last one
  counting; \<open>Write\<close> is the embedded writer's.
\<close>

definition logged_status :: "rw_op list \<Rightarrow> int" where
  "logged_status = foldl (\<lambda>st op. case op of WriteHeader c \<Rightarrow> c | _ \<Rightarrow> st) 200"

text \<open>
  \<open>trace\<close> is the trace id of a valid span in the context, \<open>latency\<close> the text of the duration, \<open>has_metrics\<close>
  whether the metrics pointer is not nil. What follows \<open>next.ServeHTTP\<close> does not run if it panics. The
  client library's \<open>WithLabelValues\<close> panics when a label value is not valid UTF-8; \<open>label_error\<close> is the
  text of its error for a list of labels. The labels of the second instrument are among those of the
  first, so its call does not panic where the first returned.
\<close>

definition Logger ::
  "logger \<Rightarrow> bool \<Rightarrow> (string list \<Rightarrow> string) \<Rightarrow> string option \<Rightarrow> string \<Rightarrow> 's shared handler \<Rightarrow> 's shared handler" where
  "Logger base has_metrics label_error trace latency next r z =
     (let ctx = (case trace of None \<Rightarrow> hr_ctx r | Some t \<Rightarrow> WithTraceID (hr_ctx r) t);
          res = next (r\<lparr>hr_ctx := ctx\<rparr>) z
      in if h_panic res \<noteq> None then res
         else
           (let status = Itoa (logged_status (h_ops res));
                line = log_at (FromContext ctx base) LevelInfo ''request''
                  [(''method'', hr_method r), (''path'', hr_path r), (''status'', status),
                   (''latency'', latency), (''remote_addr'', hr_remote r)];
                labels = [hr_method r, hr_path r, status];
                (m, s) = h_state res
            in if \<not> has_metrics then res\<lparr>h_logs := h_logs res @ line\<rparr>
               else if \<not> list_all valid_utf8 labels
                 then res\<lparr>h_logs := h_logs res @ line, h_panic := Some (label_error labels)\<rparr>
               else res\<lparr>h_logs := h_logs res @ line,
                 h_state := (m\<lparr>HTTPRequestsTotal := Inc labels (HTTPRequestsTotal m),
                   HTTPRequestDuration := Inc [hr_method r, hr_path r] (HTTPRequestDuration m)\<rparr>, s)\<rparr>))"

definition http_Error :: "string \<Rightarrow> int \<Rightarrow> rw_op list" where
  "http_Error msg ecode = [DelHeader ''Content-Length'', SetHeader ''Content-Type'' ''text/plain; charset=utf-8'',
     SetHeader ''X-Content-Type-Options'' ''nosniff'', WriteHeader ecode, Write (msg @ newline)]"

text \<open>\<open>stack\<close> is the text of the stack trace.\<close>

definition Recover :: "logger \<Rightarrow> string \<Rightarrow> 'z handler \<Rightarrow> 'z handler" where
  "Recover base stack next r z =
     (let res = next r z
      in case h_panic res of
           None \<Rightarrow> res
         | Some p \<Rightarrow> res\<lparr>h_panic := None,
             h_logs := h_logs res @ log_at (FromContext (hr_ctx r) base) LevelError ''panic recovered''
               [(''panic'', p), (''path'', hr_path r), (''stack'', stack)],
             h_ops := h_ops res @ SetHeader ''Content-Type'' ''application/json'' #
               http_Error ''{\"error\":\"internal http error\"}'' 500\<rparr>)"

text \<open>\<open>http.MaxBytesReader\<close>: the bytes up to the limit, then an error if there was more.\<close>

fun limit_bytes :: "int \<Rightarrow> string \<Rightarrow> string" where
  "limit_bytes n [] = []"
| "limit_bytes n (c # r) = (if n \<le> 0 then [] else c # limit_bytes (n - 1) r)"

definition MaxBodySize :: "int \<Rightarrow> 'z handler \<Rightarrow> 'z handler" where
  "MaxBodySize maxBytes next r z =
     next (r\<lparr>hr_body := limit_bytes maxBytes (hr_body r),
             hr_body_err := (if maxBytes < int (length (hr_body r))
               then Some (ErrText ''http: request body too large'') else hr_body_err r)\<rparr>) z"

lemma ascii_valid_utf8: "list_all (\<lambda>c. code c < 128) s \<Longrightarrow> valid_utf8 s"
  by (induction s) (simp_all add: valid_utf8.simps rune_len_def)

lemma Itoa_valid_utf8 [simp]: "valid_utf8 (Itoa n)"
proof -
  have "list_all (\<lambda>c. code c < 128) (dec_digits n)" for n
    using dec_digits_digs [of n] by (auto simp: list_all_iff is_dig_def in_range_def)
  then show ?thesis by (auto simp: Itoa_def intro: ascii_valid_utf8)
qed

lemma limit_bytes_take: "limit_bytes n s = take (nat n) s"
proof (induction s arbitrary: n)
  case (Cons c s)
  show ?case
    by (cases "n \<le> 0") (simp_all add: Cons.IH Suc_nat_eq_nat_zadd1 take_Cons' nat_diff_distrib')
qed simp

end
