(* ===== verification/Webhook.thy ===== *)
theory Webhook
  imports Ingest Http
begin

text \<open>
  \<open>internal/app/http/handler/webhook.go\<close>: the webhook endpoint. \<open>HandleEvent\<close> is in two parts, up to and
  including the lookup of the idempotency key, and from the use case on: two requests with the same key
  can interleave between them. Spans and log lines are left out.
\<close>

record webhookRequest =
  wr_IdempotencyKey :: string
  wr_Source :: string
  wr_EventType :: string
  wr_Payload :: string

definition missing_fields :: "webhookRequest \<Rightarrow> string list" where
  "missing_fields r =
     (if TrimSpace (wr_IdempotencyKey r) = [] then [''idempotency_key''] else []) @
     (if TrimSpace (wr_Source r) = [] then [''source''] else []) @
     (if TrimSpace (wr_EventType r) = [] then [''event_type''] else []) @
     (if wr_Payload r = [] \<or> wr_Payload r = ''null'' then [''payload''] else [])"

definition validate :: "webhookRequest \<Rightarrow> go_error option" where
  "validate r = (if missing_fields r \<noteq> []
     then Some (ErrText (''missing required fields: '' @ Join (missing_fields r) '', '')) else None)"

text \<open>
  \<open>json.NewDecoder(r.Body).Decode(&req)\<close>: the decoder reads one value and stops; what follows it in
  the body is not looked at. An error of the body counts only if the value needs more bytes: an
  object ends with its brace, \<open>null\<close> only with what follows it. \<open>json.RawMessage\<close> keeps the text of the
  member's value.
\<close>

definition request_member :: "string \<times> string \<Rightarrow> webhookRequest \<Rightarrow> webhookRequest option" where
  "request_member m r =
     (if key_matches (fst m) ''idempotency_key'' then
        map_option (\<lambda>v. r\<lparr>wr_IdempotencyKey := v\<rparr>) (string_field (snd m) (wr_IdempotencyKey r))
      else if key_matches (fst m) ''source'' then
        map_option (\<lambda>v. r\<lparr>wr_Source := v\<rparr>) (string_field (snd m) (wr_Source r))
      else if key_matches (fst m) ''event_type'' then
        map_option (\<lambda>v. r\<lparr>wr_EventType := v\<rparr>) (string_field (snd m) (wr_EventType r))
      else if key_matches (fst m) ''payload'' then Some (r\<lparr>wr_Payload := snd m\<rparr>)
      else Some r)"

definition decode_request :: "string \<Rightarrow> go_error option \<Rightarrow> webhookRequest option" where
  "decode_request body err =
     (let zero = \<lparr>wr_IdempotencyKey = [], wr_Source = [], wr_EventType = [], wr_Payload = []\<rparr>
      in case top_value body of
           None \<Rightarrow> None
         | Some (TopObject ms, rest) \<Rightarrow> decode_members request_member ms zero
         | Some (TopNull, rest) \<Rightarrow> if rest = [] \<and> err \<noteq> None then None else Some zero
         | Some (TopOther, rest) \<Rightarrow> None)"

text \<open>\<open>webhookResponse\<close> as \<open>json.Marshal\<close> writes it; the trace id is left out when empty.\<close>

definition webhookResponse :: "string \<Rightarrow> string \<Rightarrow> string" where
  "webhookResponse eventID traceID = ''{\"event_id\":'' @ json_string eventID @
     (if traceID = [] then [] else '',\"trace_id\":'' @ json_string traceID) @ ''}''"

record 's WebhookHandler =
  wh_ingestEvent :: "'s IngestEvent"
  wh_idem :: "'s idempotency_store"
  wh_idemTTL :: duration

definition NewWebhookHandler :: "'s IngestEvent \<Rightarrow> 's idempotency_store \<Rightarrow> duration \<Rightarrow> 's WebhookHandler" where
  "NewWebhookHandler uc idem ttl = \<lparr>wh_ingestEvent = uc, wh_idem = idem, wh_idemTTL = ttl\<rparr>"

text \<open>
  What a request reads from outside: the fresh event id, the time the event is created, the time the
  expiry is computed from, the id of the current trace (32 zeros when tracing is off).
\<close>

record request_env =
  re_newid :: string
  re_created :: time
  re_now :: time
  re_trace :: string

text \<open>The first part: an answer, or a request to ingest.\<close>

datatype checked = Answered "rw_op list" | Proceed webhookRequest

definition replay :: "Entry \<Rightarrow> rw_op list" where
  "replay e = [SetHeader ''Content-Type'' ''application/json'', SetHeader ''X-Idempotent-Replayed'' ''true'',
     WriteHeader 200, Write (en_Response e)]"

definition check_request :: "'s WebhookHandler \<Rightarrow> http_req \<Rightarrow> 's shared \<Rightarrow> checked \<times> 's shared" where
  "check_request h r = (\<lambda>(m, s).
     if \<not> HasPrefix (Header_Get ''Content-Type'' (hr_headers r)) ''application/json''
     then (Answered (respondError 415 ''INVALID_CONTENT_TYPE'' ''Content-Type must be application/json''), m, s)
     else case decode_request (hr_body r) (hr_body_err r) of
       None \<Rightarrow> (Answered (respondError 400 ''INVALID_JSON'' ''request body is not valid JSON''), m, s)
     | Some req \<Rightarrow> (case validate req of
         Some err \<Rightarrow> (Answered (respondError 422 ''VALIDATION_ERROR'' (Error err)), m, s)
       | None \<Rightarrow> (case Get (wh_idem h) (wr_IdempotencyKey req) s of
           (Inl err, s1) \<Rightarrow> (Answered (respondError 500 ''INTERNAL_ERROR'' ''failed to process request''), m, s1)
         | (Inr (Some e), s1) \<Rightarrow>
             (Answered (replay e), m\<lparr>EventsDuplicateTotal := Suc (EventsDuplicateTotal m)\<rparr>, s1)
         | (Inr None, s1) \<Rightarrow> (Proceed req, m, s1))))"

text \<open>The second part.\<close>

definition ingest_input :: "webhookRequest \<Rightarrow> IngestEventInput" where
  "ingest_input req = \<lparr>in_IdempotencyKey = wr_IdempotencyKey req, in_Source = wr_Source req,
     in_EventType = wr_EventType req, in_Payload = wr_Payload req\<rparr>"

definition ingest_request ::
  "'s WebhookHandler \<Rightarrow> request_env \<Rightarrow> webhookRequest \<Rightarrow> 's shared \<Rightarrow> rw_op list \<times> 's shared" where
  "ingest_request h env req = (\<lambda>(m, s).
     case Ingest_Execute (wh_ingestEvent h) (re_newid env) (re_created env) (ingest_input req) s of
       (Inl err, s1) \<Rightarrow> (respondError 500 ''INTERNAL_ERROR'' ''failed to process request'', m, s1)
     | (Inr out, s1) \<Rightarrow>
         (let resp = webhookResponse (out_EventID out) (re_trace env);
              entry = \<lparr>en_EventID = out_EventID out, en_Response = resp,
                       en_ExpiresAt = TTL (re_now env) (wh_idemTTL h)\<rparr>;
              (_, s2) = Set (wh_idem h) (wr_IdempotencyKey req) entry s1
          in (writeJSON 202 resp,
              m\<lparr>EventsProcessedTotal := Inc [wr_Source req, ''accepted''] (EventsProcessedTotal m)\<rparr>, s2)))"

definition HandleEvent :: "'s WebhookHandler \<Rightarrow> request_env \<Rightarrow> 's shared handler" where
  "HandleEvent h env r z = (case check_request h r z of
      (Answered ops, z1) \<Rightarrow> reply_with ops z1
    | (Proceed req, z1) \<Rightarrow> (case ingest_request h env req z1 of (ops, z2) \<Rightarrow> reply_with ops z2))"

section \<open>Answers\<close>

lemma canonical_replayed: "CanonicalHeaderKey ''X-Idempotent-Replayed'' = ''X-Idempotent-Replayed''"
  by code_simp

lemma answer_replay [simp]:
  "rs_status (answer (replay e)) = 200" "rs_body (answer (replay e)) = en_Response e"
  "rs_sent_header (answer (replay e)) ''X-Idempotent-Replayed'' = ''true''"
  by (simp_all add: answer_def replay_def rs_status_def rs_sent_header_def apply_header_def Header_Set_def
      Header_Get_def canonical_replayed Let_def)

lemma replayed_writeJSON [simp]:
  "rs_sent_header (answer (writeJSON st v)) ''X-Idempotent-Replayed'' = []"
  by (simp add: answer_def writeJSON_def rs_sent_header_def apply_header_def Header_Set_def
      Header_Get_def canonical_replayed canonical_content_type Let_def)

lemma replayed_respondError [simp]:
  "rs_sent_header (answer (respondError st c msg)) ''X-Idempotent-Replayed'' = []"
  by (simp add: respondError_def)

text \<open>A request that never reaches the stores.\<close>

definition malformed :: "http_req \<Rightarrow> bool" where
  "malformed r \<longleftrightarrow> \<not> HasPrefix (Header_Get ''Content-Type'' (hr_headers r)) ''application/json'' \<or>
     (case decode_request (hr_body r) (hr_body_err r) of None \<Rightarrow> True | Some req \<Rightarrow> missing_fields req \<noteq> [])"

lemma ingest_request_status:
  "rs_status (answer (fst (ingest_request h env req z))) \<in> {202, 500}"
  by (auto simp: ingest_request_def Let_def split: prod.splits sum.splits)

lemma check_request_status:
  assumes "check_request h r z = (Answered ops, z1)" "\<not> malformed r"
  shows "rs_status (answer ops) \<in> {200, 500}"
  using assms
  by (cases z) (auto simp: check_request_def malformed_def validate_def
      split: if_splits option.splits prod.splits sum.splits)

text \<open>
  C20: the answer to every request. It never panics. A request whose content type does not start with
  \<open>application/json\<close> gets 415; any other whose body does not decode gets 400; any other that lacks its
  key, source or event type (blank counts as absent) or its payload (\<open>null\<close> counts as absent) gets 422;
  these touch neither a store nor the queue nor a counter. For any other request the lookup of its key
  decides: 500 if it fails; 200 with the stored response and one more duplicate if it finds an
  entry; and if it finds none, the insert of the new event: 500 if the insert reports an error, and then
  nothing else happens, 202 with the id of the event if it reports none, whatever the publish and the store
  of the key report. The header that marks a replay is on the answers 200 and on no others.
\<close>

theorem webhook_status:
  "let h = NewWebhookHandler (NewIngestEvent repo pub topic) store ttl;
      res = HandleEvent h env r (m, s); ans = answer (h_ops res)
    in h_panic res = None \<and>
      (rs_status ans = 200 \<longleftrightarrow> rs_sent_header ans ''X-Idempotent-Replayed'' = ''true'') \<and>
      (if \<not> HasPrefix (Header_Get ''Content-Type'' (hr_headers r)) ''application/json''
       then rs_status ans = 415 \<and> h_state res = (m, s)
       else case decode_request (hr_body r) (hr_body_err r) of
         None \<Rightarrow> rs_status ans = 400 \<and> h_state res = (m, s)
       | Some req \<Rightarrow>
           if TrimSpace (wr_IdempotencyKey req) = [] \<or> TrimSpace (wr_Source req) = [] \<or>
              TrimSpace (wr_EventType req) = [] \<or> wr_Payload req = [] \<or> wr_Payload req = ''null''
           then rs_status ans = 422 \<and> h_state res = (m, s)
           else case Get store (wr_IdempotencyKey req) s of
             (Inl err, s1) \<Rightarrow> rs_status ans = 500 \<and> h_state res = (m, s1)
           | (Inr (Some e), s1) \<Rightarrow> rs_status ans = 200 \<and> rs_body ans = en_Response e \<and>
               h_state res = (m\<lparr>EventsDuplicateTotal := Suc (EventsDuplicateTotal m)\<rparr>, s1)
           | (Inr None, s1) \<Rightarrow>
               (case Insert repo (new_event (re_newid env) (re_created env) (ingest_input req)) s1 of
                  (Some err, s2) \<Rightarrow> rs_status ans = 500 \<and> h_state res = (m, s2)
                | (None, s2) \<Rightarrow> rs_status ans = 202 \<and>
                    rs_body ans = webhookResponse (re_newid env) (re_trace env) @ newline))"
proof -
  let ?h = "NewWebhookHandler (NewIngestEvent repo pub topic) store ttl"
  have v: "validate req = None \<longleftrightarrow> \<not> (TrimSpace (wr_IdempotencyKey req) = [] \<or> TrimSpace (wr_Source req) = [] \<or>
      TrimSpace (wr_EventType req) = [] \<or> wr_Payload req = [] \<or> wr_Payload req = ''null'')" for req
    by (simp add: validate_def missing_fields_def)
  have i: "case Insert repo (new_event (re_newid env) (re_created env) (ingest_input req)) s1 of
      (Some err, s2) \<Rightarrow> ingest_request ?h env req (m, s1) =
        (respondError 500 ''INTERNAL_ERROR'' ''failed to process request'', m, s2)
    | (None, s2) \<Rightarrow> fst (ingest_request ?h env req (m, s1)) =
        writeJSON 202 (webhookResponse (re_newid env) (re_trace env))" for req s1
    by (simp add: ingest_request_def NewWebhookHandler_def Ingest_Execute_def NewIngestEvent_def Let_def
        new_event_def split: prod.split option.split)
  have st: "wh_idem ?h = store" by (simp add: NewWebhookHandler_def)
  show ?thesis
  proof (cases "HasPrefix (Header_Get ''Content-Type'' (hr_headers r)) ''application/json''")
    case False
    then have "HandleEvent ?h env r (m, s) = reply_with (respondError 415 ''INVALID_CONTENT_TYPE''
        ''Content-Type must be application/json'') (m, s)"
      by (simp add: HandleEvent_def check_request_def)
    with False show ?thesis by (simp add: Let_def reply_with_def)
  next
    case json: True
    show ?thesis
    proof (cases "decode_request (hr_body r) (hr_body_err r)")
      case None
      with json have "HandleEvent ?h env r (m, s) = reply_with (respondError 400 ''INVALID_JSON''
          ''request body is not valid JSON'') (m, s)"
        by (simp add: HandleEvent_def check_request_def)
      with None json show ?thesis by (simp add: Let_def reply_with_def)
    next
      case req: (Some req)
      show ?thesis
      proof (cases "validate req")
        case (Some err)
        with json req have "HandleEvent ?h env r (m, s) = reply_with (respondError 422 ''VALIDATION_ERROR''
            (Error err)) (m, s)"
          by (simp add: HandleEvent_def check_request_def)
        with Some json req v [of req] show ?thesis by (simp add: Let_def reply_with_def)
      next
        case None
        obtain g s1 where g: "Get store (wr_IdempotencyKey req) s = (g, s1)" by (metis prod.collapse)
        have e: "HandleEvent ?h env r (m, s) = (case g of
            Inl err \<Rightarrow> reply_with (respondError 500 ''INTERNAL_ERROR'' ''failed to process request'') (m, s1)
          | Inr (Some e) \<Rightarrow> reply_with (replay e) (m\<lparr>EventsDuplicateTotal := Suc (EventsDuplicateTotal m)\<rparr>, s1)
          | Inr None \<Rightarrow> (case ingest_request ?h env req (m, s1) of (ops, z2) \<Rightarrow> reply_with ops z2))"
          using json req None g st by (simp add: HandleEvent_def check_request_def split: sum.split option.split)
        obtain x s2 where x: "Insert repo (new_event (re_newid env) (re_created env) (ingest_input req)) s1 = (x, s2)"
          by (metis prod.collapse)
        show ?thesis
          using json req None v [of req] g x i [of req s1] unfolding e Let_def
          by (cases x) (auto simp: reply_with_def split: sum.splits option.splits prod.splits)
      qed
    qed
  qed
qed

section \<open>Over the platform\<close>

context platform
begin

lemma check_state:
  assumes "check_request (NewWebhookHandler uc store ttl) r (m, s) = (c, (m', s'))"
  shows "rows s' = rows s \<and> sent s' = sent s \<and> written s' = written s \<and> entries s' = entries s"
proof -
  have "s' = s \<or> (\<exists>k. s' = snd (Get store k s))"
    using assms by (auto simp: check_request_def NewWebhookHandler_def
        split: if_splits option.splits prod.splits sum.splits) (metis snd_conv)+
  then show ?thesis by auto
qed

lemma check_replays:
  assumes "check_request (NewWebhookHandler uc store ttl) r (m, s) = (Answered ops, (m', s'))"
    and "rs_status (answer ops) = 200"
  shows "\<exists>req e. decode_request (hr_body r) (hr_body_err r) = Some req \<and>
    entries s (wr_IdempotencyKey req) = Some e \<and> clock s \<le> en_ExpiresAt e \<and> ops = replay e \<and>
    m' = m\<lparr>EventsDuplicateTotal := Suc (EventsDuplicateTotal m)\<rparr>"
  using assms
  by (auto simp: check_request_def NewWebhookHandler_def
      split: if_splits option.splits prod.splits sum.splits dest: store.get_some)

lemma check_proceeds:
  assumes "check_request (NewWebhookHandler uc store ttl) r (m, s) = (Proceed req, (m', s'))"
  shows "decode_request (hr_body r) (hr_body_err r) = Some req \<and> missing_fields req = [] \<and> m' = m \<and>
    (case entries s (wr_IdempotencyKey req) of None \<Rightarrow> True | Some e \<Rightarrow> en_ExpiresAt e \<le> clock s)"
  using assms
  by (auto simp: check_request_def NewWebhookHandler_def validate_def
      split: if_splits option.splits prod.splits sum.splits dest: store.get_none)

lemma ingest_request_accepts:
  assumes "ingest_request (NewWebhookHandler (NewIngestEvent repo (Some pub) topic) store ttl) env req (m, s) = (ops, (m', s'))"
    and "rs_status (answer ops) = 202"
  shows "ops = writeJSON 202 (webhookResponse (re_newid env) (re_trace env)) \<and>
    rows s (canon (re_newid env)) = None \<and>
    rows s' = (rows s)(canon (re_newid env) \<mapsto> stored (new_event (re_newid env) (re_created env) (ingest_input req))) \<and>
    (\<exists>n. sent s' = sent s @ replicate n (event_message topic (re_newid env) 1)) \<and>
    written s' = written s \<and>
    (entries s' = entries s \<or> entries s (keyed (wr_IdempotencyKey req)) = None \<and>
     entries s' = (entries s)(keyed (wr_IdempotencyKey req) \<mapsto>
       kept \<lparr>en_EventID = re_newid env, en_Response = webhookResponse (re_newid env) (re_trace env),
             en_ExpiresAt = TTL (re_now env) ttl\<rparr>)) \<and>
    m' = m\<lparr>EventsProcessedTotal := Inc [wr_Source req, ''accepted''] (EventsProcessedTotal m)\<rparr>"
proof -
  let ?uc = "NewIngestEvent repo (Some pub) topic"
  let ?e = "\<lparr>en_EventID = re_newid env, en_Response = webhookResponse (re_newid env) (re_trace env),
             en_ExpiresAt = TTL (re_now env) ttl\<rparr>"
  obtain out s1 where x: "Ingest_Execute ?uc (re_newid env) (re_created env) (ingest_input req) s = (Inr out, s1)"
    using assms by (auto simp: ingest_request_def NewWebhookHandler_def split: prod.splits sum.splits)
  note I = Ingest_ok [OF x]
  then have id: "out_EventID out = re_newid env" by simp
  have s': "s' = snd (Set store (wr_IdempotencyKey req) ?e s1)"
    and ops: "ops = writeJSON 202 (webhookResponse (re_newid env) (re_trace env))"
    and m': "m' = m\<lparr>EventsProcessedTotal := Inc [wr_Source req, ''accepted''] (EventsProcessedTotal m)\<rparr>"
    using assms x id by (auto simp: ingest_request_def NewWebhookHandler_def Let_def split: prod.splits)
  have "rows s' = rows s1" "sent s' = sent s1" "written s' = written s1"
    using s' by simp_all
  then show ?thesis
    using I ops m' store.set_entries [of "wr_IdempotencyKey req" ?e s1] s' by simp
qed

lemma ingest_request_fails:
  assumes "ingest_request (NewWebhookHandler (NewIngestEvent repo (Some pub) topic) store ttl) env req (m, s) = (ops, (m', s'))"
    and "rs_status (answer ops) \<noteq> 202"
  shows "sent s' = sent s \<and> written s' = written s \<and> entries s' = entries s \<and> m' = m \<and>
    (rows s' = rows s \<or> rows s (canon (re_newid env)) = None \<and>
      rows s' = (rows s)(canon (re_newid env) \<mapsto> stored (new_event (re_newid env) (re_created env) (ingest_input req))))"
  using assms
  by (auto simp: ingest_request_def NewWebhookHandler_def Let_def split: prod.splits sum.splits
      dest!: Ingest_err)

end

text \<open>\<open>HandleEvent\<close> is the two parts.\<close>

lemma HandleEvent_parts:
  assumes "HandleEvent h env r z = res"
  obtains ops z1 where "check_request h r z = (Answered ops, z1)" "res = reply_with ops z1"
  | req z1 ops z2 where "check_request h r z = (Proceed req, z1)" "ingest_request h env req z1 = (ops, z2)"
      "res = reply_with ops z2"
  using assms by (auto simp: HandleEvent_def split: prod.splits checked.splits)

section \<open>Properties of the stack\<close>

definition server_webhook ::
  "'s pg_driver \<Rightarrow> 's kafka_writer \<Rightarrow> (HeaderCarrier \<Rightarrow> HeaderCarrier) \<Rightarrow> ('s \<Rightarrow> time) \<Rightarrow> string
     \<Rightarrow> duration \<Rightarrow> 's WebhookHandler" where
  "server_webhook db w tr now topic ttl =
     NewWebhookHandler (server_ingest db w tr now topic) (NewIdempotencyStore db) ttl"

lemma server_webhook_eq:
  "server_webhook db w tr now topic ttl = NewWebhookHandler
     (NewIngestEvent (NewEventRepository db now) (Some (NewProducer w tr now)) topic) (NewIdempotencyStore db) ttl"
  by (simp add: server_webhook_def server_ingest_def)

text \<open>
  C4: a duplicate is absorbed. A well-formed request whose key has an entry that has not expired is
  never ingested: it is answered with 200 or, when the lookup fails, 500; with 200 the body is the
  stored response and the duplicate counter goes up by one; event table, queue, keys and analytics rows are
  untouched either way.
\<close>

theorem webhook_absorbs_duplicate:
  assumes "drivers db tabs pgnow uuid jsonb w log conn logged"
    and "decode_request (hr_body r) (hr_body_err r) = Some req" and "\<not> malformed r"
    and "key_live (idempotency_keys (tabs s)) (pgnow s) (wr_IdempotencyKey req) = Some e"
    and "HandleEvent (server_webhook db w tr now topic ttl) env r (m, s) = res"
    and "h_state res = (m', s')"
  shows "event_at (tabs s') = event_at (tabs s) \<and> map message_key (log s') = map message_key (log s) \<and>
    map_of (idempotency_keys (tabs s')) = map_of (idempotency_keys (tabs s)) \<and> logged s' = logged s \<and>
    (rs_status (answer (h_ops res)) = 500 \<or>
     rs_status (answer (h_ops res)) = 200 \<and> rs_body (answer (h_ops res)) = en_Response e \<and>
     EventsDuplicateTotal m' = Suc (EventsDuplicateTotal m))"
proof -
  note pl = drivers.is_platform [OF assms(1), where now = now and inject = tr]
  have live: "map_of (idempotency_keys (tabs s)) (wr_IdempotencyKey req) = Some e" "pgnow s < en_ExpiresAt e"
    using assms(4) by (auto simp: key_live_def split: option.splits if_splits)
  show ?thesis using assms(5)
  proof (cases rule: HandleEvent_parts)
    case (1 ops z1)
    then have c: "check_request (server_webhook db w tr now topic ttl) r (m, s) = (Answered ops, (m', s'))"
      using assms(6) by (simp add: reply_with_def)
    have "rs_status (answer ops) \<in> {200, 500}"
      using check_request_status [OF 1(1) assms(3)] .
    then show ?thesis
      using platform.check_state [OF pl c [unfolded server_webhook_eq]]
        platform.check_replays [OF pl c [unfolded server_webhook_eq]] 1 live assms(2)
      by (auto simp: reply_with_def)
  next
    case (2 req' z1 ops z2)
    obtain m1 s1 where "z1 = (m1, s1)" by (metis prod.collapse)
    from platform.check_proceeds [OF pl 2(1) [unfolded server_webhook_eq this]] live assms(2)
    show ?thesis by simp
  qed
qed

definition demo_request :: http_req where
  "demo_request = \<lparr>hr_method = ''POST'', hr_path = ''/webhooks/events'', hr_query = [],
     hr_headers = Header_Set ''Content-Type'' ''application/json'' Map.empty, hr_remote = ''10.0.0.1:5000'',
     hr_body = ''{\"idempotency_key\":\"k1\",\"source\":\"shopify\",\"event_type\":\"t\",\"payload\":{}}'',
     hr_body_err = None, hr_ctx = \<lparr>cx_request_id = None, cx_trace_id = None\<rparr>\<rparr>"

definition demo_parsed :: webhookRequest where
  "demo_parsed = \<lparr>wr_IdempotencyKey = ''k1'', wr_Source = ''shopify'', wr_EventType = ''t'', wr_Payload = ''{}''\<rparr>"

lemma demo_decodes: "decode_request (hr_body demo_request) (hr_body_err demo_request) = Some demo_parsed"
  by code_simp

lemma demo_json: "HasPrefix (Header_Get ''Content-Type'' (hr_headers demo_request)) ''application/json''"
  and demo_valid: "missing_fields demo_parsed = []"
  by code_simp+

lemma demo_well_formed: "\<not> malformed demo_request"
  by (simp add: malformed_def demo_json demo_decodes demo_valid)

definition demo_env :: request_env where
  "demo_env = \<lparr>re_newid = demo_id, re_created = 1700000000000000000, re_now = 1700000000000000000,
     re_trace = ''00000000000000000000000000000000''\<rparr>"

abbreviation demo_handle :: "time \<Rightarrow> world \<Rightarrow> world shared hresult" where
  "demo_handle ttl s \<equiv>
     HandleEvent (server_webhook world_db world_writer id w_now ''events'' ttl) demo_env demo_request (new_metrics, s)"

lemma demo_lookup:
  assumes "idempotency_keys (w_tabs s) = []" "next_fault s = (Fine, s')" "idempotency_keys (w_tabs s') = []"
  shows "check_request (server_webhook world_db world_writer id w_now topic ttl) demo_request (m, s) =
     (Proceed demo_parsed, (m, s'))"
proof -
  have "Get (NewIdempotencyStore world_db) (wr_IdempotencyKey demo_parsed) s = (Inr None, s')"
    by (simp add: NewIdempotencyStore_def pg_Get_def world_db_def world_read_def world_key_def key_live_def assms)
  then show ?thesis
    by (simp add: check_request_def server_webhook_def NewWebhookHandler_def demo_decodes demo_json validate_def
        demo_valid)
qed

lemma demo_proceeds:
  "check_request (server_webhook world_db world_writer id w_now topic ttl) demo_request (m, demo_world []) =
     (Proceed demo_parsed, (m, demo_world []))"
  by (rule demo_lookup) (simp_all add: demo_world_def new_world_def next_fault_def)

text \<open>The world after the request has been ingested.\<close>

definition demo_after :: world where
  "demo_after = (demo_world [])\<lparr>
     w_tabs := \<lparr>webhook_events = [new_event demo_id 1700000000000000000 (ingest_input demo_parsed)],
       idempotency_keys = [(''k1'', \<lparr>en_EventID = demo_id,
         en_Response = webhookResponse demo_id (re_trace demo_env), en_ExpiresAt = 1700003600000000000\<rparr>)]\<rparr>,
     w_log := [outgoing id 1700000000123456789 ''events'' demo_id
       (projr (MarshalEventMessage \<lparr>msg_EventID = demo_id, msg_Attempt = 1\<rparr>))]\<rparr>"

abbreviation demo_ingest_request :: "string \<Rightarrow> world shared \<Rightarrow> rw_op list \<times> world shared" where
  "demo_ingest_request i \<equiv> ingest_request (server_webhook world_db world_writer id w_now ''events'' hour)
     (demo_env\<lparr>re_newid := i\<rparr>) demo_parsed"

lemma demo_first_ingest:
  "rs_status (answer (fst (demo_ingest_request demo_id (new_metrics, demo_world [])))) = 202"
  "snd (snd (demo_ingest_request demo_id (new_metrics, demo_world []))) = demo_after"
  by code_simp+

text \<open>A world whose store holds an entry under the key of the request, with the expiry given.\<close>

definition world_keyed :: "time \<Rightarrow> world" where
  "world_keyed expires = (world_with ''processed'' [])\<lparr>w_tabs := \<lparr>webhook_events = [demo_event ''processed''],
     idempotency_keys = [(''k1'', \<lparr>en_EventID = demo_id, en_Response = ''{}'', en_ExpiresAt = expires\<rparr>)]\<rparr>\<rparr>"

theorem webhook_absorbs_duplicate_witness:
  "map message_key (w_log (snd (h_state (demo_handle hour (world_keyed 1800000000000000000))))) = []"
proof -
  let ?s = "world_keyed 1800000000000000000"
  have l: "key_live (idempotency_keys (w_tabs ?s)) (w_now ?s) (wr_IdempotencyKey demo_parsed) =
      Some \<lparr>en_EventID = demo_id, en_Response = ''{}'', en_ExpiresAt = 1800000000000000000\<rparr>"
    by code_simp
  have "w_log ?s = []" by code_simp
  then show ?thesis
    using webhook_absorbs_duplicate [OF world.drivers_axioms demo_decodes demo_well_formed l refl
        surjective_pairing]
    by simp
qed

text \<open>
  C5: an accepted request. With 202 the body is the response with the fresh id, the row is there, pending
  and new, at most its message is queued, and the key had no live entry; the store gains the entry
  (id, the same response, expiry one TTL from now) under the key or, when the key has an old entry or
  the write fails, nothing; the accepted counter of the source goes up by one.
\<close>

theorem webhook_accepts:
  assumes "drivers db tabs pgnow uuid jsonb w log conn logged"
    and "HandleEvent (server_webhook db w tr now topic ttl) env r (m, s) = res"
    and "h_state res = (m', s')" and "rs_status (answer (h_ops res)) = 202"
    and "decode_request (hr_body r) (hr_body_err r) = Some req"
  shows "let resp = webhookResponse (re_newid env) (re_trace env); key = wr_IdempotencyKey req in
    rs_body (answer (h_ops res)) = resp @ newline \<and> missing_fields req = [] \<and>
    (case map_of (idempotency_keys (tabs s)) key of None \<Rightarrow> True | Some e \<Rightarrow> en_ExpiresAt e \<le> pgnow s) \<and>
    event_at (tabs s) (pg_canon uuid (re_newid env)) = None \<and>
    event_at (tabs s') = (event_at (tabs s))(pg_canon uuid (re_newid env) \<mapsto>
      pg_stored uuid jsonb (new_event (re_newid env) (re_created env) (ingest_input req))) \<and>
    (\<exists>n. map message_key (log s') = map message_key (log s) @ replicate n (event_message topic (re_newid env) 1)) \<and>
    logged s' = logged s \<and>
    (map_of (idempotency_keys (tabs s')) = map_of (idempotency_keys (tabs s)) \<or>
     map_of (idempotency_keys (tabs s)) (pg_keyed key) = None \<and>
     map_of (idempotency_keys (tabs s')) = (map_of (idempotency_keys (tabs s)))(pg_keyed key \<mapsto>
       pg_kept uuid jsonb \<lparr>en_EventID = re_newid env, en_Response = resp, en_ExpiresAt = TTL (re_now env) ttl\<rparr>)) \<and>
    m' = m\<lparr>EventsProcessedTotal := Inc [wr_Source req, ''accepted''] (EventsProcessedTotal m)\<rparr>"
proof -
  note pl = drivers.is_platform [OF assms(1), where now = now and inject = tr]
  show ?thesis using assms(2)
  proof (cases rule: HandleEvent_parts)
    case (1 ops z1)
    then have "rs_status (answer ops) \<noteq> 202"
      by (auto simp: check_request_def split: if_splits option.splits prod.splits sum.splits)
    with 1 assms(4) show ?thesis by (simp add: reply_with_def)
  next
    case (2 req' z1 ops z2)
    obtain m1 s1 where z1: "z1 = (m1, s1)" by (metis prod.collapse)
    have ops: "h_ops res = ops" "z2 = (m', s')" using 2 assms(3) by (simp_all add: reply_with_def)
    note P = platform.check_proceeds [OF pl 2(1) [unfolded server_webhook_eq z1]]
    then have req: "req' = req" using assms(5) by simp
    note C = platform.check_state [OF pl 2(1) [unfolded server_webhook_eq z1]]
    from platform.ingest_request_accepts [OF pl 2(2) [unfolded server_webhook_eq z1 ops(2)]] ops(1) assms(4)
    show ?thesis using P C unfolding req Let_def ops(1) by simp
  qed
qed

theorem webhook_accepts_witness:
  "event_at (w_tabs (snd (h_state (demo_handle hour (demo_world []))))) demo_id =
     Some (pg_stored world_uuid world_jsonb (new_event demo_id 1700000000000000000 (ingest_input demo_parsed)))"
proof -
  have "rs_status (answer (h_ops (demo_handle hour (demo_world [])))) = 202"
    using demo_first_ingest(1)
    by (auto simp: HandleEvent_def demo_proceeds reply_with_def demo_env_def split: prod.split)
  from webhook_accepts [OF world.drivers_axioms refl surjective_pairing this demo_decodes]
  show ?thesis by (simp add: Let_def demo_env_def demo_canon)
qed

text \<open>
  C8: a request that is not accepted queues nothing and stores no key. With any other status the log, the
  keys and the analytics rows are untouched, and the event table too, except that the insert of the
  new pending event may have taken effect although it reported an error.
\<close>

theorem webhook_not_accepted:
  assumes "drivers db tabs pgnow uuid jsonb w log conn logged"
    and "HandleEvent (server_webhook db w tr now topic ttl) env r (m, s) = res"
    and "h_state res = (m', s')" and "rs_status (answer (h_ops res)) \<noteq> 202"
  shows "map message_key (log s') = map message_key (log s) \<and> logged s' = logged s \<and>
    map_of (idempotency_keys (tabs s')) = map_of (idempotency_keys (tabs s)) \<and>
    (event_at (tabs s') = event_at (tabs s) \<or>
     event_at (tabs s) (pg_canon uuid (re_newid env)) = None \<and>
     (\<exists>e. ev_Status e = EventStatusPending \<and>
       event_at (tabs s') = (event_at (tabs s))(pg_canon uuid (re_newid env) \<mapsto> e)))"
proof -
  note pl = drivers.is_platform [OF assms(1), where now = now and inject = tr]
  show ?thesis using assms(2)
  proof (cases rule: HandleEvent_parts)
    case (1 ops z1)
    then have "z1 = (m', s')" using assms(3) by (simp add: reply_with_def)
    from platform.check_state [OF pl 1(1) [unfolded server_webhook_eq this]] show ?thesis by simp
  next
    case (2 req z1 ops z2)
    obtain m1 s1 where z1: "z1 = (m1, s1)" by (metis prod.collapse)
    have ops: "h_ops res = ops" "z2 = (m', s')" using 2 assms(3) by (simp_all add: reply_with_def)
    note C = platform.check_state [OF pl 2(1) [unfolded server_webhook_eq z1]]
    have st: "ev_Status (pg_stored uuid jsonb (new_event (re_newid env) (re_created env) (ingest_input req))) = EventStatusPending"
      using event_repo.stored_fields(2) [OF platform.axioms(1) [OF pl]] by (simp add: new_event_def)
    from platform.ingest_request_fails [OF pl 2(2) [unfolded server_webhook_eq z1 ops(2)]] ops(1) assms(4)
    show ?thesis using C st by auto
  qed
qed

theorem webhook_not_accepted_witness:
  "w_log (snd (h_state (demo_handle hour (demo_world [Fine, Refused ''db''])))) = []"
proof -
  let ?s = "demo_world [Refused ''db'']"
  have "check_request (server_webhook world_db world_writer id w_now ''events'' hour) demo_request
      (new_metrics, demo_world [Fine, Refused ''db'']) = (Proceed demo_parsed, (new_metrics, ?s))"
    by (rule demo_lookup) (simp_all add: demo_world_def new_world_def next_fault_def)
  moreover have "rs_status (answer (fst (demo_ingest_request demo_id (new_metrics, ?s)))) = 500" by code_simp
  ultimately have st: "rs_status (answer (h_ops (demo_handle hour (demo_world [Fine, Refused ''db''])))) \<noteq> 202"
    by (auto simp: HandleEvent_def reply_with_def demo_env_def split: prod.split)
  have "w_log (demo_world [Fine, Refused ''db'']) = []" by code_simp
  with webhook_not_accepted [OF world.drivers_axioms refl surjective_pairing st] show ?thesis by simp
qed

end
