(* ===== verification/Calls.thy ===== *)
theory Calls
  imports Processor Webhook
begin

text \<open>
  Handlers as compositions of port calls. A relation on states that is reflexive, transitive and holds
  across every call of the ports holds across the handlers that make them. \<open>worker_calls\<close> has the calls
  of the two consumers, \<open>server_calls\<close> those of the webhook handler. Their instances say what a handler
  leaves alone whatever branch it takes: the life of an event (\<open>evolves\<close>), the stored keys, and that the
  table is keyed by canonical UUIDs and the log of the broker only grows.
\<close>

section \<open>The two clients\<close>

locale worker_calls =
  fixes R :: "'s \<Rightarrow> 's \<Rightarrow> bool"
    and repo :: "'s event_repository" and pub :: "'s publisher" and writer :: "'s analytics_writer"
  assumes same: "R s s" and chain: "R s s1 \<Longrightarrow> R s1 s2 \<Longrightarrow> R s s2"
    and find_call: "R s (snd (FindByID repo i s))" and update_call: "R s (snd (UpdateStatus repo i st s))"
    and incr_call: "R s (snd (IncrementRetry repo i s))" and write_call: "R s (snd (WriteEvent writer e s))"
    and publish_call: "R s (snd (Publish pub topic key v s))"
begin

lemma calls:
  "FindByID repo i s = (r1, s') \<Longrightarrow> R s s'" "UpdateStatus repo i st s = (r2, s') \<Longrightarrow> R s s'"
  "IncrementRetry repo i s = (r2, s') \<Longrightarrow> R s s'" "WriteEvent writer e s = (r2, s') \<Longrightarrow> R s s'"
  using find_call update_call incr_call write_call by (metis snd_conv)+

lemma handleFailure_calls:
  "handleFailure (NewProcessEvent repo a maxR) msg cause s = (r, s') \<Longrightarrow> R s s'"
  by (auto simp: handleFailure_def NewProcessEvent_def split: prod.splits if_splits
      dest!: calls intro: chain)

lemma Process_calls:
  assumes "Process_Execute (NewProcessEvent repo (Some writer) maxR) msg s = (r, s')"
  shows "R s s'"
proof -
  obtain f s1 where f: "FindByID repo (msg_EventID msg) s = (f, s1)" by force
  have "R s1 s'"
  proof (cases f)
    case (Inl x)
    with assms f show ?thesis
      by (auto simp: Process_Execute_def NewProcessEvent_def same split: if_splits
          dest: handleFailure_calls [unfolded NewProcessEvent_def])
  next
    case (Inr e)
    obtain r2 s2 where u: "UpdateStatus repo (ev_ID e) EventStatusProcessing s1 = (r2, s2)" by force
    obtain r3 s3 where wr: "WriteEvent writer e s2 = (r3, s3)" by force
    obtain r4 s4 where v: "UpdateStatus repo (ev_ID e) EventStatusProcessed s3 = (r4, s4)" by force
    have "s' = s1 \<or> s' = s4 \<or> (\<exists>y. handleFailure (NewProcessEvent repo (Some writer) maxR) msg y s2 = (r, s'))"
      using assms f u wr v Inr
      by (auto simp: Process_Execute_def NewProcessEvent_def split: if_splits option.splits prod.splits)
    moreover have "R s1 s4"
      by (rule chain [OF calls(2) [OF u] chain [OF calls(4) [OF wr] calls(2) [OF v]]])
    moreover have "R s1 s'" if "handleFailure (NewProcessEvent repo (Some writer) maxR) msg y s2 = (r, s')" for y
      by (rule chain [OF calls(2) [OF u] handleFailure_calls [OF that]])
    ultimately show ?thesis using same by auto
  qed
  with calls(1) [OF f] show ?thesis by (rule chain)
qed

lemma publish_calls:
  "R s (publishRetry (NewProcessor c pub pe topics) msg s)"
  "R s (publishToDLQ (NewProcessor c pub pe topics) msg s)"
  by (auto simp: publishRetry_def publishToDLQ_def NewProcessor_def Let_def same publish_call split: sum.splits)

lemma processMessage_calls:
  assumes "processMessage (NewProcessor c pub (NewProcessEvent repo (Some writer) maxR) topics) raw m s = Returns (m', s')"
  shows "R s s'"
proof (cases "UnmarshalEventMessage (km_Value raw)")
  case (Inl x)
  with assms show ?thesis by (simp add: processMessage_def same)
next
  case (Inr msg)
  let ?p = "NewProcessor c pub (NewProcessEvent repo (Some writer) maxR) topics"
  obtain res err s1 where
    ex: "Process_Execute (NewProcessEvent repo (Some writer) maxR) msg s = ((res, err), s1)" by (metis prod.collapse)
  with Inr have "s' \<in> {s1, publishRetry ?p msg s1, publishToDLQ ?p msg s1}"
    using assms
    by (auto simp: processMessage_def NewProcessor_def split: ProcessAction.splits if_splits option.splits)
  then have "R s1 s'" using same publish_calls by auto
  with Process_calls [OF ex] show ?thesis by (rule chain)
qed

lemma dlq_calls: "R s (dlq_handle (NewDLQHandler c repo) msg s)"
  by (simp add: dlq_handle_def NewDLQHandler_def update_call)

end

locale server_calls =
  fixes R :: "'s \<Rightarrow> 's \<Rightarrow> bool"
    and repo :: "'s event_repository" and pub :: "'s publisher" and store :: "'s idempotency_store"
  assumes same: "R s s" and chain: "R s s1 \<Longrightarrow> R s1 s2 \<Longrightarrow> R s s2"
    and insert_call: "R s (snd (Insert repo e s))" and publish_call: "R s (snd (Publish pub topic key v s))"
    and get_call: "R s (snd (Get store k s))" and set_call: "R s (snd (Set store k en s))"
begin

lemma Ingest_calls:
  assumes "Ingest_Execute (NewIngestEvent repo (Some pub) topic) newid t inp s = (r, s')"
  shows "R s s'"
proof -
  obtain x s1 where i: "Insert repo (new_event newid t inp) s = (x, s1)" by force
  then have "R s s1" using insert_call by (metis snd_conv)
  moreover have "s' = s1 \<or> (\<exists>key v. s' = snd (Publish pub topic key v s1))"
    using assms i
    by (auto simp: Ingest_Execute_def NewIngestEvent_def Let_def split: prod.splits option.splits sum.splits)
      (metis snd_conv)
  ultimately show ?thesis using publish_call by (auto intro: chain)
qed

lemma check_calls:
  assumes "check_request (NewWebhookHandler uc store ttl) r (m, s) = (c, (m', s'))"
  shows "R s s'"
proof -
  have "s' = s \<or> (\<exists>k. s' = snd (Get store k s))"
    using assms by (auto simp: check_request_def NewWebhookHandler_def
        split: if_splits option.splits prod.splits sum.splits) (metis snd_conv)+
  then show ?thesis using same get_call by auto
qed

lemma ingest_request_calls:
  assumes "ingest_request (NewWebhookHandler (NewIngestEvent repo (Some pub) topic) store ttl) env q (m, s) =
      (ops, (m', s'))"
  shows "R s s'"
proof -
  obtain r s1 where x: "Ingest_Execute (NewIngestEvent repo (Some pub) topic) (re_newid env) (re_created env)
      (ingest_input q) s = (r, s1)" by (metis prod.collapse)
  then have "s' = s1 \<or> (\<exists>key e. s' = snd (Set store key e s1))"
    using assms by (auto simp: ingest_request_def NewWebhookHandler_def Let_def
        split: prod.splits sum.splits) (metis snd_conv)
  moreover have "R s s1" using x by (rule Ingest_calls)
  ultimately show ?thesis using set_call by (auto intro: chain)
qed

end

section \<open>The life of an event\<close>

text \<open>
  \<open>evolves\<close> compares the event table of two states: no event is lost, none changes its key, source,
  type, payload or time of creation, and no retry count goes down.
\<close>

definition later_event :: "event \<Rightarrow> event \<Rightarrow> bool" where
  "later_event e e' \<longleftrightarrow> ev_ID e' = ev_ID e \<and> ev_IdempotencyKey e' = ev_IdempotencyKey e \<and>
     ev_Source e' = ev_Source e \<and> ev_EventType e' = ev_EventType e \<and> ev_Payload e' = ev_Payload e \<and>
     ev_CreatedAt e' = ev_CreatedAt e \<and> ev_RetryCount e \<le> ev_RetryCount e'"

definition evolves :: "(string \<Rightarrow> event option) \<Rightarrow> (string \<Rightarrow> event option) \<Rightarrow> bool" where
  "evolves rows rows' \<longleftrightarrow> (\<forall>i e. rows i = Some e \<longrightarrow> (\<exists>e'. rows' i = Some e' \<and> later_event e e'))"

lemma evolvesD: "evolves rows rows' \<Longrightarrow> rows i = Some e \<Longrightarrow> \<exists>e'. rows' i = Some e' \<and> later_event e e'"
  by (simp add: evolves_def)

lemma evolves_refl [simp]: "evolves rows rows"
  by (simp add: evolves_def later_event_def)

lemma evolves_trans: "evolves rows rows1 \<Longrightarrow> evolves rows1 rows2 \<Longrightarrow> evolves rows rows2"
  unfolding evolves_def later_event_def by (smt (verit, best) order_trans)

lemma evolves_upd:
  "rows j = Some e \<Longrightarrow> later_event e e' \<Longrightarrow> evolves rows (rows(j \<mapsto> e'))"
  "rows j = None \<Longrightarrow> evolves rows (rows(j \<mapsto> e'))"
  by (auto simp: evolves_def later_event_def)

lemma evolves_with:
  "rows j = Some e \<Longrightarrow> evolves rows (rows(j \<mapsto> with_status st t e))"
  "rows j = Some e \<Longrightarrow> evolves rows (rows(j \<mapsto> with_retry e))"
  by (erule evolves_upd(1), simp add: later_event_def with_status_def with_retry_def)+

text \<open>The workers keep the stored keys as well, which nothing but the webhook handler touches.\<close>

definition advances ::
  "('s \<Rightarrow> string \<Rightarrow> event option) \<Rightarrow> ('s \<Rightarrow> string \<Rightarrow> Entry option) \<Rightarrow> 's \<Rightarrow> 's \<Rightarrow> bool" where
  "advances rows entries s s' \<longleftrightarrow> evolves (rows s) (rows s') \<and> entries s' = entries s"

sublocale platform \<subseteq> life: worker_calls "advances rows entries" repo pub writer
proof unfold_locales
  fix s s1 s2 i st
  show "advances rows entries s s1 \<Longrightarrow> advances rows entries s1 s2 \<Longrightarrow> advances rows entries s s2"
    by (auto simp: advances_def intro: evolves_trans)
  show "advances rows entries s (snd (UpdateStatus repo i st s))"
    using repo.update_rows [of i st s] by (auto simp: advances_def intro: evolves_with)
  show "advances rows entries s (snd (IncrementRetry repo i s))"
    using repo.incr_rows [of i s] by (auto simp: advances_def intro: evolves_with)
qed (simp_all add: advances_def)

sublocale platform \<subseteq> birth: server_calls "\<lambda>s s'. evolves (rows s) (rows s')" repo pub store
proof unfold_locales
  fix s s1 s2 e
  show "evolves (rows s) (rows s1) \<Longrightarrow> evolves (rows s1) (rows s2) \<Longrightarrow> evolves (rows s) (rows s2)"
    by (rule evolves_trans)
  show "evolves (rows s) (rows (snd (Insert repo e s)))"
  proof (cases "Insert repo e s")
    case (Pair r s')
    then show ?thesis
      using repo.insert_ok [of e s s'] repo.insert_err [of e s _ s'] by (cases r) (auto intro: evolves_upd(2))
  qed
qed simp_all

section \<open>Canonical ids, and a log that only grows\<close>

definition uuid_rows :: "(string \<Rightarrow> string option) \<Rightarrow> tables \<Rightarrow> bool" where
  "uuid_rows uuid t \<longleftrightarrow> list_all (\<lambda>e. uuid (ev_ID e) = Some (ev_ID e)) (webhook_events t)"

text \<open>Every statement of the program keeps the ids canonical.\<close>

lemma sql_uuid_rows:
  assumes "sql_exec uuid jsonb q t = Some (n, t')" "uuid_rows uuid t"
    and idem: "\<And>i c. uuid i = Some c \<Longrightarrow> uuid c = Some c"
  shows "uuid_rows uuid t'"
  using assms(1,2)
  by (cases q) (auto simp: uuid_rows_def list_all_iff dest!: new_row_Some dest: idem split: option.splits if_splits)

lemma uuid_rows_at:
  "uuid_rows uuid t \<Longrightarrow> event_at t (pg_canon uuid i) = Some e \<Longrightarrow> uuid i = Some (pg_canon uuid i)"
  by (auto simp: uuid_rows_def list_all_iff event_at_def pg_canon_def split: option.splits dest!: find_Some_prop)

lemma uuid_rows_iff: "uuid_rows uuid t \<longleftrightarrow> (\<forall>i. event_at t i \<noteq> None \<longrightarrow> uuid i = Some i)"
proof -
  have "event_at t i \<noteq> None \<longleftrightarrow> (\<exists>e \<in> set (webhook_events t). ev_ID e = i)" for i
    unfolding event_at_def find_eq_None by (auto simp: filter_empty_conv)
  then show ?thesis by (auto simp: uuid_rows_def list_all_iff)
qed

definition grows :: "(string \<Rightarrow> string option) \<Rightarrow> ('s \<Rightarrow> tables) \<Rightarrow> ('s \<Rightarrow> kafka_message list) \<Rightarrow> 's \<Rightarrow> 's \<Rightarrow> bool" where
  "grows uuid tabs log s s' \<longleftrightarrow> (uuid_rows uuid (tabs s) \<longrightarrow> uuid_rows uuid (tabs s')) \<and>
     set (log s) \<subseteq> set (log s')"

lemma grows_same: "tabs s' = tabs s \<Longrightarrow> log s' = log s \<Longrightarrow> grows uuid tabs log s s'"
  by (simp add: grows_def)

context drivers
begin

lemma exec_grows: "pg_Exec db q s = (r, s') \<Longrightarrow> grows uuid tabs log s s'"
  using pg.exec_tabs [of q s r s'] sql_uuid_rows [of uuid jsonb q "tabs s"] pg.uuid_idem pg.exec_frame [of q s r s']
  by (auto simp: grows_def)

lemma repo_grows:
  "grows uuid tabs log s (snd (pg_Insert db e s))" "grows uuid tabs log s (snd (pg_UpdateStatus db now i st s))"
  "grows uuid tabs log s (snd (pg_IncrementRetry db i s))" "grows uuid tabs log s (snd (pg_Set db k en s))"
  "grows uuid tabs log s (snd (pg_FindByID db i s))" "grows uuid tabs log s (snd (pg_Get db k s))"
  using pg.repo_frames(3,4) [of i s] pg.store_frames(1,2) [of k s]
  by (auto simp: pg_Insert_def pg_UpdateStatus_def pg_IncrementRetry_def pg_Set_def Let_def grows_same
      split: prod.splits sum.splits dest: exec_grows)

lemma publish_grows: "grows uuid tabs log s (snd (Publish (NewProducer w tr now) topic key v s))"
proof -
  obtain r s' where m: "WriteMessages w (outgoing tr (now s) topic key v) s = (r, s')" by force
  then have "snd (Publish (NewProducer w tr now) topic key v s) = s'"
    by (simp add: NewProducer_def producer_Publish_def split: option.split)
  moreover have "set (log s) \<subseteq> set (log s')"
    using m kafka.write_ok kafka.write_err by (cases r) fastforce+
  moreover have "tabs s' = tabs s"
    using kafka.writer_frame [of "outgoing tr (now s) topic key v" s] m by simp
  ultimately show ?thesis by (simp add: grows_def)
qed

lemma write_grows: "grows uuid tabs log s (snd (WriteEvent (NewEventWriter conn now) e s))"
  using ch.ch_writer.write_frame [where now = now and e = e and s = s] by (simp add: grows_same)

lemma grows_trans: "grows uuid tabs log s s1 \<Longrightarrow> grows uuid tabs log s1 s2 \<Longrightarrow> grows uuid tabs log s s2"
  by (auto simp: grows_def)

end

sublocale drivers \<subseteq> history: worker_calls "grows uuid tabs log"
  "NewEventRepository db now" "NewProducer w inject now" "NewEventWriter conn now"
  for now inject
  by unfold_locales
    (auto simp: NewEventRepository_def repo_grows publish_grows write_grows grows_same intro: grows_trans)

sublocale drivers \<subseteq> arrivals: server_calls "grows uuid tabs log"
  "NewEventRepository db now" "NewProducer w inject now" "NewIdempotencyStore db"
  for now inject
  by unfold_locales
    (auto simp: NewEventRepository_def NewIdempotencyStore_def repo_grows publish_grows grows_same
      intro: grows_trans)

text \<open>The instances by the names the step relations use.\<close>

context platform
begin

lemmas consumer_advances = life.processMessage_calls life.dlq_calls
lemmas webhook_evolves = birth.check_calls birth.ingest_request_calls

end

context drivers
begin

lemmas consumer_grows = history.processMessage_calls history.dlq_calls
lemmas webhook_grows = arrivals.check_calls arrivals.ingest_request_calls

end

end
