(* ===== verification/System.thy ===== *)
theory System
  imports Pipeline Calls
begin

text \<open>
  Server and workers together. Where \<open>Pipeline\<close> has the ingest of an event as one step, here a webhook
  request is two, the lookup of its key and its ingest, and any number of requests can be between the
  two while other requests, deliveries and dead letters are handled. The first section maps the steps
  of this relation to steps of the pipeline, which gives every reachable state the pipeline's invariant;
  the second adds what the requests rely on, that a stored key names a stored event, and that no event
  is lost or altered.
\<close>

definition stack_webhook :: "'s stack \<Rightarrow> duration \<Rightarrow> 's WebhookHandler" where
  "stack_webhook k ttl =
     server_webhook (sk_db k) (sk_writer k) (sk_inject k) (sk_now k) (tp_Events (sk_topics k)) ttl"

text \<open>
  The state is that of the platform and the requests that have passed the lookup. A request can be lost
  between its two steps (the server is stopped). Rows of the key table may be removed by an operator,
  which the code itself never does.
\<close>

inductive system ::
  "'s stack \<Rightarrow> duration \<Rightarrow> ('s \<Rightarrow> tables) \<Rightarrow> ('s \<Rightarrow> kafka_message list) \<Rightarrow> ('s \<Rightarrow> log_row list)
     \<Rightarrow> 's \<times> webhookRequest list \<Rightarrow> 's \<times> webhookRequest list \<Rightarrow> bool"
  for k ttl tabs log logged where
  answer: "check_request (stack_webhook k ttl) r (m, s) = (Answered ops, (m', s')) \<Longrightarrow>
    system k ttl tabs log logged (s, ps) (s', ps)"
| check: "check_request (stack_webhook k ttl) r (m, s) = (Proceed q, (m', s')) \<Longrightarrow>
    system k ttl tabs log logged (s, ps) (s', q # ps)"
| ingest: "q \<in> set ps \<Longrightarrow> valid_utf8 (re_newid env) \<Longrightarrow>
    ingest_request (stack_webhook k ttl) env q (m, s) = (ops, (m', s')) \<Longrightarrow>
    system k ttl tabs log logged (s, ps) (s', remove1 q ps)"
| lose: "system k ttl tabs log logged (s, ps) (s, remove1 q ps)"
| consume: "raw \<in> set (log s) \<Longrightarrow> km_Topic raw = tp_Events (sk_topics k) \<Longrightarrow>
    processMessage (stack_processor k) raw m s = Returns (m', s') \<Longrightarrow>
    system k ttl tabs log logged (s, ps) (s', ps)"
| dead: "raw \<in> set (log s) \<Longrightarrow> km_Topic raw = tp_DLQ (sk_topics k) \<Longrightarrow> delivery raw = Some msg \<Longrightarrow>
    s' = dlq_handle (stack_dlq k) msg s \<Longrightarrow> system k ttl tabs log logged (s, ps) (s', ps)"
| other: "event_at (tabs s') = event_at (tabs s) \<Longrightarrow> log s' = log s \<Longrightarrow> logged s' = logged s \<Longrightarrow>
    map_of (idempotency_keys (tabs s')) \<subseteq>\<^sub>m map_of (idempotency_keys (tabs s)) \<Longrightarrow>
    system k ttl tabs log logged (s, ps) (s', ps)"

inductive_cases systemE [consumes 1, case_names answer check ingest lose consume dead other]:
  "system k ttl tabs log logged (s, ps) (s', ps')"

definition started :: "('s \<Rightarrow> tables) \<Rightarrow> ('s \<Rightarrow> kafka_message list) \<Rightarrow> ('s \<Rightarrow> log_row list) \<Rightarrow> 's \<Rightarrow> bool" where
  "started tabs log logged s \<longleftrightarrow> webhook_events (tabs s) = [] \<and> idempotency_keys (tabs s) = [] \<and>
     log s = [] \<and> logged s = []"

section \<open>Steps of the system as steps of the pipeline\<close>

text \<open>A step of the system is some steps of the pipeline, in which requests in flight are not seen.\<close>

lemma pipe_other:
  "event_at (tabs s') = event_at (tabs s) \<and> log s' = log s \<and> logged s' = logged s \<Longrightarrow>
   pipe k tabs log logged s s'"
  by (blast intro: pipe.other)

context drivers
begin

lemma Get_same:
  "event_at (tabs (snd (Get (NewIdempotencyStore db) key s))) = event_at (tabs s) \<and>
   log (snd (Get (NewIdempotencyStore db) key s)) = log s \<and>
   logged (snd (Get (NewIdempotencyStore db) key s)) = logged s"
  using pg.pg_idem.idem_frames(1) [of key s] by (simp add: event_at_def fun_eq_iff)

lemma Set_same:
  "event_at (tabs (snd (Set (NewIdempotencyStore db) key e s))) = event_at (tabs s) \<and>
   log (snd (Set (NewIdempotencyStore db) key e s)) = log s \<and>
   logged (snd (Set (NewIdempotencyStore db) key e s)) = logged s"
  using pg.pg_idem.idem_frames(2) [of key e s] by (simp add: event_at_def fun_eq_iff)

lemma check_same:
  assumes "check_request (server_webhook db w tr now topic ttl) r (m, s) = (c, (m', s'))"
  shows "event_at (tabs s') = event_at (tabs s) \<and> log s' = log s \<and> logged s' = logged s"
proof -
  have "s' = s \<or> (\<exists>key. s' = snd (Get (NewIdempotencyStore db) key s))"
    using assms by (auto simp: check_request_def server_webhook_def NewWebhookHandler_def
        split: if_splits option.splits prod.splits sum.splits) (metis snd_conv)+
  then show ?thesis using Get_same by auto
qed

end

lemma ingest_request_steps:
  assumes "ingest_request (server_webhook db w tr now topic ttl) env q (m, s) = (ops, (m', s'))"
  obtains r s1 where
    "Ingest_Execute (server_ingest db w tr now topic) (re_newid env) (re_created env) (ingest_input q) s = (r, s1)"
    "s' = s1 \<or> (\<exists>key e. s' = snd (Set (NewIdempotencyStore db) key e s1))"
proof -
  obtain r s1 where x: "Ingest_Execute (server_ingest db w tr now topic) (re_newid env) (re_created env)
      (ingest_input q) s = (r, s1)" by (metis prod.collapse)
  then have "s' = s1 \<or> (\<exists>key e. s' = snd (Set (NewIdempotencyStore db) key e s1))"
    using assms by (auto simp: ingest_request_def server_webhook_def NewWebhookHandler_def Let_def
        split: prod.splits sum.splits) (metis snd_conv)
  with x that show ?thesis by blast
qed

lemma system_step_pipe:
  assumes "drivers (sk_db k) tabs pgnow uuid jsonb (sk_writer k) log (sk_conn k) logged"
    and "system k ttl tabs log logged (s, ps) (s', ps')"
  shows "(pipe k tabs log logged)\<^sup>*\<^sup>* s s'"
  using assms(2)
proof (cases rule: systemE)
  case (answer r m ops m')
  from drivers.check_same [OF assms(1) this(2) [unfolded stack_webhook_def]]
  show ?thesis by (blast intro: pipe_other)
next
  case (check r m q m')
  from drivers.check_same [OF assms(1) this(2) [unfolded stack_webhook_def]]
  show ?thesis by (blast intro: pipe_other)
next
  case (ingest q env m ops m')
  from ingest(4) [unfolded stack_webhook_def] obtain r s1 where
    x: "Ingest_Execute (stack_ingest k) (re_newid env) (re_created env) (ingest_input q) s = (r, s1)"
    and y: "s' = s1 \<or> (\<exists>key e. s' = snd (Set (NewIdempotencyStore (sk_db k)) key e s1))"
    unfolding stack_ingest_def by (rule ingest_request_steps)
  have "pipe k tabs log logged s s1" using ingest(3) x by (rule pipe.ingest)
  moreover have "(pipe k tabs log logged)\<^sup>*\<^sup>* s1 s'"
    using y drivers.Set_same [OF assms(1)] by (blast intro: pipe_other)
  ultimately show ?thesis by (rule converse_rtranclp_into_rtranclp)
next
  case consume
  then show ?thesis by (blast intro: pipe.consume)
next
  case dead
  then show ?thesis by (blast intro: pipe.dead)
next
  case other
  then show ?thesis by (blast intro: pipe_other)
qed simp

inductive system_reach ::
  "'s stack \<Rightarrow> duration \<Rightarrow> ('s \<Rightarrow> tables) \<Rightarrow> ('s \<Rightarrow> kafka_message list) \<Rightarrow> ('s \<Rightarrow> log_row list)
     \<Rightarrow> 's \<times> webhookRequest list \<Rightarrow> bool"
  for k ttl tabs log logged where
  start: "started tabs log logged s \<Longrightarrow> system_reach k ttl tabs log logged (s, [])"
| step: "system_reach k ttl tabs log logged c \<Longrightarrow> system k ttl tabs log logged c c' \<Longrightarrow>
    system_reach k ttl tabs log logged c'"

lemma pipe_reach_steps:
  "(pipe k tabs log logged)\<^sup>*\<^sup>* s s' \<Longrightarrow> pipe_reach k tabs log logged s \<Longrightarrow> pipe_reach k tabs log logged s'"
  by (induction rule: rtranclp_induct) (auto intro: pipe_reach.step)

lemma system_reach_pipe:
  assumes "drivers (sk_db k) tabs pgnow uuid jsonb (sk_writer k) log (sk_conn k) logged"
    and "system_reach k ttl tabs log logged c"
  shows "pipe_reach k tabs log logged (fst c)"
  using assms(2)
proof (induction rule: system_reach.induct)
  case (start s)
  then show ?case by (auto simp: started_def intro: pipe_reach.start)
next
  case (step c c')
  from system_step_pipe [OF assms(1), of ttl "fst c" "snd c" "fst c'" "snd c'"] step.hyps(2)
  have "(pipe k tabs log logged)\<^sup>*\<^sup>* (fst c) (fst c')" by simp
  with step.IH show ?case by (blast intro: pipe_reach_steps)
qed

section \<open>Steps of the system\<close>

text \<open>An entry of the key table that names an event, with the response the event was accepted with.\<close>

definition names_event ::
  "(string \<Rightarrow> string option) \<Rightarrow> (string \<Rightarrow> string option) \<Rightarrow> (string \<Rightarrow> event option) \<Rightarrow> Entry \<Rightarrow> bool" where
  "names_event uuid jsonb rows e \<longleftrightarrow> (\<exists>i tr x. rows (pg_canon uuid i) \<noteq> None \<and>
     e = pg_kept uuid jsonb \<lparr>en_EventID = i, en_Response = webhookResponse i tr, en_ExpiresAt = x\<rparr>)"

lemma names_event_mono:
  "names_event uuid jsonb rows e \<Longrightarrow> evolves rows rows' \<Longrightarrow> names_event uuid jsonb rows' e"
  unfolding names_event_def evolves_def by (metis not_None_eq)

lemma ingest_request_effect:
  assumes "drivers db tabs pgnow uuid jsonb w log conn logged"
    and i: "ingest_request (server_webhook db w tr now topic ttl) env q (m, s) = (ops, (m', s'))"
  shows "evolves (event_at (tabs s)) (event_at (tabs s')) \<and>
    (\<forall>key e. map_of (idempotency_keys (tabs s')) key = Some e \<longrightarrow>
       map_of (idempotency_keys (tabs s)) key = Some e \<or> names_event uuid jsonb (event_at (tabs s')) e)"
proof -
  note pl = drivers.is_platform [OF assms(1), where now = now and inject = tr]
  note ev = platform.webhook_evolves(2) [OF pl i [unfolded server_webhook_eq]]
  show ?thesis
  proof (cases "rs_status (answer ops) = 202")
    case True
    note A = platform.ingest_request_accepts [OF pl i [unfolded server_webhook_eq] True]
    then have "event_at (tabs s') (pg_canon uuid (re_newid env)) \<noteq> None" by simp
    then have "names_event uuid jsonb (event_at (tabs s')) (pg_kept uuid jsonb \<lparr>en_EventID = re_newid env,
        en_Response = webhookResponse (re_newid env) (re_trace env), en_ExpiresAt = TTL (re_now env) ttl\<rparr>)"
      unfolding names_event_def by blast
    with A ev show ?thesis by (auto split: if_splits)
  next
    case False
    with platform.ingest_request_fails [OF pl i [unfolded server_webhook_eq]]
    ev show ?thesis by auto
  qed
qed

lemma system_step:
  assumes dr: "drivers (sk_db k) tabs pgnow uuid jsonb (sk_writer k) log (sk_conn k) logged"
    and st: "system k ttl tabs log logged (s, ps) (s', ps')"
  shows "evolves (event_at (tabs s)) (event_at (tabs s')) \<and>
    (\<forall>key e. map_of (idempotency_keys (tabs s')) key = Some e \<longrightarrow>
       map_of (idempotency_keys (tabs s)) key = Some e \<or> names_event uuid jsonb (event_at (tabs s')) e)"
proof -
  note pl = drivers.is_platform [OF dr, where now = "sk_now k" and inject = "sk_inject k"]
  have advance: ?thesis
    if "advances (\<lambda>s. event_at (tabs s)) (\<lambda>s. map_of (idempotency_keys (tabs s))) s s'"
    using that by (simp add: advances_def)
  show ?thesis using st
  proof (cases rule: systemE)
    case (answer r m ops m')
    from platform.check_state [OF pl this(2) [unfolded stack_webhook_def server_webhook_eq]] show ?thesis by simp
  next
    case (check r m q m')
    from platform.check_state [OF pl this(2) [unfolded stack_webhook_def server_webhook_eq]] show ?thesis by simp
  next
    case (ingest q env m ops m')
    from ingest_request_effect [OF dr ingest(4) [unfolded stack_webhook_def]] show ?thesis .
  next
    case (consume raw m m')
    from platform.consumer_advances(1) [OF pl consume(4) [unfolded stack_processor_def worker_processor_def
        worker_process_def]] show ?thesis by (rule advance)
  next
    case (dead raw msg)
    with platform.consumer_advances(2) [OF pl, of s "sk_dlq_reader k" msg] show ?thesis
      by (intro advance) (simp add: stack_dlq_def worker_dlq_def)
  next
    case other
    then show ?thesis by (auto simp: map_le_def dom_def)
  qed simp
qed

lemma system_steps_evolve:
  assumes "drivers (sk_db k) tabs pgnow uuid jsonb (sk_writer k) log (sk_conn k) logged"
    and "(system k ttl tabs log logged)\<^sup>*\<^sup>* c c'"
  shows "evolves (event_at (tabs (fst c))) (event_at (tabs (fst c')))"
  using assms(2)
proof (induction rule: rtranclp_induct)
  case (step c1 c2)
  from system_step [OF assms(1), of ttl "fst c1" "snd c1" "fst c2" "snd c2"] step.hyps(2) step.IH
  show ?case by (auto intro: evolves_trans)
qed simp

lemma system_reach_keys:
  assumes "drivers (sk_db k) tabs pgnow uuid jsonb (sk_writer k) log (sk_conn k) logged"
    and "system_reach k ttl tabs log logged c"
  shows "map_of (idempotency_keys (tabs (fst c))) key = Some e \<Longrightarrow>
    names_event uuid jsonb (event_at (tabs (fst c))) e"
  using assms(2)
proof (induction rule: system_reach.induct)
  case (step c c')
  from system_step [OF assms(1), of ttl "fst c" "snd c" "fst c'" "snd c'"] step.hyps(2) step.IH step.prems
  show ?case by (auto intro: names_event_mono)
qed (simp add: started_def)

text \<open>The ids of the table stay canonical, and a message once on the log is there for good.\<close>

lemma system_step_grows:
  assumes dr: "drivers (sk_db k) tabs pgnow uuid jsonb (sk_writer k) log (sk_conn k) logged"
    and st: "system k ttl tabs log logged (s, ps) (s', ps')"
  shows "grows uuid tabs log s s'"
  using st
proof (cases rule: systemE)
  case (answer r m ops m')
  from drivers.webhook_grows(1) [OF dr this(2) [unfolded stack_webhook_def server_webhook_eq]] show ?thesis .
next
  case (check r m q m')
  from drivers.webhook_grows(1) [OF dr this(2) [unfolded stack_webhook_def server_webhook_eq]] show ?thesis .
next
  case (ingest q env m ops m')
  from drivers.webhook_grows(2) [OF dr this(4) [unfolded stack_webhook_def server_webhook_eq]] show ?thesis .
next
  case (consume raw m m')
  from drivers.consumer_grows(1) [OF dr consume(4) [unfolded stack_processor_def worker_processor_def
      worker_process_def]] show ?thesis .
next
  case (dead raw msg)
  with drivers.consumer_grows(2) [OF dr, of s "sk_dlq_reader k"] show ?thesis
    by (simp add: stack_dlq_def worker_dlq_def)
next
  case other
  then show ?thesis by (simp add: grows_def uuid_rows_iff)
qed (simp add: grows_def)

lemma system_steps_grow:
  assumes "drivers (sk_db k) tabs pgnow uuid jsonb (sk_writer k) log (sk_conn k) logged"
    and "(system k ttl tabs log logged)\<^sup>*\<^sup>* c c'"
  shows "grows uuid tabs log (fst c) (fst c')"
  using assms(2)
proof (induction rule: rtranclp_induct)
  case (step c1 c2)
  from system_step_grows [OF assms(1), of ttl "fst c1" "snd c1" "fst c2" "snd c2"] step.hyps(2) step.IH
  show ?case by (auto simp: grows_def)
qed (simp add: grows_def)

lemma system_reach_steps:
  "(system k ttl tabs log logged)\<^sup>*\<^sup>* c c' \<Longrightarrow> system_reach k ttl tabs log logged c \<Longrightarrow>
   system_reach k ttl tabs log logged c'"
  by (induction rule: rtranclp_induct) (auto intro: system_reach.step)

lemma system_reach_ids:
  assumes "drivers (sk_db k) tabs pgnow uuid jsonb (sk_writer k) log (sk_conn k) logged"
    and "system_reach k ttl tabs log logged c"
  shows "uuid_rows uuid (tabs (fst c))"
  using assms(2)
proof (induction rule: system_reach.induct)
  case (step c c')
  from system_step_grows [OF assms(1), of ttl "fst c" "snd c" "fst c'" "snd c'"] step.hyps(2) step.IH
  show ?case by (auto simp: grows_def)
qed (simp add: started_def uuid_rows_def)

section \<open>Properties\<close>

text \<open>
  C6: a replay never promises an event that is not there. In every state that server and workers reach, a
  request answered with 200 gets the response (as \<open>jsonb\<close> keeps it) an earlier request was accepted
  with, and the event it names is stored, with one of the four statuses.
\<close>

theorem replay_names_stored_event:
  assumes "drivers (sk_db k) tabs pgnow uuid jsonb (sk_writer k) log (sk_conn k) logged"
    and "tp_Events (sk_topics k) \<noteq> tp_DLQ (sk_topics k)" and "in_int64 (sk_maxRetries k)"
    and "system_reach k ttl tabs log logged (s, ps)"
    and "HandleEvent (stack_webhook k ttl) env r (m, s) = res" and "rs_status (answer (h_ops res)) = 200"
  shows "\<exists>i tr e. event_at (tabs s) (pg_canon uuid i) = Some e \<and> sound_event e \<and>
    rs_body (answer (h_ops res)) =
      (case jsonb (webhookResponse i tr) of None \<Rightarrow> webhookResponse i tr | Some t \<Rightarrow> t)"
proof -
  note pl = drivers.is_platform [OF assms(1), where now = "sk_now k" and inject = "sk_inject k"]
  show ?thesis using assms(5)
  proof (cases rule: HandleEvent_parts)
    case (1 ops z1)
    obtain m1 s1 where z1: "z1 = (m1, s1)" by (metis prod.collapse)
    have ops: "h_ops res = ops" using 1 by (simp add: reply_with_def)
    from platform.check_replays [OF pl 1(1) [unfolded z1 stack_webhook_def server_webhook_eq]] assms(6) ops
    obtain key en where en: "map_of (idempotency_keys (tabs s)) key = Some en" "ops = replay en" by auto
    from system_reach_keys [OF assms(1,4)] en(1) have "names_event uuid jsonb (event_at (tabs s)) en" by simp
    then obtain i tr x e where i: "event_at (tabs s) (pg_canon uuid i) = Some e"
      "en = pg_kept uuid jsonb \<lparr>en_EventID = i, en_Response = webhookResponse i tr, en_ExpiresAt = x\<rparr>"
      by (auto simp: names_event_def)
    have "sound_event e"
      using pipe_invD [OF pipe_reach_inv [OF assms(1-3) system_reach_pipe [OF assms(1,4)]]] i(1) by simp
    moreover have "rs_body (answer (h_ops res)) =
        (case jsonb (webhookResponse i tr) of None \<Rightarrow> webhookResponse i tr | Some t \<Rightarrow> t)"
      by (simp add: ops en(2) i(2) pg_kept_def split: option.split)
    ultimately show ?thesis using i(1) by blast
  next
    case (2 q z1 ops z2)
    then have "rs_status (answer (h_ops res)) \<in> {202, 500}"
      using ingest_request_status [of "stack_webhook k ttl" env q z1] by (simp add: reply_with_def)
    with assms(6) show ?thesis by simp
  qed
qed

text \<open>
  C9: what is stored stays. Whatever server and workers do from any state on, in whatever order and with
  whatever failures: an event of the table is there for good, and its id, key, source, type, payload
  and time of creation never change; its retry count never goes down.
\<close>

theorem stored_event_evolves:
  assumes "drivers (sk_db k) tabs pgnow uuid jsonb (sk_writer k) log (sk_conn k) logged"
    and "(system k ttl tabs log logged)\<^sup>*\<^sup>* (s, ps) (s', ps')"
    and "event_at (tabs s) i = Some e"
  shows "\<exists>e'. event_at (tabs s') i = Some e' \<and> ev_ID e' = ev_ID e \<and>
    ev_IdempotencyKey e' = ev_IdempotencyKey e \<and> ev_Source e' = ev_Source e \<and>
    ev_EventType e' = ev_EventType e \<and> ev_Payload e' = ev_Payload e \<and>
    ev_CreatedAt e' = ev_CreatedAt e \<and> ev_RetryCount e \<le> ev_RetryCount e'"
  using evolvesD [where rows = "event_at (tabs s)" and i = i and e = e, OF _ assms(3)] system_steps_evolve [OF assms(1,2)] by (simp add: later_event_def)

section \<open>A run\<close>

lemma demo_stack_webhook:
  "stack_webhook demo_stack hour = server_webhook world_db world_writer id w_now ''events'' hour"
  by (simp add: stack_webhook_def demo_stack_def)

lemma demo_stack_drivers:
  "drivers (sk_db demo_stack) w_tabs w_now world_uuid world_jsonb (sk_writer demo_stack) w_log
     (sk_conn demo_stack) w_rows"
  "tp_Events (sk_topics demo_stack) \<noteq> tp_DLQ (sk_topics demo_stack)" "in_int64 (sk_maxRetries demo_stack)"
  by (simp_all add: demo_stack_def world.drivers_axioms int64_defs)

lemma demo_check_step:
  "system demo_stack hour w_tabs w_log w_rows (demo_world [], []) (demo_world [], [demo_parsed])"
proof -
  have "check_request (stack_webhook demo_stack hour) demo_request (new_metrics, demo_world []) =
      (Proceed demo_parsed, (new_metrics, demo_world []))"
    unfolding demo_stack_webhook by (rule demo_proceeds)
  from system.check [OF this, of w_tabs w_log w_rows "[]"] show ?thesis by simp
qed

lemma demo_ingest_step:
  "system demo_stack hour w_tabs w_log w_rows (demo_world [], [demo_parsed]) (demo_after, [])"
proof -
  let ?i = "demo_ingest_request demo_id (new_metrics, demo_world [])"
  obtain m3 where "?i = (fst ?i, (m3, demo_after))" using demo_first_ingest(2) by (metis prod.collapse)
  then have i: "ingest_request (stack_webhook demo_stack hour) (demo_env\<lparr>re_newid := demo_id\<rparr>) demo_parsed
      (new_metrics, demo_world []) = (fst ?i, (m3, demo_after))"
    unfolding demo_stack_webhook .
  have "valid_utf8 (re_newid (demo_env\<lparr>re_newid := demo_id\<rparr>))" by code_simp
  from system.ingest [OF _ this i, of "[demo_parsed]" w_tabs w_log w_rows] show ?thesis by simp
qed

lemma demo_reach: "system_reach demo_stack hour w_tabs w_log w_rows (demo_after, [])"
proof -
  have "started w_tabs w_log w_rows (demo_world [])" by (simp add: started_def demo_world_def new_world_def)
  from system_reach.step [OF system_reach.step [OF system_reach.start [OF this] demo_check_step] demo_ingest_step]
  show ?thesis .
qed

theorem replay_names_stored_event_witness:
  "\<exists>i e. event_at (w_tabs demo_after) i = Some e \<and> sound_event e"
proof -
  let ?e = "\<lparr>en_EventID = demo_id, en_Response = webhookResponse demo_id (re_trace demo_env),
      en_ExpiresAt = 1700003600000000000\<rparr>"
  have "HasPrefix (Header_Get ''Content-Type'' (hr_headers demo_request)) ''application/json''"
    "validate demo_parsed = None" by code_simp+
  moreover have "Get (NewIdempotencyStore world_db) (wr_IdempotencyKey demo_parsed) demo_after =
      (Inr (Some ?e), demo_after)"
    by (simp add: NewIdempotencyStore_def pg_Get_def world_defs key_live_def demo_after_def demo_world_def
        demo_parsed_def)
  ultimately have "rs_status (answer (h_ops (HandleEvent (stack_webhook demo_stack hour) demo_env demo_request
      (new_metrics, demo_after)))) = 200"
    by (simp add: HandleEvent_def check_request_def demo_stack_webhook server_webhook_def NewWebhookHandler_def
        demo_decodes reply_with_def)
  from replay_names_stored_event [OF demo_stack_drivers demo_reach refl this] show ?thesis by blast
qed

text \<open>The message of the run is delivered once.\<close>

lemma demo_consume_step:
  "\<exists>s'. system demo_stack hour w_tabs w_log w_rows (demo_after, []) (s', [])"
proof -
  let ?raw = "hd (w_log demo_after)"
  have "?raw \<in> set (w_log demo_after)" "km_Topic ?raw = tp_Events (sk_topics demo_stack)"
    by (simp_all add: demo_after_def demo_stack_def outgoing_def)
  moreover obtain m' s' where
    "processMessage (stack_processor demo_stack) ?raw new_metrics demo_after = Returns (m', s')"
    using processMessage_returns [of "stack_processor demo_stack" ?raw new_metrics demo_after] by auto
  ultimately show ?thesis by (blast intro: system.consume)
qed

theorem stored_event_evolves_witness:
  "\<exists>s' e'. system demo_stack hour w_tabs w_log w_rows (demo_after, []) (s', []) \<and>
     event_at (w_tabs s') demo_id = Some e' \<and> ev_Source e' = ''shopify''"
proof -
  let ?e = "new_event demo_id 1700000000000000000 (ingest_input demo_parsed)"
  obtain s' where s': "system demo_stack hour w_tabs w_log w_rows (demo_after, []) (s', [])"
    using demo_consume_step by blast
  have e: "event_at (w_tabs demo_after) demo_id = Some ?e"
    by (simp add: demo_after_def event_at_def new_event_def)
  have "ev_Source ?e = ''shopify''" by code_simp
  with stored_event_evolves [OF demo_stack_drivers(1) r_into_rtranclp e] s' show ?thesis by metis
qed

end
