(* ===== verification/Contract.thy ===== *)
theory Contract
  imports System
begin

text \<open>
  What the platform promises, said without its code, and the proof that the handlers keep the promise.
  The contract knows an event by its phase and its number of retries, two queues of numbered attempts,
  the facts recorded for the analysts, and the answers remembered under the keys of the senders. Its
  rules say what may become of these; the handlers, with every failure of their drivers, are mapped to
  it by \<open>contract_of\<close>.
\<close>

section \<open>The contract\<close>

datatype phase = Accepted | Started | Finished | Abandoned

record contract =
  ct_life :: "string \<Rightarrow> (phase \<times> int) option"
  ct_work :: "(string \<times> int) list"
  ct_dead :: "(string \<times> int) list"
  ct_facts :: "(string \<times> phase) list"
  ct_keys :: "string \<Rightarrow> Entry option"

text \<open>
  What is seen of a step: the answer to the lookup of a key at some time, or that the request passed it;
  the answer to a request that passed; a delivery of an attempt; a dead letter; anything else.
\<close>

datatype contract_act =
    Answers string time int string
  | Passes string time
  | Ingests string string time int string
  | Delivers string int
  | Buries string int
  | Elapses

definition open_phase :: "phase \<Rightarrow> bool" where
  "open_phase p \<longleftrightarrow> p = Accepted \<or> p = Started"

text \<open>
  \<open>limit\<close> is the number of attempts, \<open>canon\<close>, \<open>keyed\<close> and \<open>kept\<close> the forms in which the database keeps an id,
  a key and an entry.
\<close>

inductive promises ::
  "int \<Rightarrow> (string \<Rightarrow> string) \<Rightarrow> (string \<Rightarrow> string) \<Rightarrow> (Entry \<Rightarrow> Entry) \<Rightarrow> contract \<Rightarrow> contract_act \<Rightarrow> contract \<Rightarrow> bool"
  for limit canon keyed kept where
  refused: "st \<in> {400, 415, 422, 500} \<Longrightarrow> promises limit canon keyed kept c (Answers key t st body) c"
| replayed: "ct_keys c key = Some e \<Longrightarrow> t \<le> en_ExpiresAt e \<Longrightarrow> body = en_Response e \<Longrightarrow>
    promises limit canon keyed kept c (Answers key t 200 body) c"
| passed: "(\<And>e. ct_keys c key = Some e \<Longrightarrow> en_ExpiresAt e \<le> t) \<Longrightarrow>
    promises limit canon keyed kept c (Passes key t) c"
| accepted: "ct_life c (canon i) = None \<Longrightarrow>
    HasPrefix resp (''{\"event_id\":'' @ json_string i) \<Longrightarrow> body = resp @ newline \<Longrightarrow>
    keys = ct_keys c \<or> ct_keys c (keyed key) = None \<and> keys = (ct_keys c)(keyed key \<mapsto>
      kept \<lparr>en_EventID = i, en_Response = resp, en_ExpiresAt = expires\<rparr>) \<Longrightarrow>
    promises limit canon keyed kept c (Ingests i key expires 202 body)
      (c\<lparr>ct_life := (ct_life c)(canon i \<mapsto> (Accepted, 0)),
         ct_work := ct_work c @ replicate n (canon i, 1), ct_keys := keys\<rparr>)"
| not_accepted: "life = ct_life c \<or> ct_life c (canon i) = None \<and> life = (ct_life c)(canon i \<mapsto> (Accepted, 0)) \<Longrightarrow>
    promises limit canon keyed kept c (Ingests i key expires 500 body) (c\<lparr>ct_life := life\<rparr>)"
| ignored: "(j, n) \<in> set (ct_work c) \<Longrightarrow> ct_life c j = Some (p, r) \<Longrightarrow> \<not> open_phase p \<Longrightarrow>
    promises limit canon keyed kept c (Delivers j n) c"
| finished: "(j, n) \<in> set (ct_work c) \<Longrightarrow> ct_life c j = Some (p, r) \<Longrightarrow> open_phase p \<Longrightarrow>
    p' \<in> {Started, Finished} \<Longrightarrow> fs \<in> {[], [(j, p)]} \<Longrightarrow>
    promises limit canon keyed kept c (Delivers j n)
      (c\<lparr>ct_life := (ct_life c)(j \<mapsto> (p', r)), ct_facts := ct_facts c @ fs\<rparr>)"
| retried: "(j, n) \<in> set (ct_work c) \<Longrightarrow> ct_life c j = Some (p, r) \<Longrightarrow> n < limit \<Longrightarrow>
    p' = p \<or> p = Accepted \<and> p' = Started \<Longrightarrow> r' \<in> {r, r + 1} \<Longrightarrow>
    promises limit canon keyed kept c (Delivers j n)
      (c\<lparr>ct_life := (ct_life c)(j \<mapsto> (p', r')), ct_work := ct_work c @ replicate m (j, n + 1)\<rparr>)"
| given_up: "(j, n) \<in> set (ct_work c) \<Longrightarrow> ct_life c j = Some (p, r) \<Longrightarrow> limit \<le> n \<Longrightarrow>
    p' = p \<or> p = Accepted \<and> p' = Started \<or> p' = Abandoned \<Longrightarrow> r' \<in> {r, r + 1} \<Longrightarrow>
    promises limit canon keyed kept c (Delivers j n)
      (c\<lparr>ct_life := (ct_life c)(j \<mapsto> (p', r')), ct_dead := ct_dead c @ replicate m (j, n)\<rparr>)"
| buried: "(j, n) \<in> set (ct_dead c) \<Longrightarrow> ct_life c j = Some (p, r) \<Longrightarrow> p' \<in> {p, Abandoned} \<Longrightarrow>
    promises limit canon keyed kept c (Buries j n) (c\<lparr>ct_life := (ct_life c)(j \<mapsto> (p', r))\<rparr>)"
| elapsed: "keys \<subseteq>\<^sub>m ct_keys c \<Longrightarrow> promises limit canon keyed kept c Elapses (c\<lparr>ct_keys := keys\<rparr>)"

section \<open>The state of the platform, seen by the contract\<close>

definition phase_of :: "string \<Rightarrow> phase" where
  "phase_of st = (if st = EventStatusPending then Accepted else if st = EventStatusProcessing then Started
     else if st = EventStatusProcessed then Finished else Abandoned)"

definition life_of :: "event \<Rightarrow> phase \<times> int" where
  "life_of e = (phase_of (ev_Status e), ev_RetryCount e)"

text \<open>The attempts a topic holds: the messages on it that parse.\<close>

definition attempt_of :: "string \<Rightarrow> (string \<Rightarrow> string) \<Rightarrow> string \<times> string \<times> string \<Rightarrow> (string \<times> int) list" where
  "attempt_of topic canon = (\<lambda>(t, key, v). if t = topic
     then (case UnmarshalEventMessage v of Inl _ \<Rightarrow> [] | Inr m \<Rightarrow> [(canon (msg_EventID m), msg_Attempt m)])
     else [])"

definition contract_of ::
  "Topics \<Rightarrow> (string \<Rightarrow> string) \<Rightarrow> (string \<Rightarrow> event option) \<Rightarrow> (string \<times> string \<times> string) list \<Rightarrow> log_row list
     \<Rightarrow> (string \<Rightarrow> Entry option) \<Rightarrow> contract" where
  "contract_of topics canon rows sent written entries =
     \<lparr>ct_life = (\<lambda>i. map_option life_of (rows i)),
      ct_work = concat (map (attempt_of (tp_Events topics) canon) sent),
      ct_dead = concat (map (attempt_of (tp_DLQ topics) canon) sent),
      ct_facts = map (\<lambda>r. (lr_event_id r, phase_of (lr_status r))) written, ct_keys = entries\<rparr>"

text \<open>The handlers, one run at a time, with what is seen of the run.\<close>

definition asked_key :: "http_req \<Rightarrow> string" where
  "asked_key r = (case decode_request (hr_body r) (hr_body_err r) of
      None \<Rightarrow> [] | Some req \<Rightarrow> wr_IdempotencyKey req)"

inductive performs ::
  "'s stack \<Rightarrow> duration \<Rightarrow> ('s \<Rightarrow> time) \<Rightarrow> (string \<Rightarrow> string) \<Rightarrow> ('s \<Rightarrow> kafka_message list) \<Rightarrow> 's \<Rightarrow> contract_act \<Rightarrow> 's \<Rightarrow> bool"
  for k ttl clock canon log where
  answer: "check_request (stack_webhook k ttl) r (m, s) = (Answered ops, (m', s')) \<Longrightarrow>
    performs k ttl clock canon log s
      (Answers (asked_key r) (clock s) (rs_status (answer ops)) (rs_body (answer ops))) s'"
| check: "check_request (stack_webhook k ttl) r (m, s) = (Proceed q, (m', s')) \<Longrightarrow>
    performs k ttl clock canon log s (Passes (wr_IdempotencyKey q) (clock s)) s'"
| ingest: "valid_utf8 (re_newid env) \<Longrightarrow>
    ingest_request (stack_webhook k ttl) env q (m, s) = (ops, (m', s')) \<Longrightarrow>
    performs k ttl clock canon log s (Ingests (re_newid env) (wr_IdempotencyKey q) (TTL (re_now env) ttl)
      (rs_status (answer ops)) (rs_body (answer ops))) s'"
| consume: "raw \<in> set (log s) \<Longrightarrow> km_Topic raw = tp_Events (sk_topics k) \<Longrightarrow> delivery raw = Some msg \<Longrightarrow>
    processMessage (stack_processor k) raw m s = Returns (m', s') \<Longrightarrow>
    performs k ttl clock canon log s (Delivers (canon (msg_EventID msg)) (msg_Attempt msg)) s'"
| dead: "raw \<in> set (log s) \<Longrightarrow> km_Topic raw = tp_DLQ (sk_topics k) \<Longrightarrow> delivery raw = Some msg \<Longrightarrow>
    s' = dlq_handle (stack_dlq k) msg s \<Longrightarrow>
    performs k ttl clock canon log s (Buries (canon (msg_EventID msg)) (msg_Attempt msg)) s'"

section \<open>Each handler keeps the contract\<close>

lemma phase_of_simps [simp]:
  "phase_of EventStatusPending = Accepted" "phase_of EventStatusProcessing = Started"
  "phase_of EventStatusProcessed = Finished" "phase_of EventStatusFailed = Abandoned"
  by (simp_all add: phase_of_def)

lemma open_phase_sound: "sound_event e \<Longrightarrow> open_phase (phase_of (ev_Status e)) \<longleftrightarrow> \<not> terminal (ev_Status e)"
  by (auto simp: sound_event_def open_phase_def terminal_def phase_of_def)

lemma attempt_of_message:
  assumes "valid_utf8 i" "in_int64 n"
  shows "attempt_of topic canon (event_message t i n) = (if t = topic then [(canon i, n)] else [])"
  using Unmarshal_Marshal [of "\<lparr>msg_EventID = i, msg_Attempt = n\<rparr>"] to_valid_id [OF assms(1)] assms
  by (simp add: attempt_of_def event_message_def)

lemma concat_replicate_single: "concat (replicate m [x]) = replicate m x"
  by (induction m) simp_all

lemma contract_of_simps:
  "contract_of topics canon (rows(j \<mapsto> e)) sent written entries =
     (contract_of topics canon rows sent written entries)\<lparr>ct_life :=
       (ct_life (contract_of topics canon rows sent written entries))(j \<mapsto> life_of e)\<rparr>"
  "contract_of topics canon rows sent (written @ [x]) entries =
     (contract_of topics canon rows sent written entries)\<lparr>ct_facts :=
       ct_facts (contract_of topics canon rows sent written entries) @ [(lr_event_id x, phase_of (lr_status x))]\<rparr>"
  "valid_utf8 i \<Longrightarrow> in_int64 n \<Longrightarrow>
   contract_of topics canon rows (sent @ replicate m (event_message t i n)) written entries =
     (contract_of topics canon rows sent written entries)\<lparr>
       ct_work := ct_work (contract_of topics canon rows sent written entries) @
         (if t = tp_Events topics then replicate m (canon i, n) else []),
       ct_dead := ct_dead (contract_of topics canon rows sent written entries) @
         (if t = tp_DLQ topics then replicate m (canon i, n) else [])\<rparr>"
  by (auto simp: contract_of_def fun_eq_iff attempt_of_message map_replicate_const concat_replicate_single)

lemma contract_of_keys:
  "contract_of topics canon rows sent written entries' =
     (contract_of topics canon rows sent written entries)\<lparr>ct_keys := entries'\<rparr>"
  by (simp add: contract_of_def)

lemma attempt_in_work:
  assumes "message_key raw \<in> set sent" "delivery raw = Some msg"
  shows "km_Topic raw = tp_Events topics \<Longrightarrow>
      (canon (msg_EventID msg), msg_Attempt msg) \<in> set (ct_work (contract_of topics canon rows sent written entries))"
    and "km_Topic raw = tp_DLQ topics \<Longrightarrow>
      (canon (msg_EventID msg), msg_Attempt msg) \<in> set (ct_dead (contract_of topics canon rows sent written entries))"
proof -
  have "(canon (msg_EventID msg), msg_Attempt msg) \<in> set (attempt_of (km_Topic raw) canon (message_key raw))"
    using assms(2) by (auto simp: attempt_of_def delivery_def message_key_def split: sum.splits)
  with assms(1) show "km_Topic raw = tp_Events topics \<Longrightarrow>
      (canon (msg_EventID msg), msg_Attempt msg) \<in> set (ct_work (contract_of topics canon rows sent written entries))"
    and "km_Topic raw = tp_DLQ topics \<Longrightarrow>
      (canon (msg_EventID msg), msg_Attempt msg) \<in> set (ct_dead (contract_of topics canon rows sent written entries))"
    by (auto simp: contract_of_def)
qed

lemma check_request_answers:
  "check_request h r z = (Answered ops, z1) \<Longrightarrow> rs_status (answer ops) \<in> {200, 400, 415, 422, 500}"
  by (cases z) (auto simp: check_request_def split: if_splits option.splits prod.splits sum.splits)

context platform
begin

abbreviation view :: "Topics \<Rightarrow> 's \<Rightarrow> contract" where
  "view topics s \<equiv> contract_of topics canon (rows s) (sent s) (written s) (entries s)"

lemma check_contract:
  assumes "check_request (NewWebhookHandler uc store ttl) r (m, s) = (Answered ops, (m', s'))"
  shows "promises limit canon keyed kept (view topics s)
    (Answers (asked_key r) (clock s) (rs_status (answer ops)) (rs_body (answer ops))) (view topics s')"
proof -
  have v: "view topics s' = view topics s" using check_state [OF assms] by simp
  show ?thesis
  proof (cases "rs_status (answer ops) = 200")
    case True
    from check_replays [OF assms True] obtain req e where
      "decode_request (hr_body r) (hr_body_err r) = Some req" "entries s (wr_IdempotencyKey req) = Some e"
      "clock s \<le> en_ExpiresAt e" "ops = replay e" by blast
    then show ?thesis unfolding v
      by (auto simp: asked_key_def contract_of_def intro: promises.replayed)
  next
    case False
    with check_request_answers [OF assms] show ?thesis unfolding v by (auto intro: promises.refused)
  qed
qed

lemma pass_contract:
  assumes "check_request (NewWebhookHandler uc store ttl) r (m, s) = (Proceed q, (m', s'))"
  shows "promises limit canon keyed kept (view topics s) (Passes (wr_IdempotencyKey q) (clock s)) (view topics s')"
proof -
  have "view topics s' = view topics s" using check_state [OF assms] by simp
  then show ?thesis using check_proceeds [OF assms]
    by (auto simp: contract_of_def intro!: promises.passed)
qed

lemma ingest_contract:
  assumes i: "ingest_request (NewWebhookHandler (NewIngestEvent repo (Some pub) (tp_Events topics)) store ttl) env q (m, s) =
      (ops, (m', s'))"
    and u: "valid_utf8 (re_newid env)" and t: "tp_Events topics \<noteq> tp_DLQ topics"
  shows "promises limit canon keyed kept (view topics s)
    (Ingests (re_newid env) (wr_IdempotencyKey q) (TTL (re_now env) ttl) (rs_status (answer ops)) (rs_body (answer ops)))
    (view topics s')"
proof -
  let ?i = "re_newid env" and ?c = "view topics s"
  let ?e = "stored (new_event ?i (re_created env) (ingest_input q))"
  have l: "life_of ?e = (Accepted, 0)" by (simp add: life_of_def repo.stored_fields new_event_def del: status_defs)
  show ?thesis
  proof (cases "rs_status (answer ops) = 202")
    case True
    let ?resp = "webhookResponse ?i (re_trace env)"
    note A = ingest_request_accepts [OF i True]
    then obtain n where n: "sent s' = sent s @ replicate n (event_message (tp_Events topics) ?i 1)" by blast
    have "in_int64 1" by (simp add: int64_defs)
    then have c: "view topics s' = ?c\<lparr>ct_life := (ct_life ?c)(canon ?i \<mapsto> (Accepted, 0)),
        ct_work := ct_work ?c @ replicate n (canon ?i, 1), ct_keys := entries s'\<rparr>"
      using A n t l contract_of_keys [of topics canon "rows s'" "sent s'" "written s'" "entries s'" "entries s"]
      by (simp add: contract_of_simps u)
    have "ct_life ?c (canon ?i) = None" "ct_keys ?c = entries s" using A by (simp_all add: contract_of_def)
    moreover have "HasPrefix ?resp (''{\"event_id\":'' @ json_string ?i)"
      by (simp add: webhookResponse_def HasPrefix_iff)
    ultimately show ?thesis unfolding c True
      using A by (intro promises.accepted [where resp = ?resp]) auto
  next
    case False
    then have st: "rs_status (answer ops) = 500"
      using ingest_request_status [of "NewWebhookHandler (NewIngestEvent repo (Some pub) (tp_Events topics)) store ttl" env q "(m, s)"] i
      by simp
    note F = ingest_request_fails [OF i False]
    then have "view topics s' = ?c\<lparr>ct_life := ct_life (view topics s')\<rparr>"
      by (simp add: contract_of_def)
    moreover have "ct_life (view topics s') = ct_life ?c \<or>
        ct_life ?c (canon ?i) = None \<and> ct_life (view topics s') = (ct_life ?c)(canon ?i \<mapsto> (Accepted, 0))"
      using F l by (auto simp: contract_of_def fun_eq_iff)
    ultimately show ?thesis unfolding st by (metis promises.not_accepted)
  qed
qed

lemma dead_contract:
  assumes inv: "pipe_inv maxR topics canon (rows s) (sent s) (written s)"
    and raw: "message_key raw \<in> set (sent s)" "km_Topic raw = tp_DLQ topics" "delivery raw = Some msg"
    and t: "tp_Events topics \<noteq> tp_DLQ topics" and i: "in_int64 maxR"
  shows "promises maxR canon keyed kept (view topics s) (Buries (canon (msg_EventID msg)) (msg_Attempt msg))
    (view topics (dlq_handle (NewDLQHandler c repo) msg s))"
proof -
  let ?j = "canon (msg_EventID msg)" and ?s = "dlq_handle (NewDLQHandler c repo) msg s"
  have "sound_message maxR topics canon (rows s) (message_key raw)"
    using inv raw(1) by (auto simp: pipe_inv_def list_all_iff)
  from sound_delivery [OF this i t] raw(3) obtain e where e: "rows s ?j = Some e" by auto
  have l: "ct_life (view topics s) ?j = Some (life_of e)" by (simp add: contract_of_def e)
  note D = dlq_handle_at [OF refl, of c msg s]
  have "\<exists>p'. p' \<in> {phase_of (ev_Status e), Abandoned} \<and>
      view topics ?s = (view topics s)\<lparr>ct_life := (ct_life (view topics s))(?j \<mapsto> (p', ev_RetryCount e))\<rparr>"
  proof (cases "rows ?s = rows s")
    case True
    then show ?thesis using D l
      by (intro exI [of _ "phase_of (ev_Status e)"]) (auto simp: life_of_def fun_upd_idem)
  next
    case False
    with D e obtain u where "rows ?s = (rows s)(?j \<mapsto> with_status EventStatusFailed u e)" by auto
    then show ?thesis using D
      by (intro exI [of _ Abandoned]) (simp add: contract_of_simps life_of_def del: status_defs)
  qed
  then obtain p' where p: "p' \<in> {phase_of (ev_Status e), Abandoned}"
    "view topics ?s = (view topics s)\<lparr>ct_life := (ct_life (view topics s))(?j \<mapsto> (p', ev_RetryCount e))\<rparr>"
    by blast
  show ?thesis unfolding p(2)
    by (rule promises.buried [OF attempt_in_work(2) [OF raw(1,3,2)] l [unfolded life_of_def] p(1)])
qed

lemma finish_contract:
  assumes inv: "pipe_inv maxR topics canon (rows s) (sent s) (written s)"
    and w: "(canon (msg_EventID msg), msg_Attempt msg) \<in> set (ct_work (view topics s))"
    and e: "rows s (canon (msg_EventID msg)) = Some e"
    and ex: "Process_Execute (NewProcessEvent repo (Some writer) maxR) msg s = ((res, None), s')"
  shows "promises limit canon keyed kept (view topics s) (Delivers (canon (msg_EventID msg)) (msg_Attempt msg))
    (view topics s')"
proof -
  let ?j = "canon (msg_EventID msg)" and ?p = "phase_of (ev_Status e)"
  note D = Execute_done [OF ex refl]
  have l: "ct_life (view topics s) ?j = Some (?p, ev_RetryCount e)" by (simp add: contract_of_def e life_of_def)
  have o: "open_phase ?p \<longleftrightarrow> \<not> terminal (ev_Status e)" using open_phase_sound [OF pipe_invD [OF inv e]] .
  show ?thesis
  proof (cases "terminal (ev_Status e)")
    case True
    with D e have "view topics s' = view topics s" by auto
    with True o l w show ?thesis by (auto intro: promises.ignored)
  next
    case False
    with D e obtain e' where e': "rows s' = (rows s)(?j \<mapsto> e')" "ev_RetryCount e' = ev_RetryCount e"
      "ev_Status e' \<in> {EventStatusProcessing, EventStatusProcessed}" "sent s' = sent s" "entries s' = entries s"
      "written s' = written s \<or> (\<exists>x. written s' = written s @ [x] \<and> row_of_event e x)"
      by auto
    have "phase_of (ev_Status e') \<in> {Started, Finished}" using e'(3) by (auto simp del: status_defs)
    moreover have "\<exists>fs. fs \<in> {[], [(?j, ?p)]} \<and> view topics s' = (view topics s)\<lparr>ct_life :=
        (ct_life (view topics s))(?j \<mapsto> (phase_of (ev_Status e'), ev_RetryCount e)),
        ct_facts := ct_facts (view topics s) @ fs\<rparr>"
      using e'(6)
    proof
      assume "written s' = written s"
      then show ?thesis using e' by (intro exI [of _ "[]"]) (simp add: contract_of_simps life_of_def)
    next
      assume "\<exists>x. written s' = written s @ [x] \<and> row_of_event e x"
      then obtain x where x: "written s' = written s @ [x]" "row_of_event e x" by blast
      then show ?thesis using e' repo.rows_id [OF e]
        by (intro exI [of _ "[(?j, ?p)]"]) (simp add: contract_of_simps life_of_def row_of_event_def)
    qed
    ultimately show ?thesis using promises.finished [OF w l] o False by metis
  qed
qed

lemma failed_contract:
  assumes inv: "pipe_inv maxR topics canon (rows s) (sent s) (written s)"
    and w: "(canon i, n) \<in> set (ct_work (view topics s))" and e: "rows s (canon i) = Some e"
    and ex: "Process_Execute (NewProcessEvent repo (Some writer) maxR) \<lparr>msg_EventID = i, msg_Attempt = n\<rparr> s =
      ((res, Some err), s1)"
    and s': "rows s' = rows s1" "written s' = written s1" "entries s' = entries s1"
      "sent s' = sent s1 @ replicate m (if n < maxR then event_message (tp_Events topics) i (n + 1)
         else event_message (tp_DLQ topics) i n)"
    and u: "valid_utf8 i" "in_int64 n" "in_int64 maxR" and t: "tp_Events topics \<noteq> tp_DLQ topics"
  shows "promises maxR canon keyed kept (view topics s) (Delivers (canon i) n) (view topics s')"
proof -
  let ?p = "phase_of (ev_Status e)" and ?c = "view topics s"
  note F = Execute_failed [OF ex refl, unfolded EventMessage.select_convs]
  have l: "ct_life ?c (canon i) = Some (?p, ev_RetryCount e)" by (simp add: contract_of_def e life_of_def)
  from F e obtain e' where e': "rows s1 (canon i) = Some e'" by auto
  then have row: "rows s1 = (rows s)(canon i \<mapsto> e')" using F by metis
  have r: "ev_RetryCount e' \<in> {ev_RetryCount e, ev_RetryCount e + 1}" using F e e' by blast
  have st: "ev_Status e' = ev_Status e \<or> ev_Status e' = EventStatusProcessing \<and> \<not> terminal (ev_Status e) \<or>
      ev_Status e' = EventStatusFailed \<and> maxR \<le> n" using F e e' by blast
  have p: "phase_of (ev_Status e') = ?p \<or> ?p = Accepted \<and> phase_of (ev_Status e') = Started \<or>
      maxR \<le> n \<and> phase_of (ev_Status e') = Abandoned"
    using st open_phase_sound [OF pipe_invD [OF inv e]]
    by (auto simp: open_phase_def simp del: status_defs)
  show ?thesis
  proof (cases "n < maxR")
    case True
    then have "in_int64 (n + 1)" using u(2,3) by (simp add: int64_defs)
    then have "view topics s' = ?c\<lparr>ct_life := (ct_life ?c)(canon i \<mapsto> (phase_of (ev_Status e'), ev_RetryCount e')),
        ct_work := ct_work ?c @ replicate m (canon i, n + 1)\<rparr>"
      using True s' F row t by (simp add: contract_of_simps u(1) life_of_def)
    then show ?thesis using promises.retried [OF w l True _ r] p True by auto
  next
    case False
    then have "view topics s' = ?c\<lparr>ct_life := (ct_life ?c)(canon i \<mapsto> (phase_of (ev_Status e'), ev_RetryCount e')),
        ct_dead := ct_dead ?c @ replicate m (canon i, n)\<rparr>"
      using s' F row t u by (simp add: contract_of_simps life_of_def)
    then show ?thesis using promises.given_up [OF w l _ _ r] p False by auto
  qed
qed

lemma consume_contract:
  assumes inv: "pipe_inv maxR topics canon (rows s) (sent s) (written s)"
    and raw: "message_key raw \<in> set (sent s)" "km_Topic raw = tp_Events topics" "delivery raw = Some msg"
    and t: "tp_Events topics \<noteq> tp_DLQ topics" and i: "in_int64 maxR"
    and r: "processMessage (NewProcessor c pub (NewProcessEvent repo (Some writer) maxR) topics) raw m s = Returns (m', s')"
  shows "promises maxR canon keyed kept (view topics s) (Delivers (canon (msg_EventID msg)) (msg_Attempt msg))
    (view topics s')"
proof -
  have "sound_message maxR topics canon (rows s) (message_key raw)"
    using inv raw(1) by (auto simp: pipe_inv_def list_all_iff)
  from sound_delivery [OF this i t] raw(3) obtain j n e where
    d: "msg = \<lparr>msg_EventID = j, msg_Attempt = n\<rparr>" "valid_utf8 j" "1 \<le> n" "n \<le> max 1 maxR" "rows s (canon j) = Some e"
    by auto
  have n: "in_int64 n" using d(3,4) i by (auto simp: int64_defs max_def split: if_splits)
  note w = attempt_in_work(1) [OF raw(1,3,2)]
  obtain res err s1 where ex: "Process_Execute (NewProcessEvent repo (Some writer) maxR) msg s = ((res, err), s1)"
    by (metis prod.collapse)
  note P = processMessage_sent [OF raw(3) i ex r]
  show ?thesis
  proof (cases err)
    case None
    then have "s' = s1" using P by simp
    with finish_contract [OF inv _ _ ex [unfolded None]] w d show ?thesis by simp
  next
    case (Some x)
    then obtain k where "sent s' = sent s1 @ replicate k (if n < maxR then event_message (tp_Events topics) j (n + 1)
        else event_message (tp_DLQ topics) j n)"
      using P d(1) by (auto split: if_splits)
    moreover have "rows s' = rows s1" "written s' = written s1" "entries s' = entries s1" using P by simp_all
    ultimately show ?thesis
      using failed_contract [OF inv _ d(5) ex [unfolded d(1) Some] _ _ _ _ d(2) n i t] w unfolding d(1)
      by (simp only: EventMessage.select_convs)
  qed
qed

end

section \<open>The platform keeps the contract\<close>

definition stack_view ::
  "'s stack \<Rightarrow> (string \<Rightarrow> string option) \<Rightarrow> ('s \<Rightarrow> tables) \<Rightarrow> ('s \<Rightarrow> kafka_message list) \<Rightarrow> ('s \<Rightarrow> log_row list) \<Rightarrow> 's \<Rightarrow> contract" where
  "stack_view k uuid tabs log logged s = contract_of (sk_topics k) (pg_canon uuid) (event_at (tabs s))
     (map message_key (log s)) (logged s) (map_of (idempotency_keys (tabs s)))"

inductive contract_reach ::
  "int \<Rightarrow> (string \<Rightarrow> string) \<Rightarrow> (string \<Rightarrow> string) \<Rightarrow> (Entry \<Rightarrow> Entry) \<Rightarrow> contract \<Rightarrow> bool"
  for limit canon keyed kept where
  nothing: "contract_reach limit canon keyed kept
    \<lparr>ct_life = Map.empty, ct_work = [], ct_dead = [], ct_facts = [], ct_keys = Map.empty\<rparr>"
| promise: "contract_reach limit canon keyed kept c \<Longrightarrow> promises limit canon keyed kept c a c' \<Longrightarrow>
    contract_reach limit canon keyed kept c'"

lemma performs_promises:
  assumes dr: "drivers (sk_db k) tabs pgnow uuid jsonb (sk_writer k) log (sk_conn k) logged"
    and t: "tp_Events (sk_topics k) \<noteq> tp_DLQ (sk_topics k)" and i: "in_int64 (sk_maxRetries k)"
    and inv: "pipe_inv (sk_maxRetries k) (sk_topics k) (pg_canon uuid) (event_at (tabs s)) (map message_key (log s)) (logged s)"
    and p: "performs k ttl pgnow (pg_canon uuid) log s a s'"
  shows "promises (sk_maxRetries k) (pg_canon uuid) pg_keyed (pg_kept uuid jsonb)
    (stack_view k uuid tabs log logged s) a (stack_view k uuid tabs log logged s')"
proof -
  note pl = drivers.is_platform [OF dr, where now = "sk_now k" and inject = "sk_inject k"]
  show ?thesis using p
  proof (cases rule: performs.cases)
    case (answer r m ops m')
    from platform.check_contract [OF pl answer(2) [unfolded stack_webhook_def server_webhook_eq]]
    show ?thesis unfolding answer(1) stack_view_def .
  next
    case (check r m q m')
    from platform.pass_contract [OF pl check(2) [unfolded stack_webhook_def server_webhook_eq]]
    show ?thesis unfolding check(1) stack_view_def .
  next
    case (ingest env q m ops m')
    from platform.ingest_contract [OF pl ingest(3) [unfolded stack_webhook_def server_webhook_eq] ingest(2) t]
    show ?thesis unfolding ingest(1) stack_view_def .
  next
    case (consume raw msg m m')
    have "message_key raw \<in> set (map message_key (log s))" using consume(2) by simp
    from platform.consume_contract [OF pl inv this consume(3,4) t i
        consume(5) [unfolded stack_processor_def worker_processor_def worker_process_def]]
    show ?thesis unfolding consume(1) stack_view_def .
  next
    case (dead raw msg)
    have "message_key raw \<in> set (map message_key (log s))" using dead(2) by simp
    from platform.dead_contract [OF pl inv this dead(3,4) t i]
    show ?thesis unfolding dead(1,5) stack_view_def stack_dlq_def worker_dlq_def .
  qed
qed

text \<open>A delivery of the log parses, so every step of the system is a handler's, or none.\<close>

lemma system_performs:
  assumes dr: "drivers (sk_db k) tabs pgnow uuid jsonb (sk_writer k) log (sk_conn k) logged"
    and t: "tp_Events (sk_topics k) \<noteq> tp_DLQ (sk_topics k)" and i: "in_int64 (sk_maxRetries k)"
    and inv: "pipe_inv (sk_maxRetries k) (sk_topics k) (pg_canon uuid) (event_at (tabs s)) (map message_key (log s)) (logged s)"
    and st: "system k ttl tabs log logged (s, ps) (s', ps')"
  shows "(\<exists>a. performs k ttl pgnow (pg_canon uuid) log s a s') \<or>
    promises limit canon keyed kept (stack_view k uuid tabs log logged s) Elapses (stack_view k uuid tabs log logged s')"
  using st
proof (cases rule: systemE)
  case (consume raw m m')
  have "sound_message (sk_maxRetries k) (sk_topics k) (pg_canon uuid) (event_at (tabs s)) (message_key raw)"
    using inv consume(2) by (auto simp: pipe_inv_def list_all_iff)
  from sound_delivery [OF this i t] consume show ?thesis by (blast intro: performs.consume)
next
  case lose
  then have "stack_view k uuid tabs log logged s' = (stack_view k uuid tabs log logged s)
      \<lparr>ct_keys := ct_keys (stack_view k uuid tabs log logged s)\<rparr>" by simp
  then show ?thesis using promises.elapsed [OF map_le_refl] by metis
next
  case other
  then have "stack_view k uuid tabs log logged s' = (stack_view k uuid tabs log logged s)
      \<lparr>ct_keys := map_of (idempotency_keys (tabs s'))\<rparr>"
    by (simp add: stack_view_def contract_of_def)
  moreover have "map_of (idempotency_keys (tabs s')) \<subseteq>\<^sub>m ct_keys (stack_view k uuid tabs log logged s)"
    using other by (simp add: stack_view_def contract_of_def)
  ultimately show ?thesis using promises.elapsed by metis
qed (blast intro: performs.intros)+

lemma system_reach_inv:
  assumes "drivers (sk_db k) tabs pgnow uuid jsonb (sk_writer k) log (sk_conn k) logged"
    and "tp_Events (sk_topics k) \<noteq> tp_DLQ (sk_topics k)" "in_int64 (sk_maxRetries k)"
    and "system_reach k ttl tabs log logged c"
  shows "pipe_inv (sk_maxRetries k) (sk_topics k) (pg_canon uuid) (event_at (tabs (fst c)))
    (map message_key (log (fst c))) (logged (fst c))"
  using pipe_reach_inv [OF assms(1-3) system_reach_pipe [OF assms(1,4)]] .

lemma system_reach_contract:
  assumes dr: "drivers (sk_db k) tabs pgnow uuid jsonb (sk_writer k) log (sk_conn k) logged"
    and t: "tp_Events (sk_topics k) \<noteq> tp_DLQ (sk_topics k)" and i: "in_int64 (sk_maxRetries k)"
    and "system_reach k ttl tabs log logged c"
  shows "contract_reach (sk_maxRetries k) (pg_canon uuid) pg_keyed (pg_kept uuid jsonb)
    (stack_view k uuid tabs log logged (fst c))"
  using assms(4)
proof (induction rule: system_reach.induct)
  case (start s)
  then have "stack_view k uuid tabs log logged s =
      \<lparr>ct_life = Map.empty, ct_work = [], ct_dead = [], ct_facts = [], ct_keys = Map.empty\<rparr>"
    by (simp add: started_def stack_view_def contract_of_def event_at_def fun_eq_iff)
  then show ?case by (simp add: contract_reach.nothing)
next
  case (step c c')
  note inv = system_reach_inv [OF dr t i step.hyps(1)]
  from system_performs [OF dr t i inv, of ttl "snd c" "fst c'" "snd c'"] step.hyps(2)
  have "\<exists>a. promises (sk_maxRetries k) (pg_canon uuid) pg_keyed (pg_kept uuid jsonb)
      (stack_view k uuid tabs log logged (fst c)) a (stack_view k uuid tabs log logged (fst c'))"
    using performs_promises [OF dr t i inv] by (metis prod.collapse)
  with step.IH show ?case by (blast intro: contract_reach.promise)
qed

text \<open>
  C7: the platform keeps its contract. In every state server and workers reach, with requests in flight
  and with every failure of the drivers, the state is one the contract allows, and whatever a handler then does
  is a step of the contract with what is seen of it. A request is replayed only with the answer kept under
  its key, and passes only when there is none or it has expired; 202 means that a new event was accepted,
  under a new id, that the answer names it, and that the answer was kept under the key unless the key had
  one already; a failed ingest leaves at most an accepted event; a delivery of a finished or abandoned event
  changes nothing when it ends well; a delivery moves an event forward and records at most one fact for it, with
  the phase it had; a failed one counts at most one retry and numbers the next attempt one higher, on the
  work queue below the limit, on the dead letter queue with the same number at the limit; only at the limit
  or by a dead letter is an event abandoned.
\<close>

theorem platform_refines_contract:
  assumes "drivers (sk_db k) tabs pgnow uuid jsonb (sk_writer k) log (sk_conn k) logged"
    and "tp_Events (sk_topics k) \<noteq> tp_DLQ (sk_topics k)" and "in_int64 (sk_maxRetries k)"
    and "system_reach k ttl tabs log logged (s, ps)"
    and "performs k ttl pgnow (pg_canon uuid) log s a s'"
  shows "contract_reach (sk_maxRetries k) (pg_canon uuid) pg_keyed (pg_kept uuid jsonb)
      (stack_view k uuid tabs log logged s) \<and>
    promises (sk_maxRetries k) (pg_canon uuid) pg_keyed (pg_kept uuid jsonb)
      (stack_view k uuid tabs log logged s) a (stack_view k uuid tabs log logged s')"
  using system_reach_contract [OF assms(1-4)]
    performs_promises [OF assms(1-3) _ assms(5)] system_reach_inv [OF assms(1-4)] by simp

theorem platform_refines_contract_witness:
  "\<exists>s'. promises 3 (pg_canon world_uuid) pg_keyed (pg_kept world_uuid world_jsonb)
     (stack_view demo_stack world_uuid w_tabs w_log w_rows demo_after) (Delivers demo_id 1)
     (stack_view demo_stack world_uuid w_tabs w_log w_rows s')"
proof -
  let ?raw = "hd (w_log demo_after)"
  have raw: "?raw \<in> set (w_log demo_after)" "km_Topic ?raw = tp_Events (sk_topics demo_stack)"
    by (simp_all add: demo_after_def demo_stack_def outgoing_def)
  have d: "delivery ?raw = Some \<lparr>msg_EventID = demo_id, msg_Attempt = 1\<rparr>" by code_simp
  obtain m' s' where "processMessage (stack_processor demo_stack) ?raw new_metrics demo_after = Returns (m', s')"
    using processMessage_returns [of "stack_processor demo_stack" ?raw new_metrics demo_after] by auto
  from performs.consume [where log = w_log and s = demo_after, OF raw d this, of hour w_now "pg_canon world_uuid"]
  have p: "performs demo_stack hour w_now (pg_canon world_uuid) w_log demo_after (Delivers demo_id 1) s'"
    by (simp add: demo_canon)
  have "sk_maxRetries demo_stack = 3" by (simp add: demo_stack_def)
  with platform_refines_contract [OF demo_stack_drivers demo_reach p] show ?thesis by auto
qed

end
