(* ===== verification/Programs.thy ===== *)
theory Programs
  imports Calls
begin

text \<open>
  The handlers once more, as programs: trees of port calls, log lines and metrics, which say in what
  order a handler does what and leave open who runs beside it. \<open>run\<close> executes a program alone; the
  theorems at the end of the sections show that a program run alone is the handler of \<open>Ingest\<close>,
  \<open>Process\<close>, \<open>Processor\<close> and \<open>Webhook\<close>, so what \<open>Interleave\<close> proves of programs that take turns is
  about the same code. The log lines are those of the source, with their levels and attributes; the
  text of a decoding error is the model's own. Spans are left out.
\<close>

section \<open>Programs\<close>

text \<open>The calls that answer with an error or nothing, the two reads, and what a handler does besides.\<close>

datatype port_call =
    DoInsert event
  | DoUpdate string string
  | DoIncrement string
  | DoWrite event
  | DoPublish string string string
  | DoSet string Entry

datatype 'a prog =
    Return 'a
  | Find string "go_error + event \<Rightarrow> 'a prog"
  | Lookup string "go_error + Entry option \<Rightarrow> 'a prog"
  | Call port_call "go_error option \<Rightarrow> 'a prog"
  | Say "log_line list" "'a prog"
  | Count "metrics \<Rightarrow> metrics" "'a prog"

primrec bind_prog :: "'a prog \<Rightarrow> ('a \<Rightarrow> 'b prog) \<Rightarrow> 'b prog" where
  "bind_prog (Return x) f = f x"
| "bind_prog (Find i k) f = Find i (\<lambda>r. bind_prog (k r) f)"
| "bind_prog (Lookup key k) f = Lookup key (\<lambda>r. bind_prog (k r) f)"
| "bind_prog (Call c k) f = Call c (\<lambda>r. bind_prog (k r) f)"
| "bind_prog (Say ls p) f = Say ls (bind_prog p f)"
| "bind_prog (Count g p) f = Count g (bind_prog p f)"

record 's ports =
  po_repo :: "'s event_repository"
  po_pub :: "'s publisher"
  po_writer :: "'s analytics_writer"
  po_store :: "'s idempotency_store"

fun do_call :: "'s ports \<Rightarrow> port_call \<Rightarrow> 's \<Rightarrow> go_error option \<times> 's" where
  "do_call po (DoInsert e) s = Insert (po_repo po) e s"
| "do_call po (DoUpdate i st) s = UpdateStatus (po_repo po) i st s"
| "do_call po (DoIncrement i) s = IncrementRetry (po_repo po) i s"
| "do_call po (DoWrite e) s = WriteEvent (po_writer po) e s"
| "do_call po (DoPublish topic key v) s = Publish (po_pub po) topic key v s"
| "do_call po (DoSet key e) s = Set (po_store po) key e s"

text \<open>A program run alone: its result and the state, and what it logs on the way.\<close>

primrec run :: "'s ports \<Rightarrow> 'a prog \<Rightarrow> 's shared \<Rightarrow> 'a \<times> 's shared" where
  "run po (Return x) z = (x, z)"
| "run po (Find i k) z = (case FindByID (po_repo po) i (snd z) of (r, s) \<Rightarrow> run po (k r) (fst z, s))"
| "run po (Lookup key k) z = (case Get (po_store po) key (snd z) of (r, s) \<Rightarrow> run po (k r) (fst z, s))"
| "run po (Call c k) z = (case do_call po c (snd z) of (r, s) \<Rightarrow> run po (k r) (fst z, s))"
| "run po (Say ls p) z = run po p z"
| "run po (Count g p) z = run po p (g (fst z), snd z)"

primrec said :: "'s ports \<Rightarrow> 'a prog \<Rightarrow> 's \<Rightarrow> log_line list" where
  "said po (Return x) s = []"
| "said po (Find i k) s = (case FindByID (po_repo po) i s of (r, s') \<Rightarrow> said po (k r) s')"
| "said po (Lookup key k) s = (case Get (po_store po) key s of (r, s') \<Rightarrow> said po (k r) s')"
| "said po (Call c k) s = (case do_call po c s of (r, s') \<Rightarrow> said po (k r) s')"
| "said po (Say ls p) s = ls @ said po p s"
| "said po (Count g p) s = said po p s"

lemma run_bind: "run po (bind_prog p f) z = (case run po p z of (x, z') \<Rightarrow> run po (f x) z')"
  by (induction p arbitrary: z) (auto split: prod.split)

lemma said_bind: "said po (bind_prog p f) s =
    said po p s @ (case run po p (m, s) of (x, z) \<Rightarrow> said po (f x) (snd z))"
proof (induction p arbitrary: m s)
  case (Find i k)
  obtain r s' where "FindByID (po_repo po) i s = (r, s')" by force
  with Find [OF rangeI, of r s' m] show ?case by simp
next
  case (Lookup key k)
  obtain r s' where "Get (po_store po) key s = (r, s')" by force
  with Lookup [OF rangeI, of r s' m] show ?case by simp
next
  case (Call c k)
  obtain r s' where "do_call po c s = (r, s')" by force
  with Call [OF rangeI, of r s' m] show ?case by simp
next
  case (Count g p)
  from Count [of s "g m"] show ?case by simp
qed simp_all

text \<open>An error that is only logged.\<close>

definition log_error ::
  "logger \<Rightarrow> log_level \<Rightarrow> string \<Rightarrow> (string \<times> string) list \<Rightarrow> go_error option \<Rightarrow> log_line list" where
  "log_error lg lvl msg attrs r = (case r of
      None \<Rightarrow> [] | Some err \<Rightarrow> log_at lg lvl msg ((''error'', Error err) # attrs))"

definition With :: "logger \<Rightarrow> (string \<times> string) list \<Rightarrow> logger" where
  "With lg attrs = lg\<lparr>lg_attrs := lg_attrs lg @ attrs\<rparr>"

section \<open>The use cases\<close>

definition failure_prog ::
  "logger \<Rightarrow> int \<Rightarrow> EventMessage \<Rightarrow> go_error \<Rightarrow> (ProcessEventResult \<times> go_error option) prog" where
  "failure_prog lg maxR msg cause =
     Call (DoIncrement (msg_EventID msg)) (\<lambda>r.
       Say (log_error lg LevelError ''increment retry count failed'' [] r)
       (if msg_Attempt msg \<ge> maxR
        then Call (DoUpdate (msg_EventID msg) EventStatusFailed) (\<lambda>r.
          Say (log_error lg LevelError ''set failed status'' [] r)
          (Return (\<lparr>res_Action = ProcessActionDLQ, res_EventSource = []\<rparr>, Some cause)))
        else Return (\<lparr>res_Action = ProcessActionRetry, res_EventSource = []\<rparr>, Some cause)))"

definition process_prog ::
  "logger \<Rightarrow> bool \<Rightarrow> int \<Rightarrow> EventMessage \<Rightarrow> (ProcessEventResult \<times> go_error option) prog" where
  "process_prog lg an maxR msg =
     Find (msg_EventID msg) (\<lambda>found. case found of
        Inl err \<Rightarrow>
          (if errors_Is err ErrNotFound
           then Return (\<lparr>res_Action = ProcessActionDone, res_EventSource = []\<rparr>, None)
           else failure_prog lg maxR msg err)
      | Inr event \<Rightarrow>
          (if ev_Status event = EventStatusProcessed \<or> ev_Status event = EventStatusFailed
           then Return (\<lparr>res_Action = ProcessActionDone, res_EventSource = []\<rparr>, None)
           else Call (DoUpdate (ev_ID event) EventStatusProcessing) (\<lambda>r. case r of
               Some err \<Rightarrow> failure_prog lg maxR msg err
             | None \<Rightarrow>
                 bind_prog
                   (if an
                    then Call (DoWrite event) (\<lambda>r.
                      Say (log_error lg LevelWarn ''analytics write failed'' [(''event_id'', ev_ID event)] r) (Return ()))
                    else Return ())
                   (\<lambda>_. Call (DoUpdate (ev_ID event) EventStatusProcessed) (\<lambda>r.
                      Say (log_error lg LevelError ''set processed status failed'' [] r)
                      (Return (\<lparr>res_Action = ProcessActionDone, res_EventSource = ev_Source event\<rparr>, None)))))))"

definition ingest_prog ::
  "logger \<Rightarrow> bool \<Rightarrow> string \<Rightarrow> string \<Rightarrow> time \<Rightarrow> IngestEventInput \<Rightarrow> (go_error + IngestEventOutput) prog" where
  "ingest_prog lg pub topic newid now inp =
     (let event = new_event newid now inp
      in Call (DoInsert event) (\<lambda>r. case r of
           Some err \<Rightarrow> Return (Inl (Wrap ''insert event: '' err))
         | None \<Rightarrow>
             bind_prog
               (if pub
                then (case MarshalEventMessage \<lparr>msg_EventID = ev_ID event, msg_Attempt = 1\<rparr> of
                        Inl _ \<Rightarrow> Return ()
                      | Inr v \<Rightarrow> Call (DoPublish topic (ev_ID event) v) (\<lambda>r.
                          Say (log_error lg LevelWarn ''failed to publish event to queue'' [(''event_id'', ev_ID event)] r)
                          (Return ())))
                else Return ())
               (\<lambda>_. Return (Inr \<lparr>out_EventID = ev_ID event\<rparr>))))"

lemma run_failure:
  "run po (failure_prog lg maxR msg cause) (m, s) =
     (case handleFailure (NewProcessEvent (po_repo po) a maxR) msg cause s of (r, s') \<Rightarrow> (r, (m, s')))"
  by (simp add: failure_prog_def handleFailure_def NewProcessEvent_def split: prod.split)

lemma run_process:
  "run po (process_prog lg an maxR msg) (m, s) =
     (case Process_Execute (NewProcessEvent (po_repo po) (if an then Some (po_writer po) else None) maxR) msg s of
        (r, s') \<Rightarrow> (r, (m, s')))"
proof -
  let ?a = "if an then Some (po_writer po) else None"
  note failed = run_failure [where a = ?a]
  obtain f s1 where f: "FindByID (po_repo po) (msg_EventID msg) s = (f, s1)" by force
  show ?thesis
  proof (cases f)
    case (Inl err)
    then show ?thesis
      by (simp add: process_prog_def Process_Execute_def f failed) (simp add: NewProcessEvent_def f)
  next
    case (Inr e)
    obtain r s2 where u: "UpdateStatus (po_repo po) (ev_ID e) EventStatusProcessing s1 = (r, s2)" by force
    show ?thesis
    proof (cases r)
      case None
      then show ?thesis
        by (cases an) (simp_all add: process_prog_def Process_Execute_def NewProcessEvent_def f u Inr run_bind
            Let_def del: status_defs split: prod.split)
    next
      case (Some err)
      then show ?thesis
        by (simp add: process_prog_def Process_Execute_def f u Inr failed del: status_defs)
          (simp add: NewProcessEvent_def f u Inr del: status_defs)
    qed
  qed
qed

lemma run_ingest:
  "run po (ingest_prog lg pub topic newid now inp) (m, s) =
     (case Ingest_Execute (NewIngestEvent (po_repo po) (if pub then Some (po_pub po) else None) topic) newid now inp s of
        (r, s') \<Rightarrow> (r, (m, s')))"
  by (cases pub; cases "Insert (po_repo po) (new_event newid now inp) s";
      cases "fst (Insert (po_repo po) (new_event newid now inp) s)")
    (auto simp: ingest_prog_def Ingest_Execute_def NewIngestEvent_def run_bind Let_def
      split: prod.split sum.split)

section \<open>The consumers\<close>

definition em_dash :: string where "em_dash = [CHR 0xE2, CHR 0x80, CHR 0x94]"

definition retry_prog :: "logger \<Rightarrow> Topics \<Rightarrow> EventMessage \<Rightarrow> unit prog" where
  "retry_prog lg topics msg =
     (let retryMsg = \<lparr>msg_EventID = msg_EventID msg, msg_Attempt = wrap64 (msg_Attempt msg + 1)\<rparr>
      in case MarshalEventMessage retryMsg of
           Inl err \<Rightarrow> Say (log_error lg LevelError ''marshal retry message failed'' [] (Some err)) (Return ())
         | Inr v \<Rightarrow> Call (DoPublish (tp_Events topics) (msg_EventID retryMsg) v) (\<lambda>r.
             Say (case r of
                 Some err \<Rightarrow> log_at lg LevelError ''re-publish for retry failed'' [(''error'', Error err)]
               | None \<Rightarrow> log_at lg LevelInfo ''event queued for retry'' [(''next_attempt'', Itoa (msg_Attempt retryMsg))])
             (Return ())))"

definition dlq_prog :: "logger \<Rightarrow> Topics \<Rightarrow> EventMessage \<Rightarrow> unit prog" where
  "dlq_prog lg topics msg =
     (case MarshalEventMessage msg of
        Inl err \<Rightarrow> Say (log_error lg LevelError ''marshal DLQ message failed'' [] (Some err)) (Return ())
      | Inr v \<Rightarrow> Call (DoPublish (tp_DLQ topics) (msg_EventID msg) v) (\<lambda>r.
          Say (log_error lg LevelError ''publish to DLQ failed'' [] r) (Return ())))"

definition consume_prog :: "logger \<Rightarrow> bool \<Rightarrow> int \<Rightarrow> Topics \<Rightarrow> kafka_message \<Rightarrow> unit outcome prog" where
  "consume_prog lg an maxR topics raw =
     (case UnmarshalEventMessage (km_Value raw) of
        Inl err \<Rightarrow> Say (log_error lg LevelError (''unparseable message '' @ em_dash @ '' skipping'') [] (Some err))
          (Return (Returns ()))
      | Inr msg \<Rightarrow>
          (let lg' = With lg [(''event_id'', msg_EventID msg), (''attempt'', Itoa (msg_Attempt msg))]
           in bind_prog (process_prog lg an maxR msg) (\<lambda>(result, err). case res_Action result of
               ProcessActionDone \<Rightarrow>
                 (if err = None \<and> res_EventSource result \<noteq> []
                  then Count (\<lambda>m. m\<lparr>EventsProcessedTotal :=
                         Inc [res_EventSource result, ''processed''] (EventsProcessedTotal m)\<rparr>)
                       (Say (log_at lg' LevelInfo ''event processed successfully'' []) (Return (Returns ())))
                  else Return (Returns ()))
             | ProcessActionRetry \<Rightarrow> (case err of
                 None \<Rightarrow> Return (Panics ''invalid memory address or nil pointer dereference'')
               | Some x \<Rightarrow> Say (log_at lg' LevelError ''processing failed'' [(''error'', Error x)])
                   (bind_prog (retry_prog lg topics msg) (\<lambda>_. Return (Returns ()))))
             | ProcessActionDLQ \<Rightarrow>
                 Say (log_at lg' LevelWarn (''max retries exceeded '' @ em_dash @ '' routing to DLQ'')
                     [(''attempt'', Itoa (msg_Attempt msg))])
                 (bind_prog (dlq_prog lg topics msg) (\<lambda>_.
                    Count (\<lambda>m. m\<lparr>EventsFailedTotal :=
                      Inc [''unknown'', ''max_retries_exceeded''] (EventsFailedTotal m)\<rparr>)
                    (Return (Returns ())))))))"

text \<open>One message of the dead letter topic, up to its commit.\<close>

definition dead_prog :: "logger \<Rightarrow> kafka_message \<Rightarrow> unit prog" where
  "dead_prog lg raw =
     (case UnmarshalEventMessage (km_Value raw) of
        Inl err \<Rightarrow> Say (log_error lg LevelError ''dlq: unparseable message'' [(''raw'', km_Value raw)] (Some err))
          (Return ())
      | Inr msg \<Rightarrow>
          Say (log_at lg LevelError ''poison message received''
            [(''event_id'', msg_EventID msg), (''attempt'', Itoa (msg_Attempt msg)), (''topic'', km_Topic raw),
             (''offset'', Itoa (km_Offset raw)), (''partition'', Itoa (km_Partition raw))])
          (Call (DoUpdate (msg_EventID msg) EventStatusFailed) (\<lambda>r.
             Say (log_error lg LevelError ''dlq: failed to mark event as failed'' [(''event_id'', msg_EventID msg)] r)
             (Return ()))))"

lemma run_retry:
  "run po (retry_prog lg topics msg) (m, s) = ((), (m, publishRetry (NewProcessor c (po_pub po) pe topics) msg s))"
  by (auto simp: retry_prog_def publishRetry_def NewProcessor_def Let_def split: sum.split prod.split)

lemma run_dlq:
  "run po (dlq_prog lg topics msg) (m, s) = ((), (m, publishToDLQ (NewProcessor c (po_pub po) pe topics) msg s))"
  by (auto simp: dlq_prog_def publishToDLQ_def NewProcessor_def split: sum.split prod.split)

lemma run_consume:
  assumes "processMessage (NewProcessor c (po_pub po)
      (NewProcessEvent (po_repo po) (if an then Some (po_writer po) else None) maxR) topics) raw m s = Returns (m', s')"
  shows "run po (consume_prog lg an maxR topics raw) (m, s) = (Returns (), (m', s'))"
proof (cases "UnmarshalEventMessage (km_Value raw)")
  case (Inl err)
  with assms show ?thesis by (simp add: consume_prog_def processMessage_def)
next
  case (Inr msg)
  let ?pe = "NewProcessEvent (po_repo po) (if an then Some (po_writer po) else None) maxR"
  obtain res err s1 where x: "Process_Execute ?pe msg s = ((res, err), s1)" by (metis prod.collapse)
  have p: "Process_Execute (pr_processEvent (NewProcessor c (po_pub po) ?pe topics)) msg s = ((res, err), s1)"
    using x by (simp add: NewProcessor_def)
  show ?thesis
    using assms
    by (cases "res_Action res"; cases err)
      (simp_all add: consume_prog_def processMessage_def Inr p run_bind run_process x Let_def
        run_retry [where c = c and pe = ?pe] run_dlq [where c = c and pe = ?pe]
        split: if_splits)
qed

lemma run_dead:
  assumes "delivery raw = Some msg"
  shows "run po (dead_prog lg raw) (m, s) = ((), (m, dlq_handle (NewDLQHandler c (po_repo po)) msg s))"
  using assms
  by (auto simp: dead_prog_def delivery_def dlq_handle_def NewDLQHandler_def split: sum.splits prod.split)

section \<open>The webhook handler\<close>

text \<open>From the use case on, \<open>lg\<close> with the fields of the request.\<close>

definition accept_prog ::
  "logger \<Rightarrow> logger \<Rightarrow> bool \<Rightarrow> string \<Rightarrow> duration \<Rightarrow> request_env \<Rightarrow> webhookRequest \<Rightarrow> rw_op list prog" where
  "accept_prog base lg pub topic ttl env req =
     bind_prog (ingest_prog base pub topic (re_newid env) (re_created env) (ingest_input req)) (\<lambda>result.
       case result of
         Inl err \<Rightarrow> Say (log_at lg LevelError ''failed to ingest event'' [(''error'', Error err)])
           (Return (respondError 500 ''INTERNAL_ERROR'' ''failed to process request''))
       | Inr out \<Rightarrow>
           (let resp = webhookResponse (out_EventID out) (re_trace env);
                entry = \<lparr>en_EventID = out_EventID out, en_Response = resp,
                         en_ExpiresAt = TTL (re_now env) ttl\<rparr>
            in Call (DoSet (wr_IdempotencyKey req) entry) (\<lambda>r.
              Say (log_error lg LevelWarn ''failed to store idempotency key''
                  [(''idempotency_key'', wr_IdempotencyKey req)] r)
              (Count (\<lambda>m. m\<lparr>EventsProcessedTotal := Inc [wr_Source req, ''accepted''] (EventsProcessedTotal m)\<rparr>)
              (Say (log_at lg LevelInfo ''event accepted''
                  [(''event_id'', out_EventID out), (''source'', wr_Source req), (''event_type'', wr_EventType req)])
              (Return (writeJSON 202 resp)))))))"

definition webhook_prog ::
  "logger \<Rightarrow> bool \<Rightarrow> string \<Rightarrow> duration \<Rightarrow> request_env \<Rightarrow> http_req \<Rightarrow> rw_op list prog" where
  "webhook_prog base pub topic ttl env r =
     (let lg = FromContext (hr_ctx r) base in
      if \<not> HasPrefix (Header_Get ''Content-Type'' (hr_headers r)) ''application/json''
      then Return (respondError 415 ''INVALID_CONTENT_TYPE'' ''Content-Type must be application/json'')
      else case decode_request (hr_body r) (hr_body_err r) of
        None \<Rightarrow> Return (respondError 400 ''INVALID_JSON'' ''request body is not valid JSON'')
      | Some req \<Rightarrow> (case validate req of
          Some err \<Rightarrow> Return (respondError 422 ''VALIDATION_ERROR'' (Error err))
        | None \<Rightarrow> Lookup (wr_IdempotencyKey req) (\<lambda>existing. case existing of
            Inl err \<Rightarrow> Say (log_at lg LevelError ''idempotency check failed'' [(''error'', Error err)])
              (Return (respondError 500 ''INTERNAL_ERROR'' ''failed to process request''))
          | Inr (Some e) \<Rightarrow>
              Count (\<lambda>m. m\<lparr>EventsDuplicateTotal := Suc (EventsDuplicateTotal m)\<rparr>)
              (Say (log_at lg LevelInfo ''duplicate event absorbed''
                  [(''idempotency_key'', wr_IdempotencyKey req), (''event_id'', en_EventID e)])
              (Return (replay e)))
          | Inr None \<Rightarrow> accept_prog base lg pub topic ttl env req)))"

lemma run_accept:
  "run po (accept_prog base lg pub topic ttl env req) (m, s) =
     ingest_request (NewWebhookHandler
       (NewIngestEvent (po_repo po) (if pub then Some (po_pub po) else None) topic) (po_store po) ttl) env req (m, s)"
proof -
  let ?uc = "NewIngestEvent (po_repo po) (if pub then Some (po_pub po) else None) topic"
  obtain x s2 where x: "Ingest_Execute ?uc (re_newid env) (re_created env) (ingest_input req) s = (x, s2)" by force
  show ?thesis
    by (cases x) (simp_all add: accept_prog_def ingest_request_def NewWebhookHandler_def run_bind run_ingest x Let_def
        split: prod.split)
qed

lemma run_webhook_parts:
  assumes acc: "\<And>lg req m s. run po (accept_prog base lg pub topic ttl env req) (m, s) = ingest_request h env req (m, s)"
    and idem: "wh_idem h = po_store po"
  shows "run po (webhook_prog base pub topic ttl env r) (m, s) =
    (let res = HandleEvent h env r (m, s) in (h_ops res, h_state res))"
proof (cases "HasPrefix (Header_Get ''Content-Type'' (hr_headers r)) ''application/json''")
  case False
  then show ?thesis by (simp add: webhook_prog_def HandleEvent_def check_request_def reply_with_def Let_def)
next
  case ct: True
  show ?thesis
  proof (cases "decode_request (hr_body r) (hr_body_err r)")
    case None
    with ct show ?thesis by (simp add: webhook_prog_def HandleEvent_def check_request_def reply_with_def Let_def)
  next
    case (Some req)
    obtain g s1 where "Get (po_store po) (wr_IdempotencyKey req) s = (g, s1)" by force
    then show ?thesis
      by (simp add: webhook_prog_def HandleEvent_def check_request_def reply_with_def Let_def idem ct Some acc
          split: option.split sum.split prod.split)
  qed
qed

lemma run_webhook:
  "run po (webhook_prog base pub topic ttl env r) (m, s) =
     (let res = HandleEvent (NewWebhookHandler
          (NewIngestEvent (po_repo po) (if pub then Some (po_pub po) else None) topic) (po_store po) ttl) env r (m, s)
      in (h_ops res, h_state res))"
  by (rule run_webhook_parts [OF run_accept]) (simp add: NewWebhookHandler_def)

section \<open>Properties\<close>

text \<open>The programs of the binaries, over the ports they wire.\<close>

definition stack_ports ::
  "'s pg_driver \<Rightarrow> 's kafka_writer \<Rightarrow> (HeaderCarrier \<Rightarrow> HeaderCarrier) \<Rightarrow> 's ch_conn \<Rightarrow> ('s \<Rightarrow> time) \<Rightarrow> 's ports" where
  "stack_ports db w tr conn now = \<lparr>po_repo = NewEventRepository db now, po_pub = NewProducer w tr now,
     po_writer = NewEventWriter conn now, po_store = NewIdempotencyStore db\<rparr>"

text \<open>The programs, run alone, are the handlers the binaries wire.\<close>

lemma consume_run:
  "processMessage (worker_processor c db w tr conn now maxR topics) raw m s =
    (case run (stack_ports db w tr conn now) (consume_prog lg True maxR topics raw) (m, s) of
       (Returns u, z) \<Rightarrow> Returns z | (Panics x, z) \<Rightarrow> Panics x)"
proof -
  obtain m' s' where p: "processMessage (worker_processor c db w tr conn now maxR topics) raw m s = Returns (m', s')"
    using processMessage_returns [of "worker_processor c db w tr conn now maxR topics" raw m s] by auto
  then have "run (stack_ports db w tr conn now) (consume_prog lg True maxR topics raw) (m, s) = (Returns (), (m', s'))"
    by (intro run_consume [where c = c]) (simp add: stack_ports_def worker_processor_def worker_process_def)
  with p show ?thesis by simp
qed

lemma dead_run:
  "run (stack_ports db w tr conn now) (dead_prog lg raw) (m, s) =
    ((), (m, case delivery raw of None \<Rightarrow> s | Some msg \<Rightarrow> dlq_handle (worker_dlq c db now) msg s))"
  using run_dead [where c = c and po = "stack_ports db w tr conn now"]
  by (auto simp: stack_ports_def worker_dlq_def delivery_def dead_prog_def split: option.split sum.splits)

lemma webhook_run:
  "run (stack_ports db w tr conn now) (webhook_prog lg True topic ttl env r) (m, s) =
    (let res = HandleEvent (server_webhook db w tr now topic ttl) env r (m, s) in (h_ops res, h_state res))"
  using run_webhook [of "stack_ports db w tr conn now" lg True topic ttl env r m s]
  by (simp add: stack_ports_def server_webhook_eq)

text \<open>
  C14: no lost message is silent. When a delivery fails and the publish of its retry, or of its dead letter,
  fails as well, so that the message is lost, the handler has logged a line at the level of errors that
  says which of the two it was and carries the broker's error, whatever the configured level.
\<close>

theorem lost_message_is_logged:
  assumes "delivery raw = Some msg"
    and "Process_Execute (NewProcessEvent (po_repo po) (Some (po_writer po)) maxR) msg s = ((res, Some cause), s1)"
    and "(topic, key, v) = (if msg_Attempt msg < maxR
        then event_message (tp_Events topics) (msg_EventID msg) (wrap64 (msg_Attempt msg + 1))
        else event_message (tp_DLQ topics) (msg_EventID msg) (msg_Attempt msg))"
    and "Publish (po_pub po) topic key v s1 = (Some err, s2)"
  shows "\<exists>line \<in> set (said po (consume_prog lg True maxR topics raw) s).
    ll_level line = LevelError \<and> (''error'', Error err) \<in> set (ll_attrs line) \<and>
    ll_msg line = (if msg_Attempt msg < maxR then ''re-publish for retry failed'' else ''publish to DLQ failed'')"
proof -
  let ?pe = "NewProcessEvent (po_repo po) (Some (po_writer po)) maxR"
  have un: "UnmarshalEventMessage (km_Value raw) = Inr msg"
    using assms(1) by (auto simp: delivery_def split: sum.splits)
  have at: "log_at lg' LevelError t as = [\<lparr>ll_level = LevelError, ll_msg = t, ll_attrs = lg_attrs lg' @ as\<rparr>]" for lg' t as
    by (cases "lg_level lg'") (simp_all add: log_at_def less_eq_log_level_def)
  have r: "run po (process_prog lg True maxR msg) (m, s) = ((res, Some cause), (m, s1))" for m
    using run_process [of po lg True maxR msg m s] assms(2) by simp
  have act: "res_Action res = (if msg_Attempt msg < maxR then ProcessActionRetry else ProcessActionDLQ)"
    using process_action_iff_error [where uc = ?pe and msg = msg and s = s] assms(2)
    by (cases "res_Action res") (auto simp: NewProcessEvent_def)
  show ?thesis
  proof (cases "msg_Attempt msg < maxR")
    case True
    with assms(3,4) act show ?thesis
      by (simp add: consume_prog_def un Let_def said_bind [where m = new_metrics] r retry_prog_def event_message_def
          MarshalEventMessage_def at)
  next
    case False
    with assms(3,4) act show ?thesis
      by (simp add: consume_prog_def un Let_def said_bind [where m = new_metrics] r dlq_prog_def event_message_def
          MarshalEventMessage_def at log_error_def)
  qed
qed

definition world_ports :: "world ports" where
  "world_ports = stack_ports world_db world_writer id world_conn w_now"

theorem lost_message_is_logged_witness:
  "\<exists>line \<in> set (said world_ports (consume_prog (New_logger ''error'' ''json'') True 3
       \<lparr>tp_Events = ''events'', tp_DLQ = ''events.dlq''\<rparr> (demo_message 1))
       (world_with ''pending'' [Fine, Refused ''db'', Fine, Refused ''broker down''])).
     ll_msg line = ''re-publish for retry failed''"
proof -
  let ?s = "world_with ''pending'' [Fine, Refused ''db'', Fine, Refused ''broker down'']"
  let ?pe = "NewProcessEvent (po_repo world_ports) (Some (po_writer world_ports)) 3"
  let ?x = "Process_Execute ?pe \<lparr>msg_EventID = demo_id, msg_Attempt = 1\<rparr> ?s"
  let ?v = "snd (snd (event_message ''events'' demo_id 2))"
  let ?p = "Publish (po_pub world_ports) ''events'' demo_id ?v (snd ?x)"
  have x: "?x = ((\<lparr>res_Action = ProcessActionRetry, res_EventSource = []\<rparr>,
      Some (Wrap ''update event status: '' (ErrText ''db''))), snd ?x)"
    by (rule prod_eqI) (simp only: fst_conv, code_simp, simp)
  have p: "?p = (Some (Wrap ''kafka publish to events: '' (ErrText ''broker down'')), snd ?p)"
    by (rule prod_eqI) (simp only: fst_conv, code_simp, simp)
  have w: "wrap64 2 = 2" by code_simp
  from lost_message_is_logged [OF demo_delivery x _ p,
      where topics = "\<lparr>tp_Events = ''events'', tp_DLQ = ''events.dlq''\<rparr>" and lg = "New_logger ''error'' ''json''"]
  show ?thesis by (auto simp: w event_message_def)
qed

end
