(* ===== verification/Interleave.thy ===== *)
theory Interleave
  imports Programs System
begin

text \<open>
  Handlers that take turns. A configuration is the platform, the programs that are running (requests,
  deliveries and dead letters, on any number of servers and workers) and the responses sent. A step is one port call
  of one program, so any two handlers can interleave between any two of their calls, and a program can be
  cut off between any two of its calls by a crash, while its message is delivered again later. A call of a
  port makes one call of a driver that takes effect, so nothing finer can be observed. The
  invariant of \<open>Pipeline\<close> and the one of the stored keys survive; it is proved by what each program
  relies on, that ids it knows to be stored stay stored.
\<close>

section \<open>Configurations and steps\<close>

type_synonym thread = "rw_op list option prog"

text \<open>\<open>None\<close> is the end of a consumer's program, which answers nobody.\<close>

definition consumer_thread :: "'s stack \<Rightarrow> logger \<Rightarrow> kafka_message \<Rightarrow> thread" where
  "consumer_thread k lg raw = bind_prog (consume_prog lg True (sk_maxRetries k) (sk_topics k) raw) (\<lambda>_. Return None)"

definition dead_thread :: "logger \<Rightarrow> kafka_message \<Rightarrow> thread" where
  "dead_thread lg raw = bind_prog (dead_prog lg raw) (\<lambda>_. Return None)"

definition webhook_thread :: "'s stack \<Rightarrow> duration \<Rightarrow> logger \<Rightarrow> request_env \<Rightarrow> http_req \<Rightarrow> thread" where
  "webhook_thread k ttl lg env r =
     bind_prog (webhook_prog lg True (tp_Events (sk_topics k)) ttl env r) (\<lambda>ops. Return (Some ops))"

definition ports_of :: "'s stack \<Rightarrow> 's ports" where
  "ports_of k = stack_ports (sk_db k) (sk_writer k) (sk_inject k) (sk_conn k) (sk_now k)"

text \<open>One step of a program; log lines and metrics are steps that do nothing to the platform.\<close>

fun move :: "'s ports \<Rightarrow> 'a prog \<Rightarrow> 's \<Rightarrow> 'a prog \<times> 's" where
  "move po (Return x) s = (Return x, s)"
| "move po (Find i k) s = (case FindByID (po_repo po) i s of (r, s') \<Rightarrow> (k r, s'))"
| "move po (Lookup key k) s = (case Get (po_store po) key s of (r, s') \<Rightarrow> (k r, s'))"
| "move po (Call c k) s = (case do_call po c s of (r, s') \<Rightarrow> (k r, s'))"
| "move po (Say ls p) s = (p, s)"
| "move po (Count g p) s = (p, s)"

type_synonym 's config = "'s \<times> thread list \<times> rw_op list list"

inductive turn ::
  "'s stack \<Rightarrow> duration \<Rightarrow> ('s \<Rightarrow> tables) \<Rightarrow> ('s \<Rightarrow> kafka_message list) \<Rightarrow> ('s \<Rightarrow> log_row list)
     \<Rightarrow> 's config \<Rightarrow> 's config \<Rightarrow> bool"
  for k ttl tabs log logged where
  request: "valid_utf8 (re_newid env) \<Longrightarrow>
    turn k ttl tabs log logged (s, ts, out) (s, webhook_thread k ttl lg env r # ts, out)"
| deliver: "raw \<in> set (log s) \<Longrightarrow> km_Topic raw = tp_Events (sk_topics k) \<Longrightarrow>
    turn k ttl tabs log logged (s, ts, out) (s, consumer_thread k lg raw # ts, out)"
| dead: "raw \<in> set (log s) \<Longrightarrow> km_Topic raw = tp_DLQ (sk_topics k) \<Longrightarrow>
    turn k ttl tabs log logged (s, ts, out) (s, dead_thread lg raw # ts, out)"
| step: "move (ports_of k) p s = (p', s') \<Longrightarrow>
    turn k ttl tabs log logged (s, ts @ p # us, out) (s', ts @ p' # us, out)"
| reply: "turn k ttl tabs log logged (s, ts @ Return (Some ops) # us, out) (s, ts @ us, out @ [ops])"
| finish: "turn k ttl tabs log logged (s, ts @ Return None # us, out) (s, ts @ us, out)"
| crash: "turn k ttl tabs log logged (s, ts @ p # us, out) (s, ts @ us, out)"
| other: "event_at (tabs s') = event_at (tabs s) \<Longrightarrow> log s' = log s \<Longrightarrow> logged s' = logged s \<Longrightarrow>
    map_of (idempotency_keys (tabs s')) \<subseteq>\<^sub>m map_of (idempotency_keys (tabs s)) \<Longrightarrow>
    turn k ttl tabs log logged (s, ts, out) (s', ts, out)"

inductive_cases turnE [consumes 1, case_names request deliver dead step reply finish crash other]:
  "turn k ttl tabs log logged (s, ts, out) (s', ts', out')"

inductive turns_reach ::
  "'s stack \<Rightarrow> duration \<Rightarrow> ('s \<Rightarrow> tables) \<Rightarrow> ('s \<Rightarrow> kafka_message list) \<Rightarrow> ('s \<Rightarrow> log_row list)
     \<Rightarrow> 's config \<Rightarrow> bool"
  for k ttl tabs log logged where
  start: "started tabs log logged s \<Longrightarrow> turns_reach k ttl tabs log logged (s, [], [])"
| onward: "turns_reach k ttl tabs log logged c \<Longrightarrow> turn k ttl tabs log logged c c' \<Longrightarrow>
    turns_reach k ttl tabs log logged c'"

section \<open>Handlers run to their end\<close>

text \<open>A program that nobody interrupts takes the steps of its run.\<close>

lemma run_turns:
  "run (ports_of k) p (m, s) = (x, (m', s')) \<Longrightarrow>
   (turn k ttl tabs log logged)\<^sup>*\<^sup>* (s, ts @ p # us, out) (s', ts @ Return x # us, out)"
proof (induction p arbitrary: m s)
  case (Find i f)
  obtain r s1 where r: "FindByID (po_repo (ports_of k)) i s = (r, s1)" by force
  with Find.prems have "run (ports_of k) (f r) (m, s1) = (x, (m', s'))" by simp
  from converse_rtranclp_into_rtranclp [OF turn.step Find.IH [OF rangeI this]] r show ?case by simp
next
  case (Lookup key f)
  obtain r s1 where r: "Get (po_store (ports_of k)) key s = (r, s1)" by force
  with Lookup.prems have "run (ports_of k) (f r) (m, s1) = (x, (m', s'))" by simp
  from converse_rtranclp_into_rtranclp [OF turn.step Lookup.IH [OF rangeI this]] r show ?case by simp
next
  case (Call c f)
  obtain r s1 where r: "do_call (ports_of k) c s = (r, s1)" by force
  with Call.prems have "run (ports_of k) (f r) (m, s1) = (x, (m', s'))" by simp
  from converse_rtranclp_into_rtranclp [OF turn.step Call.IH [OF rangeI this]] r show ?case by simp
next
  case (Say ls p)
  from Say.prems have "run (ports_of k) p (m, s) = (x, (m', s'))" by simp
  from converse_rtranclp_into_rtranclp [OF turn.step Say.IH [OF this]] show ?case by simp
next
  case (Count g p)
  from Count.prems have "run (ports_of k) p (g m, s) = (x, (m', s'))" by simp
  from converse_rtranclp_into_rtranclp [OF turn.step Count.IH [OF this]] show ?case by simp
qed simp

lemma webhook_turns:
  assumes "valid_utf8 (re_newid env)" "HandleEvent (stack_webhook k ttl) env r (m, s) = res"
  shows "(turn k ttl tabs log logged)\<^sup>*\<^sup>* (s, ts, out) (snd (h_state res), ts, out @ [h_ops res])"
proof -
  let ?lg = "New_logger ''info'' ''json''"
  let ?p = "webhook_thread k ttl ?lg env r"
  have "run (ports_of k) ?p (m, s) = (Some (h_ops res), (fst (h_state res), snd (h_state res)))"
    using webhook_run [of "sk_db k" "sk_writer k" "sk_inject k" "sk_conn k" "sk_now k" ?lg
        "tp_Events (sk_topics k)" ttl env r m s] assms(2)
    by (simp add: webhook_thread_def run_bind ports_of_def stack_webhook_def Let_def)
  from run_turns [OF this, of ttl tabs log logged "[]" ts out]
  have "(turn k ttl tabs log logged)\<^sup>*\<^sup>* (s, ?p # ts, out) (snd (h_state res), Return (Some (h_ops res)) # ts, out)"
    by simp
  moreover have "turn k ttl tabs log logged (snd (h_state res), Return (Some (h_ops res)) # ts, out)
      (snd (h_state res), ts, out @ [h_ops res])"
    using turn.reply [of k ttl tabs log logged _ "[]"] by simp
  ultimately show ?thesis
    using turn.request [OF assms(1), of k ttl tabs log logged s ts out ?lg r]
    by (meson converse_rtranclp_into_rtranclp rtranclp.rtrancl_into_rtrancl)
qed

lemma finished_turns:
  assumes "run (ports_of k) p (m, s) = (None, (m', s'))" "turn k ttl tabs log logged (s, ts, out) (s, p # ts, out)"
  shows "(turn k ttl tabs log logged)\<^sup>*\<^sup>* (s, ts, out) (s', ts, out)"
  using run_turns [OF assms(1), of ttl tabs log logged "[]" ts out] assms(2)
    turn.finish [of k ttl tabs log logged s' "[]" ts out]
  unfolding append_Nil by (meson converse_rtranclp_into_rtranclp rtranclp.rtrancl_into_rtrancl)

lemma consumer_turns:
  assumes "raw \<in> set (log s)" "km_Topic raw = tp_Events (sk_topics k)"
    and "processMessage (stack_processor k) raw m s = Returns (m', s')"
  shows "(turn k ttl tabs log logged)\<^sup>*\<^sup>* (s, ts, out) (s', ts, out)"
proof -
  let ?lg = "New_logger ''info'' ''json''"
  obtain u where "run (ports_of k) (consume_prog ?lg True (sk_maxRetries k) (sk_topics k) raw) (m, s) = (Returns u, (m', s'))"
    using assms(3) consume_run [of "sk_reader k" "sk_db k" "sk_writer k" "sk_inject k" "sk_conn k" "sk_now k"
        "sk_maxRetries k" "sk_topics k" raw m s ?lg]
    by (auto simp: stack_processor_def ports_of_def split: prod.splits outcome.splits)
  then have "run (ports_of k) (consumer_thread k ?lg raw) (m, s) = (None, (m', s'))"
    by (simp add: consumer_thread_def run_bind)
  from finished_turns [OF this turn.deliver [where log = log, OF assms(1,2)]] show ?thesis .
qed

lemma dead_turns:
  assumes "raw \<in> set (log s)" "km_Topic raw = tp_DLQ (sk_topics k)" "delivery raw = Some msg"
  shows "(turn k ttl tabs log logged)\<^sup>*\<^sup>* (s, ts, out) (dlq_handle (stack_dlq k) msg s, ts, out)"
proof -
  let ?lg = "New_logger ''info'' ''json''"
  have "run (ports_of k) (dead_thread ?lg raw) (m, s) = (None, (m, dlq_handle (stack_dlq k) msg s))" for m
    using dead_run [of "sk_db k" "sk_writer k" "sk_inject k" "sk_conn k" "sk_now k" ?lg raw m s "sk_dlq_reader k"] assms(3)
    by (simp add: dead_thread_def run_bind ports_of_def stack_dlq_def)
  from finished_turns [OF this turn.dead [where log = log, OF assms(1,2)]] show ?thesis .
qed

section \<open>What a program may do\<close>

text \<open>
  \<open>K\<close> is the set of ids a program knows to be stored. \<open>sound_call\<close> says what it may call then,
  \<open>learns\<close> what the success of a call adds to \<open>K\<close>; \<open>safe\<close> demands that every call on every path is
  sound, whatever the platform answers within its laws, and that a result satisfies \<open>Q\<close>.
\<close>

fun sound_call :: "int \<Rightarrow> Topics \<Rightarrow> (string \<Rightarrow> string) \<Rightarrow> string set \<Rightarrow> port_call \<Rightarrow> bool" where
  "sound_call maxR topics canon K (DoInsert e) \<longleftrightarrow> sound_event e"
| "sound_call maxR topics canon K (DoUpdate i st) \<longleftrightarrow>
     st \<in> {EventStatusPending, EventStatusProcessing, EventStatusProcessed, EventStatusFailed}"
| "sound_call maxR topics canon K (DoIncrement i) \<longleftrightarrow> True"
| "sound_call maxR topics canon K (DoWrite e) \<longleftrightarrow> ev_ID e \<in> K \<and> \<not> terminal (ev_Status e)"
| "sound_call maxR topics canon K (DoPublish topic key v) \<longleftrightarrow>
     (\<exists>i n. valid_utf8 i \<and> 1 \<le> n \<and> n \<le> max 1 maxR \<and> canon i \<in> K \<and>
        ((topic, key, v) = event_message (tp_Events topics) i n \<or>
         (topic, key, v) = event_message (tp_DLQ topics) i n \<and> n = max 1 maxR))"
| "sound_call maxR topics canon K (DoSet key e) \<longleftrightarrow>
     (\<exists>i tr x. e = \<lparr>en_EventID = i, en_Response = webhookResponse i tr, en_ExpiresAt = x\<rparr> \<and> canon i \<in> K)"

fun learns :: "(string \<Rightarrow> string) \<Rightarrow> port_call \<Rightarrow> string set" where
  "learns canon (DoInsert e) = {canon (ev_ID e)}"
| "learns canon _ = {}"

primrec safe ::
  "int \<Rightarrow> Topics \<Rightarrow> (string \<Rightarrow> string) \<Rightarrow> (Entry \<Rightarrow> Entry) \<Rightarrow> ('a \<Rightarrow> string set \<Rightarrow> bool) \<Rightarrow> 'a prog
     \<Rightarrow> string set \<Rightarrow> bool" where
  "safe maxR topics canon kept Q (Return x) = Q x"
| "safe maxR topics canon kept Q (Find i k) = (\<lambda>K.
     (\<forall>x. safe maxR topics canon kept Q (k (Inl x)) K) \<and>
     (\<forall>e. ev_ID e = canon i \<longrightarrow> sound_event e \<longrightarrow> safe maxR topics canon kept Q (k (Inr e)) (insert (canon i) K)))"
| "safe maxR topics canon kept Q (Lookup key k) = (\<lambda>K.
     (\<forall>x. safe maxR topics canon kept Q (k (Inl x)) K) \<and> safe maxR topics canon kept Q (k (Inr None)) K \<and>
     (\<forall>i tr x. safe maxR topics canon kept Q
        (k (Inr (Some (kept \<lparr>en_EventID = i, en_Response = webhookResponse i tr, en_ExpiresAt = x\<rparr>))))
        (insert (canon i) K)))"
| "safe maxR topics canon kept Q (Call c k) = (\<lambda>K.
     sound_call maxR topics canon K c \<and> safe maxR topics canon kept Q (k None) (K \<union> learns canon c) \<and>
     (\<forall>x. safe maxR topics canon kept Q (k (Some x)) K))"
| "safe maxR topics canon kept Q (Say ls p) = safe maxR topics canon kept Q p"
| "safe maxR topics canon kept Q (Count g p) = safe maxR topics canon kept Q p"

lemma sound_call_mono: "sound_call maxR topics canon K c \<Longrightarrow> K \<subseteq> K' \<Longrightarrow> sound_call maxR topics canon K' c"
  by (cases c) auto

lemma safe_bind:
  "safe maxR topics canon kept Q' p K \<Longrightarrow>
   (\<And>x K'. Q' x K' \<Longrightarrow> safe maxR topics canon kept Q (f x) K') \<Longrightarrow>
   safe maxR topics canon kept Q (bind_prog p f) K"
  by (induction p arbitrary: K) auto

text \<open>A response that accepts or replays names an event of \<open>K\<close>.\<close>

definition honest :: "(string \<Rightarrow> string) \<Rightarrow> (Entry \<Rightarrow> Entry) \<Rightarrow> string set \<Rightarrow> rw_op list \<Rightarrow> bool" where
  "honest canon kept K ops \<longleftrightarrow> rs_status (answer ops) \<notin> {200, 202} \<or>
     (\<exists>i tr x. canon i \<in> K \<and> rs_body (answer ops) \<in> {webhookResponse i tr @ newline,
        en_Response (kept \<lparr>en_EventID = i, en_Response = webhookResponse i tr, en_ExpiresAt = x\<rparr>)})"

definition honest_end :: "(string \<Rightarrow> string) \<Rightarrow> (Entry \<Rightarrow> Entry) \<Rightarrow> rw_op list option \<Rightarrow> string set \<Rightarrow> bool" where
  "honest_end canon kept res K \<longleftrightarrow> (case res of None \<Rightarrow> True | Some ops \<Rightarrow> honest canon kept K ops)"

lemma honest_mono: "honest canon kept K ops \<Longrightarrow> K \<subseteq> K' \<Longrightarrow> honest canon kept K' ops"
  unfolding honest_def by blast

text \<open>What the use case of a delivery has established when it is done.\<close>

definition processed_end ::
  "int \<Rightarrow> string \<Rightarrow> int \<Rightarrow> ProcessEventResult \<times> go_error option \<Rightarrow> string set \<Rightarrow> bool" where
  "processed_end maxR j n res K \<longleftrightarrow> j \<in> K \<and>
     (res_Action (fst res) = ProcessActionRetry \<longrightarrow> n < maxR) \<and>
     (res_Action (fst res) = ProcessActionDLQ \<longrightarrow> maxR \<le> n)"

lemma safe_failure:
  "canon (msg_EventID msg) \<in> K \<Longrightarrow>
   safe maxR topics canon kept (processed_end maxR (canon (msg_EventID msg)) (msg_Attempt msg))
     (failure_prog lg maxR msg cause) K"
  by (simp add: failure_prog_def processed_end_def del: status_defs)

lemma safe_process:
  assumes "canon (msg_EventID msg) \<in> K"
  shows "safe maxR topics canon kept (processed_end maxR (canon (msg_EventID msg)) (msg_Attempt msg))
     (process_prog lg an maxR msg) K"
proof -
  have "safe maxR topics canon kept (processed_end maxR (canon (msg_EventID msg)) (msg_Attempt msg))
      (failure_prog lg maxR msg cause) K'" if "K \<subseteq> K'" for K' cause
    using assms that by (intro safe_failure) auto
  then show ?thesis
    using assms
    by (auto simp: process_prog_def processed_end_def terminal_def subset_insertI simp del: status_defs
        split: sum.split option.split)
qed

lemma sound_publish:
  assumes "MarshalEventMessage \<lparr>msg_EventID = i, msg_Attempt = n\<rparr> = Inr v"
    and "valid_utf8 i" "canon i \<in> K" "1 \<le> n" "n \<le> max 1 maxR"
  shows "sound_call maxR topics canon K (DoPublish (tp_Events topics) i v)"
    and "n = max 1 maxR \<Longrightarrow> sound_call maxR topics canon K (DoPublish (tp_DLQ topics) i v)"
proof -
  have m: "(topic, i, v) = event_message topic i n" for topic
    using assms(1) by (simp add: MarshalEventMessage_def event_message_def)
  show "sound_call maxR topics canon K (DoPublish (tp_Events topics) i v)"
    unfolding sound_call.simps by (intro exI [of _ i] exI [of _ n] conjI assms(2-5) disjI1 m)
  show "sound_call maxR topics canon K (DoPublish (tp_DLQ topics) i v)" if "n = max 1 maxR"
    unfolding sound_call.simps by (intro exI [of _ i] exI [of _ n] conjI assms(2-5) disjI2 m that)
qed

lemma safe_consume:
  assumes "delivery raw = Some \<lparr>msg_EventID = i, msg_Attempt = n\<rparr>"
    and "valid_utf8 i" "1 \<le> n" "n \<le> max 1 maxR" "canon i \<in> K" "in_int64 maxR"
    and Q: "\<And>x K'. Q x K'"
  shows "safe maxR topics canon kept Q (consume_prog lg True maxR topics raw) K"
proof -
  let ?m = "\<lparr>msg_EventID = i, msg_Attempt = n\<rparr>"
  have un: "UnmarshalEventMessage (km_Value raw) = Inr ?m"
    using assms(1) by (auto simp: delivery_def split: sum.splits)
  have retry: "safe maxR topics canon kept (\<lambda>_ _. True) (retry_prog lg' topics ?m) K'"
    if "n < maxR" "canon i \<in> K'" for lg' K'
  proof -
    have w: "wrap64 (n + 1) = n + 1" using assms(3,6) that by (simp add: int64_defs)
    have "sound_call maxR topics canon K' (DoPublish (tp_Events topics) i v)"
      if "MarshalEventMessage \<lparr>msg_EventID = i, msg_Attempt = n + 1\<rparr> = Inr v" for v
      using assms \<open>n < maxR\<close> \<open>canon i \<in> K'\<close> by (intro sound_publish(1) [OF that]) simp_all
    then show ?thesis
      by (simp add: retry_prog_def w Let_def del: sound_call.simps split: sum.split)
  qed
  have dead: "safe maxR topics canon kept (\<lambda>_ _. True) (dlq_prog lg' topics ?m) K'"
    if "maxR \<le> n" "canon i \<in> K'" for lg' K'
  proof -
    have "sound_call maxR topics canon K' (DoPublish (tp_DLQ topics) i v)"
      if "MarshalEventMessage ?m = Inr v" for v
      using assms \<open>maxR \<le> n\<close> \<open>canon i \<in> K'\<close> by (intro sound_publish(2) [OF that]) simp_all
    then show ?thesis
      by (simp add: dlq_prog_def del: sound_call.simps split: sum.split)
  qed
  have "safe maxR topics canon kept (processed_end maxR (canon i) n) (process_prog lg' True maxR ?m) K" for lg'
    using safe_process [of canon ?m K maxR topics kept lg' True] assms(5) by simp
  then show ?thesis
    by (auto simp: consume_prog_def un processed_end_def Q Let_def
        split: ProcessAction.split option.split intro!: safe_bind retry dead)
qed

lemma safe_dead: "(\<And>x K'. Q x K') \<Longrightarrow> safe maxR topics canon kept Q (dead_prog lg raw) K"
  by (simp add: dead_prog_def del: status_defs split: sum.split)

lemma safe_ingest:
  assumes "valid_utf8 newid"
  shows "safe maxR topics canon kept
    (\<lambda>x K'. case x of Inl _ \<Rightarrow> True | Inr out \<Rightarrow> out_EventID out = newid \<and> canon newid \<in> K')
    (ingest_prog lg True (tp_Events topics) newid now inp) K"
proof -
  have e: "sound_event (new_event newid now inp)" "ev_ID (new_event newid now inp) = newid"
    by (simp_all add: new_event_def sound_event_def)
  have "sound_call maxR topics canon K' (DoPublish (tp_Events topics) newid v)"
    if "MarshalEventMessage \<lparr>msg_EventID = newid, msg_Attempt = 1\<rparr> = Inr v" "canon newid \<in> K'" for v K'
    using assms that by (intro sound_publish(1) [OF that(1)]) simp_all
  then show ?thesis
    using e by (simp add: ingest_prog_def Let_def del: sound_call.simps(5) split: sum.split)
qed

lemma safe_accept:
  assumes "valid_utf8 (re_newid env)"
  shows "safe maxR topics canon kept (\<lambda>ops K'. honest canon kept K' ops)
    (accept_prog base lg True (tp_Events topics) ttl env req) K"
proof -
  have "honest canon kept K' (writeJSON 202 (webhookResponse i tr))" if "canon i \<in> K'" for i tr K'
    using that unfolding honest_def answer_writeJSON by blast
  then show ?thesis
    unfolding accept_prog_def
    by (intro safe_bind [OF safe_ingest [OF assms]])
      (auto simp: Let_def honest_def [where ops = "respondError _ _ _"] split: sum.splits)
qed

lemma safe_webhook:
  assumes "valid_utf8 (re_newid env)"
  shows "safe maxR topics canon kept (\<lambda>ops K'. honest canon kept K' ops)
    (webhook_prog base True (tp_Events topics) ttl env r) K"
proof -
  have e: "honest canon kept K' (respondError st c msg)" if "st \<notin> {200, 202}" for st c msg K'
    using that by (simp add: honest_def)
  have "honest canon kept (insert (canon i) K')
      (replay (kept \<lparr>en_EventID = i, en_Response = webhookResponse i tr, en_ExpiresAt = x\<rparr>))" for i tr x K'
    unfolding honest_def answer_replay by blast
  then show ?thesis
    using safe_accept [OF assms] by (simp add: webhook_prog_def Let_def e split: option.split)
qed

text \<open>The programs of the three kinds of handlers.\<close>

lemma safe_threads:
  "valid_utf8 (re_newid env) \<Longrightarrow> safe (sk_maxRetries k) (sk_topics k) canon kept (honest_end canon kept)
     (webhook_thread k ttl lg env r) {}"
  "delivery raw = Some \<lparr>msg_EventID = i, msg_Attempt = n\<rparr> \<Longrightarrow> valid_utf8 i \<Longrightarrow> 1 \<le> n \<Longrightarrow>
   n \<le> max 1 (sk_maxRetries k) \<Longrightarrow> in_int64 (sk_maxRetries k) \<Longrightarrow>
   safe (sk_maxRetries k) (sk_topics k) canon kept (honest_end canon kept) (consumer_thread k lg raw) {canon i}"
  "safe (sk_maxRetries k) (sk_topics k) canon kept (honest_end canon kept) (dead_thread lg raw) {}"
proof -
  note known = honest_end_def
  show "safe (sk_maxRetries k) (sk_topics k) canon kept (honest_end canon kept) (webhook_thread k ttl lg env r) {}"
    if "valid_utf8 (re_newid env)"
    unfolding webhook_thread_def by (rule safe_bind [OF safe_webhook [OF that]]) (simp add: known)
  show "safe (sk_maxRetries k) (sk_topics k) canon kept (honest_end canon kept) (consumer_thread k lg raw) {canon i}"
    if "delivery raw = Some \<lparr>msg_EventID = i, msg_Attempt = n\<rparr>" "valid_utf8 i" "1 \<le> n"
      "n \<le> max 1 (sk_maxRetries k)" "in_int64 (sk_maxRetries k)"
    unfolding consumer_thread_def
    by (rule safe_bind [OF safe_consume [where Q = "\<lambda>_ _. True"]]) (use that in \<open>simp_all add: known\<close>)
  show "safe (sk_maxRetries k) (sk_topics k) canon kept (honest_end canon kept) (dead_thread lg raw) {}"
    unfolding dead_thread_def by (rule safe_bind [OF safe_dead [where Q = "\<lambda>_ _. True"]]) (simp_all add: known)
qed

section \<open>One step\<close>

text \<open>
  The invariant of the platform: the one of the pipeline and, for every stored key, an entry made of
  the response an event that is stored was accepted with.
\<close>

definition keys_named ::
  "(string \<Rightarrow> string) \<Rightarrow> (Entry \<Rightarrow> Entry) \<Rightarrow> (string \<Rightarrow> event option) \<Rightarrow> (string \<Rightarrow> Entry option) \<Rightarrow> bool" where
  "keys_named canon kept rows entries \<longleftrightarrow> (\<forall>key e. entries key = Some e \<longrightarrow>
     (\<exists>i tr x. canon i \<in> dom rows \<and>
        e = kept \<lparr>en_EventID = i, en_Response = webhookResponse i tr, en_ExpiresAt = x\<rparr>))"

lemma keys_named_mono: "keys_named canon kept rows m \<Longrightarrow> dom rows \<subseteq> dom rows' \<Longrightarrow> keys_named canon kept rows' m"
  unfolding keys_named_def by blast

definition orderly ::
  "int \<Rightarrow> Topics \<Rightarrow> (string \<Rightarrow> string) \<Rightarrow> (Entry \<Rightarrow> Entry) \<Rightarrow> (string \<Rightarrow> event option)
     \<Rightarrow> (string \<times> string \<times> string) list \<Rightarrow> log_row list \<Rightarrow> (string \<Rightarrow> Entry option) \<Rightarrow> bool" where
  "orderly maxR topics canon kept rows sent written entries \<longleftrightarrow>
     pipe_inv maxR topics canon rows sent written \<and> keys_named canon kept rows entries"

lemma orderly_row:
  "orderly maxR topics canon kept rows sent written entries \<Longrightarrow> sound_event e \<Longrightarrow>
   orderly maxR topics canon kept (rows(j \<mapsto> e)) sent written entries"
  unfolding orderly_def by (auto intro: pipe_inv_row_only keys_named_mono)

lemma orderly_more:
  "orderly maxR topics canon kept rows sent written entries \<Longrightarrow>
   list_all (sound_message maxR topics canon rows) new \<Longrightarrow> list_all (sound_row rows) new_rows \<Longrightarrow>
   orderly maxR topics canon kept rows (sent @ new) (written @ new_rows) entries"
  unfolding orderly_def by (auto simp: pipe_inv_def)

lemma orderly_event: "orderly maxR topics canon kept rows sent written entries \<Longrightarrow> rows i = Some e \<Longrightarrow> sound_event e"
  unfolding orderly_def by (blast dest: pipe_invD)

context platform
begin

lemma call_keeps:
  assumes c: "sound_call maxR topics canon (dom (rows s)) c"
    and o: "orderly maxR topics canon kept (rows s) (sent s) (written s) (entries s)"
    and d: "do_call \<lparr>po_repo = repo, po_pub = pub, po_writer = writer, po_store = store\<rparr> c s = (r, s')"
  shows "orderly maxR topics canon kept (rows s') (sent s') (written s') (entries s') \<and>
    dom (rows s) \<subseteq> dom (rows s') \<and> (r = None \<longrightarrow> learns canon c \<subseteq> dom (rows s'))"
proof (cases c)
  case (DoInsert e)
  have i: "Insert repo e s = (r, s')" using d DoInsert by simp
  have s': "sent s' = sent s" "written s' = written s" "entries s' = entries s"
    using untouched(1-3) [of e s] i by simp_all
  have "sound_event (stored e)" using c DoInsert by (simp add: sound_event_def repo.stored_fields)
  note row = orderly_row [OF o this, of "canon (ev_ID e)"]
  show ?thesis
  proof (cases r)
    case None
    with repo.insert_ok i have "rows s' = (rows s)(canon (ev_ID e) \<mapsto> stored e)" by blast
    with row show ?thesis by (auto simp: DoInsert s')
  next
    case (Some x)
    with repo.insert_err i have "rows s' = rows s \<or> rows s' = (rows s)(canon (ev_ID e) \<mapsto> stored e)" by blast
    with row o Some show ?thesis by (auto simp: s')
  qed
next
  case (DoUpdate i st)
  then have s': "s' = snd (UpdateStatus repo i st s)" using d by simp
  have "sound_event (with_status st t e)" if "rows s (canon i) = Some e" for t e
    using orderly_event [OF o that] c DoUpdate by (simp add: sound_event_def)
  then show ?thesis
    using repo.update_rows [of i st s] orderly_row [OF o] o DoUpdate by (auto simp: s' simp del: status_defs)
next
  case (DoIncrement i)
  then have s': "s' = snd (IncrementRetry repo i s)" using d by simp
  have "sound_event (with_retry e)" if "rows s (canon i) = Some e" for e
    using orderly_event [OF o that] by (simp add: sound_event_def)
  then show ?thesis
    using repo.incr_rows [of i s] orderly_row [OF o] o DoIncrement by (auto simp: s')
next
  case (DoWrite e)
  then have s': "s' = snd (WriteEvent writer e s)" using d by simp
  have "sound_row (rows s) x" if "row_of_event e x" for x
    using that c DoWrite by (auto simp: sound_row_def row_of_event_def)
  then show ?thesis
    using writer.write_written [of e s] orderly_more [OF o, of "[]"] o DoWrite by (auto simp: s')
next
  case (DoPublish topic key v)
  then have s': "s' = snd (Publish pub topic key v s)" using d by simp
  have "sound_message maxR topics canon (rows s) (topic, key, v)"
    using c unfolding DoPublish sound_call.simps sound_message_def domIff .
  then have "list_all (sound_message maxR topics canon (rows s)) (replicate n (topic, key, v))" for n
    by (simp add: list_all_iff)
  then show ?thesis
    using pub.publish_sent [of topic key v s] orderly_more [OF o, of _ "[]"] DoPublish by (auto simp: s')
next
  case (DoSet key e)
  then have s': "s' = snd (Set store key e s)" using d by simp
  obtain i tr x where e: "e = \<lparr>en_EventID = i, en_Response = webhookResponse i tr, en_ExpiresAt = x\<rparr>"
    "canon i \<in> dom (rows s)" using c DoSet by auto
  then have "keys_named canon kept (rows s) ((entries s)(keyed key \<mapsto> kept e))"
    using o by (auto simp: orderly_def keys_named_def)
  then show ?thesis
    using store.set_entries [of key e s] o DoSet by (auto simp: s' orderly_def)
qed

text \<open>A step of a program that is safe with what is stored.\<close>

lemma move_keeps:
  assumes p: "safe maxR topics canon kept Q p K" and k: "K \<subseteq> dom (rows s)"
    and o: "orderly maxR topics canon kept (rows s) (sent s) (written s) (entries s)"
    and m: "move \<lparr>po_repo = repo, po_pub = pub, po_writer = writer, po_store = store\<rparr> p s = (p', s')"
  shows "orderly maxR topics canon kept (rows s') (sent s') (written s') (entries s') \<and>
    dom (rows s) \<subseteq> dom (rows s') \<and> (\<exists>K' \<subseteq> dom (rows s'). safe maxR topics canon kept Q p' K')"
proof (cases p)
  case (Find i f)
  obtain x where f: "FindByID repo i s = (x, s')" "p' = f x" using m Find by (auto split: prod.splits)
  have s': "s' = snd (FindByID repo i s)" using f by simp
  have "\<exists>K' \<subseteq> dom (rows s). safe maxR topics canon kept Q p' K'"
  proof (cases x)
    case (Inl y)
    with p k Find f show ?thesis by auto
  next
    case (Inr e)
    then have e: "rows s (canon i) = Some e" using repo.find_ok f by blast
    then have "safe maxR topics canon kept Q p' (insert (canon i) K)"
      using p Find f Inr orderly_event [OF o e] repo.rows_id [OF e] by simp
    with k e show ?thesis by (intro exI [of _ "insert (canon i) K"]) auto
  qed
  then show ?thesis using o by (simp add: s')
next
  case (Lookup key f)
  obtain x where f: "Get store key s = (x, s')" "p' = f x" using m Lookup by (auto split: prod.splits)
  have s': "s' = snd (Get store key s)" using f by simp
  have "\<exists>K' \<subseteq> dom (rows s). safe maxR topics canon kept Q p' K'"
  proof (cases "\<exists>e. x = Inr (Some e)")
    case False
    with p k Lookup f show ?thesis by (cases x) (auto simp: not_Some_eq)
  next
    case True
    then obtain e where x: "x = Inr (Some e)" by blast
    then have "entries s key = Some e" using store.get_some f by blast
    then obtain i tr t where e: "canon i \<in> dom (rows s)"
      "e = kept \<lparr>en_EventID = i, en_Response = webhookResponse i tr, en_ExpiresAt = t\<rparr>"
      using o unfolding orderly_def keys_named_def by blast
    then have "safe maxR topics canon kept Q p' (insert (canon i) K)"
      using p Lookup f x by simp
    with k e show ?thesis by (intro exI [of _ "insert (canon i) K"]) simp
  qed
  then show ?thesis using o by (simp add: s')
next
  case (Call c f)
  obtain r where d: "do_call \<lparr>po_repo = repo, po_pub = pub, po_writer = writer, po_store = store\<rparr> c s = (r, s')"
    "p' = f r" using m Call by (auto split: prod.splits)
  have "sound_call maxR topics canon K c" using p Call by simp
  then have "sound_call maxR topics canon (dom (rows s)) c" by (rule sound_call_mono [OF _ k])
  note C = call_keeps [OF this o d(1)]
  have "safe maxR topics canon kept Q p' (if r = None then K \<union> learns canon c else K)"
    using p Call d(2) by (cases r) auto
  then show ?thesis using C k
    by (intro conjI exI [of _ "if r = None then K \<union> learns canon c else K"]) auto
qed (use assms in auto)

end

section \<open>The reachable configurations\<close>

text \<open>What holds of a configuration: every program that runs is safe with what is stored.\<close>

definition config_inv ::
  "'s stack \<Rightarrow> (string \<Rightarrow> string) \<Rightarrow> (Entry \<Rightarrow> Entry) \<Rightarrow> (string \<Rightarrow> event option)
     \<Rightarrow> (string \<times> string \<times> string) list \<Rightarrow> log_row list \<Rightarrow> (string \<Rightarrow> Entry option) \<Rightarrow> thread list
     \<Rightarrow> rw_op list list \<Rightarrow> bool" where
  "config_inv k canon kept rows sent written entries ts out \<longleftrightarrow>
     orderly (sk_maxRetries k) (sk_topics k) canon kept rows sent written entries \<and>
     (\<forall>p \<in> set ts. \<exists>K \<subseteq> dom rows. safe (sk_maxRetries k) (sk_topics k) canon kept (honest_end canon kept) p K) \<and>
     (\<forall>ops \<in> set out. honest canon kept (dom rows) ops)"

lemma config_inv_thread:
  "config_inv k canon kept rows sent written entries ts out \<Longrightarrow>
   safe (sk_maxRetries k) (sk_topics k) canon kept (honest_end canon kept) p K \<Longrightarrow> K \<subseteq> dom rows \<Longrightarrow>
   config_inv k canon kept rows sent written entries (p # ts) out"
  unfolding config_inv_def by auto

lemma config_inv_drop:
  "config_inv k canon kept rows sent written entries (ts @ p # us) out \<Longrightarrow>
   config_inv k canon kept rows sent written entries (ts @ us) out"
  unfolding config_inv_def by auto

lemma config_inv_reply:
  assumes "config_inv k canon kept rows sent written entries (ts @ Return (Some ops) # us) out"
  shows "config_inv k canon kept rows sent written entries (ts @ us) (out @ [ops])"
proof -
  obtain K where "K \<subseteq> dom rows" "honest canon kept K ops"
    using assms by (auto simp: config_inv_def honest_end_def)
  then have "honest canon kept (dom rows) ops" using honest_mono by blast
  with config_inv_drop [OF assms] show ?thesis by (auto simp: config_inv_def)
qed

lemma config_inv_change:
  assumes "config_inv k canon kept rows sent written entries (ts @ us) out"
    and "orderly (sk_maxRetries k) (sk_topics k) canon kept rows' sent' written' entries'" "dom rows \<subseteq> dom rows'"
  shows "config_inv k canon kept rows' sent' written' entries' (ts @ us) out"
proof -
  have "\<exists>K \<subseteq> dom rows'. safe (sk_maxRetries k) (sk_topics k) canon kept (honest_end canon kept) p K"
    if "p \<in> set (ts @ us)" for p
    using assms(1,3) that unfolding config_inv_def by (meson order_trans)
  moreover have "honest canon kept (dom rows') ops" if "ops \<in> set out" for ops
    using assms(1,3) that honest_mono unfolding config_inv_def by blast
  ultimately show ?thesis using assms(2) unfolding config_inv_def by blast
qed

context drivers
begin

abbreviation config :: "'s stack \<Rightarrow> 's \<Rightarrow> thread list \<Rightarrow> rw_op list list \<Rightarrow> bool" where
  "config k s ts out \<equiv> config_inv k (pg_canon uuid) (pg_kept uuid jsonb) (event_at (tabs s))
     (map message_key (log s)) (logged s) (map_of (idempotency_keys (tabs s))) ts out"

lemma turn_keeps:
  assumes k: "sk_db k = db" "sk_writer k = w" "sk_conn k = conn"
    and t: "tp_Events (sk_topics k) \<noteq> tp_DLQ (sk_topics k)" and i: "in_int64 (sk_maxRetries k)"
    and inv: "config k s ts out"
    and turn: "turn k ttl tabs log logged (s, ts, out) (s', ts', out')"
  shows "config k s' ts' out'"
  using turn
proof (cases rule: turnE)
  case (request env lg r)
  with config_inv_thread [OF inv safe_threads(1)] show ?thesis by simp
next
  case (deliver raw lg)
  have "sound_message (sk_maxRetries k) (sk_topics k) (pg_canon uuid) (event_at (tabs s)) (message_key raw)"
    using inv deliver by (auto simp: config_inv_def orderly_def pipe_inv_def list_all_iff)
  from sound_delivery [OF this i t] obtain j n where
    d: "delivery raw = Some \<lparr>msg_EventID = j, msg_Attempt = n\<rparr>" "valid_utf8 j" "1 \<le> n"
      "n \<le> max 1 (sk_maxRetries k)" "event_at (tabs s) (pg_canon uuid j) \<noteq> None"
    by blast
  from config_inv_thread [OF inv safe_threads(2) [OF d(1-4) i]] d(5) deliver show ?thesis by auto
next
  case (dead raw lg)
  with config_inv_thread [OF inv safe_threads(3)] show ?thesis by simp
next
  case (step p p' vs us)
  then have ts: "ts = vs @ p # us" "ts' = vs @ p' # us" "out' = out" and m: "move (ports_of k) p s = (p', s')"
    by simp_all
  have po: "ports_of k = \<lparr>po_repo = NewEventRepository db (sk_now k), po_pub = NewProducer w (sk_inject k) (sk_now k),
      po_writer = NewEventWriter conn (sk_now k), po_store = NewIdempotencyStore db\<rparr>"
    by (simp add: ports_of_def stack_ports_def k)
  obtain K where K: "K \<subseteq> dom (event_at (tabs s))" "safe (sk_maxRetries k) (sk_topics k) (pg_canon uuid)
      (pg_kept uuid jsonb) (honest_end (pg_canon uuid) (pg_kept uuid jsonb)) p K"
    using inv ts by (auto simp: config_inv_def)
  have o: "orderly (sk_maxRetries k) (sk_topics k) (pg_canon uuid) (pg_kept uuid jsonb) (event_at (tabs s))
      (map message_key (log s)) (logged s) (map_of (idempotency_keys (tabs s)))"
    using inv by (simp add: config_inv_def)
  note M = stack.move_keeps [OF K(2,1) o m [unfolded po]]
  from config_inv_change [OF config_inv_drop [OF inv [unfolded ts]]] M
  have "config k s' (vs @ us) out" by blast
  with M show ?thesis unfolding ts by (auto simp: config_inv_def)
next
  case (reply vs ops us)
  with inv config_inv_reply show ?thesis by blast
next
  case (finish vs us)
  with inv config_inv_drop show ?thesis by blast
next
  case (crash vs p us)
  with inv config_inv_drop show ?thesis by blast
next
  case other
  have "keys_named (pg_canon uuid) (pg_kept uuid jsonb) (event_at (tabs s)) (map_of (idempotency_keys (tabs s')))"
    using inv other by (auto simp: config_inv_def orderly_def keys_named_def map_le_def dom_def)
  with inv other show ?thesis by (auto simp: config_inv_def orderly_def)
qed

end

lemma turns_reach_inv:
  assumes dr: "drivers (sk_db k) tabs pgnow uuid jsonb (sk_writer k) log (sk_conn k) logged"
    and t: "tp_Events (sk_topics k) \<noteq> tp_DLQ (sk_topics k)" and i: "in_int64 (sk_maxRetries k)"
    and r: "turns_reach k ttl tabs log logged (s, ts, out)"
  shows "config_inv k (pg_canon uuid) (pg_kept uuid jsonb) (event_at (tabs s)) (map message_key (log s)) (logged s)
     (map_of (idempotency_keys (tabs s))) ts out"
  using r
proof (induction "(s, ts, out)" arbitrary: s ts out rule: turns_reach.induct)
  case (start s)
  then show ?case
    by (simp add: started_def config_inv_def orderly_def pipe_inv_def keys_named_def event_at_def)
next
  case (onward c)
  obtain s0 ts0 out0 where c: "c = (s0, ts0, out0)" by (cases c)
  from drivers.turn_keeps [OF dr refl refl refl t i onward(2) [OF c] onward(3) [unfolded c]] show ?case .
qed

section \<open>Properties\<close>

text \<open>
  C3: the invariant under interleaving and crashes. From an empty platform let any number of servers,
  workers and dead letter consumers run, take turns at every call of a store, of the broker or of
  ClickHouse, and be cut off between any two of their calls, their messages being delivered again:
  the invariant of the pipeline holds in every configuration; every stored key has the
  response of an event that is stored; and every response sent with 200 or 202 names a stored event.
\<close>

theorem interleaved_invariant:
  assumes "drivers (sk_db k) tabs pgnow uuid jsonb (sk_writer k) log (sk_conn k) logged"
    and "tp_Events (sk_topics k) \<noteq> tp_DLQ (sk_topics k)" and "in_int64 (sk_maxRetries k)"
    and "turns_reach k ttl tabs log logged (s, ts, out)"
  shows "pipe_inv (sk_maxRetries k) (sk_topics k) (pg_canon uuid) (event_at (tabs s)) (map message_key (log s)) (logged s) \<and>
    (\<forall>key e. map_of (idempotency_keys (tabs s)) key = Some e \<longrightarrow> names_event uuid jsonb (event_at (tabs s)) e) \<and>
    (\<forall>ops \<in> set out. rs_status (answer ops) \<in> {200, 202} \<longrightarrow>
       (\<exists>i tr e. event_at (tabs s) (pg_canon uuid i) = Some e \<and> sound_event e \<and>
          rs_body (answer ops) \<in> {webhookResponse i tr @ newline,
            case jsonb (webhookResponse i tr) of None \<Rightarrow> webhookResponse i tr | Some t \<Rightarrow> t}))"
proof (intro conjI allI ballI impI)
  note C = turns_reach_inv [OF assms]
  then have o: "orderly (sk_maxRetries k) (sk_topics k) (pg_canon uuid) (pg_kept uuid jsonb) (event_at (tabs s))
      (map message_key (log s)) (logged s) (map_of (idempotency_keys (tabs s)))"
    by (simp add: config_inv_def)
  then show "pipe_inv (sk_maxRetries k) (sk_topics k) (pg_canon uuid) (event_at (tabs s)) (map message_key (log s)) (logged s)"
    by (simp add: orderly_def)
  show "names_event uuid jsonb (event_at (tabs s)) e" if "map_of (idempotency_keys (tabs s)) key = Some e" for key e
    using o that by (auto simp: orderly_def keys_named_def names_event_def domIff)
  fix ops
  assume ops: "ops \<in> set out" "rs_status (answer ops) \<in> {200, 202}"
  with C have "honest (pg_canon uuid) (pg_kept uuid jsonb) (dom (event_at (tabs s))) ops"
    by (simp add: config_inv_def)
  then obtain i tr x where i: "pg_canon uuid i \<in> dom (event_at (tabs s))"
    "rs_body (answer ops) \<in> {webhookResponse i tr @ newline,
       en_Response (pg_kept uuid jsonb \<lparr>en_EventID = i, en_Response = webhookResponse i tr, en_ExpiresAt = x\<rparr>)}"
    using ops unfolding honest_def by blast
  then obtain e where e: "event_at (tabs s) (pg_canon uuid i) = Some e" by auto
  have "en_Response (pg_kept uuid jsonb \<lparr>en_EventID = i, en_Response = webhookResponse i tr, en_ExpiresAt = x\<rparr>) =
      (case jsonb (webhookResponse i tr) of None \<Rightarrow> webhookResponse i tr | Some t \<Rightarrow> t)"
    by (simp add: pg_kept_def split: option.split)
  with i e orderly_event [OF o e]
  show "\<exists>i tr e. event_at (tabs s) (pg_canon uuid i) = Some e \<and> sound_event e \<and>
      rs_body (answer ops) \<in> {webhookResponse i tr @ newline,
        case jsonb (webhookResponse i tr) of None \<Rightarrow> webhookResponse i tr | Some t \<Rightarrow> t}"
    by metis
qed

section \<open>A run\<close>

lemma turns_reach_steps:
  "(turn k ttl tabs log logged)\<^sup>*\<^sup>* c c' \<Longrightarrow> turns_reach k ttl tabs log logged c \<Longrightarrow>
   turns_reach k ttl tabs log logged c'"
  by (induction rule: rtranclp_induct) (auto intro: turns_reach.onward)

lemma demo_start: "turns_reach demo_stack hour w_tabs w_log w_rows (demo_world fs, [], [])"
  by (rule turns_reach.start) (simp add: started_def demo_world_def new_world_def)

lemma demo_id_valid: "valid_utf8 (re_newid demo_env)"
  by code_simp

lemma demo_turns_reach:
  "turns_reach demo_stack hour w_tabs w_log w_rows
     (snd (h_state (demo_handle hour (demo_world []))), [], [h_ops (demo_handle hour (demo_world []))])"
  using turns_reach_steps [OF webhook_turns [OF demo_id_valid refl] demo_start]
  unfolding demo_stack_webhook by simp

lemma demo_handled: "rs_status (answer (h_ops (demo_handle hour (demo_world [])))) = 202"
  using demo_first_ingest(1) by (auto simp: HandleEvent_def demo_proceeds reply_with_def demo_env_def split: prod.split)

theorem interleaved_invariant_witness:
  "\<exists>i e. event_at (w_tabs (snd (h_state (demo_handle hour (demo_world []))))) i = Some e \<and> sound_event e"
  using interleaved_invariant [OF demo_stack_drivers demo_turns_reach] demo_handled by auto

end
