(* ===== verification/Progress.thy ===== *)
theory Progress
  imports System
begin

text \<open>
  Progress. The laws of the drivers let every call fail; the locale \<open>healthy\<close> adds what the platform does
  while nothing fails: in the states \<open>ok\<close> a statement the database accepts is carried out and reported,
  a row that is there is found, batches and messages are taken, and the next state is \<open>ok\<close> again. Then a
  delivery brings its event to a terminal status, and an accepted request has a message that does so.
\<close>

locale healthy = drivers +
  fixes ok :: "'s \<Rightarrow> bool"
  assumes exec_runs: "ok s \<Longrightarrow> sql_exec uuid jsonb q (tabs s) = Some (n, t) \<Longrightarrow> fst (pg_Exec db q s) = Inr n"
    and row_found: "ok s \<Longrightarrow> uuid i = Some j \<Longrightarrow> event_at (tabs s) j = Some e \<Longrightarrow>
      fst (q_event db i s) = Inr (columns_of e)"
    and prepares: "ok s \<Longrightarrow> fst (PrepareBatch conn sql s) = None"
    and appends: "Append conn r = None"
    and sends: "ok s \<Longrightarrow> fst (Send conn rs s) = None"
    and queues: "ok s \<Longrightarrow> fst (WriteMessages w m s) = None"
    and stays: "ok s \<Longrightarrow> ok (snd (pg_Exec db q s))" "ok s \<Longrightarrow> ok (snd (q_event db i s))"
      "ok s \<Longrightarrow> ok (snd (PrepareBatch conn sql s))" "ok s \<Longrightarrow> ok (snd (Send conn rs s))"
      "ok s \<Longrightarrow> ok (snd (WriteMessages w m s))" "ok s \<Longrightarrow> ok (snd (q_key db key s))"
begin

lemma find_runs:
  assumes "ok s" "uuid i = Some j" "event_at (tabs s) j = Some e"
  obtains s' where "FindByID (NewEventRepository db now) i s = (Inr e, s')" "ok s'" "tabs s' = tabs s"
    "logged s' = logged s" "log s' = log s"
proof -
  obtain s' where q: "q_event db i s = (Inr (columns_of e), s')"
    using row_found [OF assms] by (metis prod.collapse)
  then have "FindByID (NewEventRepository db now) i s = (Inr e, s')"
    by (simp add: NewEventRepository_def pg_FindByID_def)
  moreover have "ok s'" using stays(2) [OF assms(1), of i] q by simp
  ultimately show ?thesis using that pg.reads_eq(1) [OF q] by simp
qed

lemma accepted_status: "status_check EventStatusProcessing" "status_check EventStatusProcessed"
  by (simp_all add: status_check_def)

lemma update_runs:
  assumes "ok s" "uuid j = Some j" "event_at (tabs s) j = Some e" "status_check st"
  obtains s' t where "UpdateStatus (NewEventRepository db now) j st s = (None, s')" "ok s'"
    "event_at (tabs s') = (event_at (tabs s))(j \<mapsto> with_status st t e)" "logged s' = logged s" "log s' = log s"
proof -
  let ?p = "if st = EventStatusProcessed then Some (now s) else None"
  let ?q = "UpdateEvent st ?p j"
  let ?n = "length (filter (\<lambda>e. ev_ID e = j) (webhook_events (tabs s)))"
  have "?n \<noteq> 0" using assms(3) find_eq_None [of j "webhook_events (tabs s)"] by (auto simp: event_at_def)
  moreover obtain t where "sql_exec uuid jsonb ?q (tabs s) = Some (?n, t)"
    using assms(2-4) by simp
  then obtain s' where q: "pg_Exec db ?q s = (Inr ?n, s')"
    using exec_runs [OF assms(1)] by (metis prod.collapse)
  ultimately have u: "UpdateStatus (NewEventRepository db now) j st s = (None, s')"
    unfolding NewEventRepository_def event_repository.simps pg_UpdateStatus_def Let_def q by simp
  obtain t where "event_at (tabs s') = (event_at (tabs s))(j \<mapsto> with_status st t e)"
    using sql_update_rows [OF pg.exec_ok [OF q]] \<open>?n \<noteq> 0\<close> assms(2,3) by (auto simp: pg_canon_def)
  moreover have "ok s'" using stays(1) [OF assms(1), of ?q] q by simp
  ultimately show ?thesis using that u pg.exec_frame [OF q] by blast
qed

lemma write_runs:
  assumes "ok s"
  obtains s' r where "WriteEvent (NewEventWriter conn now) e s = (None, s')" "ok s'"
    "tabs s' = tabs s" "log s' = log s" "logged s' = logged s @ [r]" "row_of_event e r"
proof -
  let ?r = "the_row (now s) e"
  obtain s1 where p: "PrepareBatch conn ''INSERT INTO events_log'' s = (None, s1)"
    using prepares [OF assms] by (metis prod.collapse)
  then have "ok s1" using stays(3) [OF assms] by (metis snd_conv)
  obtain s2 where q: "Send conn [?r] s1 = (None, s2)"
    using sends [OF \<open>ok s1\<close>] by (metis prod.collapse)
  have w: "WriteEvent (NewEventWriter conn now) e s = (None, s2)"
    using p q appends by (simp add: NewEventWriter_def ch_WriteEvent_def Let_def)
  have "tabs s2 = tabs s" "log s2 = log s"
    using ch.ch_writer.write_frame [where now = now and e = e and s = s] w by simp_all
  moreover have "ok s2" using stays(4) [OF \<open>ok s1\<close>] q by (metis snd_conv)
  moreover obtain r where "logged s2 = logged s @ [r]" "row_of_event e r"
    using ch.ch_writer.write_ok [OF w] by blast
  ultimately show ?thesis using that w by blast
qed

lemma Process_runs:
  assumes "ok s" "uuid (msg_EventID msg) = Some j" "uuid j = Some j" "event_at (tabs s) j = Some e" "ev_ID e = j"
  obtains res s' where
    "Process_Execute (NewProcessEvent (NewEventRepository db now) (Some (NewEventWriter conn now)) maxR) msg s =
      ((res, None), s')"
    "ok s'" "log s' = log s"
    "if terminal (ev_Status e) then event_at (tabs s') = event_at (tabs s) \<and> logged s' = logged s
     else (\<exists>e' r. event_at (tabs s') = (event_at (tabs s))(j \<mapsto> e') \<and> ev_Status e' = EventStatusProcessed \<and>
       logged s' = logged s @ [r] \<and> row_of_event e r)"
proof -
  obtain s1 where f: "FindByID (NewEventRepository db now) (msg_EventID msg) s = (Inr e, s1)"
    and s1: "ok s1" "tabs s1 = tabs s" "logged s1 = logged s" "log s1 = log s"
    using find_runs [OF assms(1,2,4)] by metis
  show ?thesis
  proof (cases "terminal (ev_Status e)")
    case True
    then show ?thesis
      using that f s1 by (simp add: Process_Execute_def NewProcessEvent_def terminal_def)
  next
    case False
    have e1: "event_at (tabs s1) j = Some e" using s1 assms(4) by simp
    obtain s2 t where u: "UpdateStatus (NewEventRepository db now) j EventStatusProcessing s1 = (None, s2)"
      and s2: "ok s2" "event_at (tabs s2) = (event_at (tabs s1))(j \<mapsto> with_status EventStatusProcessing t e)"
        "logged s2 = logged s1" "log s2 = log s1"
      by (rule update_runs [OF s1(1) assms(3) e1 accepted_status(1), of now])
    have e2: "event_at (tabs s2) j = Some (with_status EventStatusProcessing t e)" using s2(2) by simp
    obtain s3 r where w: "WriteEvent (NewEventWriter conn now) e s2 = (None, s3)"
      and s3: "ok s3" "tabs s3 = tabs s2" "log s3 = log s2" "logged s3 = logged s2 @ [r]" "row_of_event e r"
      by (rule write_runs [OF s2(1), of now e])
    have e3: "event_at (tabs s3) j = Some (with_status EventStatusProcessing t e)" using s3(2) e2 by simp
    obtain s4 t' where v: "UpdateStatus (NewEventRepository db now) j EventStatusProcessed s3 = (None, s4)"
      and s4: "ok s4" "event_at (tabs s4) =
          (event_at (tabs s3))(j \<mapsto> with_status EventStatusProcessed t' (with_status EventStatusProcessing t e))"
        "logged s4 = logged s3" "log s4 = log s3"
      by (rule update_runs [OF s3(1) assms(3) e3 accepted_status(2), of now])
    have x: "Process_Execute (NewProcessEvent (NewEventRepository db now) (Some (NewEventWriter conn now)) maxR) msg s =
        ((\<lparr>res_Action = ProcessActionDone, res_EventSource = ev_Source e\<rparr>, None), s4)"
      using False
      by (simp add: Process_Execute_def NewProcessEvent_def terminal_def f assms(5) u w v Let_def del: status_defs)
    have "event_at (tabs s4) =
        (event_at (tabs s))(j \<mapsto> with_status EventStatusProcessed t' (with_status EventStatusProcessing t e))"
      using s4(2) s3(2) s2(2) s1(2) by simp
    then have "\<exists>e' r. event_at (tabs s4) = (event_at (tabs s))(j \<mapsto> e') \<and> ev_Status e' = EventStatusProcessed \<and>
       logged s4 = logged s @ [r] \<and> row_of_event e r"
      using s4(3) s3(4,5) s2(3) s1(3)
      by (intro exI [of _ "with_status EventStatusProcessed t' (with_status EventStatusProcessing t e)"] exI [of _ r])
        simp
    moreover have "log s4 = log s" using s4(4) s3(3) s2(4) s1(4) by simp
    ultimately show ?thesis using that x s4(1) False by simp
  qed
qed

lemma delivery_runs:
  assumes "ok s" "delivery raw = Some msg" "uuid (msg_EventID msg) = Some j" "uuid j = Some j"
    and "event_at (tabs s) j = Some e" "ev_ID e = j"
    and "processMessage (NewProcessor c pub (NewProcessEvent (NewEventRepository db now)
        (Some (NewEventWriter conn now)) maxR) topics) raw m s = Returns (m', s')"
  shows "ok s' \<and> log s' = log s \<and>
    (if terminal (ev_Status e) then event_at (tabs s') = event_at (tabs s) \<and> logged s' = logged s
     else (\<exists>e' r. event_at (tabs s') = (event_at (tabs s))(j \<mapsto> e') \<and> ev_Status e' = EventStatusProcessed \<and>
       logged s' = logged s @ [r] \<and> row_of_event e r))"
proof -
  obtain res s1 where x:
    "Process_Execute (NewProcessEvent (NewEventRepository db now) (Some (NewEventWriter conn now)) maxR) msg s =
      ((res, None), s1)"
    and r: "ok s1" "log s1 = log s"
    "if terminal (ev_Status e) then event_at (tabs s1) = event_at (tabs s) \<and> logged s1 = logged s
     else (\<exists>e' r. event_at (tabs s1) = (event_at (tabs s))(j \<mapsto> e') \<and> ev_Status e' = EventStatusProcessed \<and>
       logged s1 = logged s @ [r] \<and> row_of_event e r)"
    by (rule Process_runs [OF assms(1,3-6)])
  have un: "UnmarshalEventMessage (km_Value raw) = Inr msg"
    using assms(2) by (auto simp: delivery_def split: sum.splits)
  have "res_Action res = ProcessActionDone"
    using process_action_iff_error [where uc = "NewProcessEvent (NewEventRepository db now) (Some (NewEventWriter conn now)) maxR"
        and msg = msg and s = s] x by simp
  then have "s' = s1"
    using assms(7) un x by (simp add: processMessage_def NewProcessor_def split: if_splits)
  show ?thesis unfolding \<open>s' = s1\<close> using r by (intro conjI)
qed

lemma publish_runs:
  assumes "ok s"
  shows "\<exists>raw. message_key raw = (topic, key, v) \<and>
    raw \<in> set (log (snd (Publish (NewProducer w tr now) topic key v s)))"
proof -
  let ?raw = "outgoing tr (now s) topic key v"
  obtain s' where m: "WriteMessages w ?raw s = (None, s')" using queues [OF assms] by (metis prod.collapse)
  then have "snd (Publish (NewProducer w tr now) topic key v s) = s'"
    by (simp add: NewProducer_def producer_Publish_def)
  moreover have "?raw \<in> set (log s')" using kafka.write_ok [OF m] by auto
  ultimately show ?thesis by (intro exI [of _ ?raw]) (simp add: message_key_def outgoing_def)
qed

lemma check_runs:
  assumes "ok s" "check_request (server_webhook db w tr now topic ttl) r (m, s) = (c, (m', s'))"
  shows "ok s'"
proof -
  have "s' = s \<or> (\<exists>key. s' = snd (pg_Get db key s))"
    using assms(2) by (auto simp: check_request_def server_webhook_def NewWebhookHandler_def NewIdempotencyStore_def
        split: if_splits option.splits prod.splits sum.splits) (metis snd_conv)+
  moreover have "snd (pg_Get db key s) = snd (q_key db key s)" for key
    by (simp add: pg_Get_def split: prod.split sum.split)
  ultimately show ?thesis using assms(1) stays(6) [OF assms(1)] by auto
qed

text \<open>An accepted request has its message on the log.\<close>

lemma accepted_queued:
  assumes "ok s" "ingest_request (server_webhook db w tr now topic ttl) env q (m, s) = (ops, (m', s'))"
    and "rs_status (answer ops) = 202"
  shows "\<exists>raw. message_key raw = event_message topic (re_newid env) 1 \<and> raw \<in> set (log s')"
proof -
  let ?e = "new_event (re_newid env) (re_created env) (ingest_input q)"
  let ?v = "snd (snd (event_message topic (re_newid env) 1))"
  let ?p = "\<lambda>s1. snd (Publish (NewProducer w tr now) topic (re_newid env) ?v s1)"
  obtain r s1 where x: "Ingest_Execute (server_ingest db w tr now topic) (re_newid env) (re_created env)
      (ingest_input q) s = (r, s1)"
    and y: "s' = s1 \<or> (\<exists>key e. s' = snd (Set (NewIdempotencyStore db) key e s1))"
    using assms(2) by (rule ingest_request_steps)
  from y have "log s' = log s1" using Set_same by auto
  obtain out where "r = Inr out"
    using assms(2,3) x
    by (auto simp: ingest_request_def server_webhook_def NewWebhookHandler_def split: sum.splits prod.splits)
  then obtain s0 where i: "pg_Insert db ?e s = (None, s0)" and s1: "s1 = ?p s0"
    using x by (auto simp: server_ingest_def Ingest_Execute_def NewIngestEvent_def Let_def MarshalEventMessage_def
        new_event_def event_message_def NewEventRepository_def split: prod.splits option.splits)
  then obtain n where "pg_Exec db (InsertEvent (ev_ID ?e) (ev_IdempotencyKey ?e) (ev_Source ?e) (ev_EventType ?e)
      (ev_Payload ?e) (ev_Status ?e) (ev_RetryCount ?e) (ev_CreatedAt ?e)) s = (Inr n, s0)"
    unfolding pg_Insert_def by (simp split: prod.splits sum.splits)
  then have "ok s0" using stays(1) [OF assms(1)] by (metis snd_conv)
  from publish_runs [OF this, of topic "re_newid env" ?v tr now] \<open>log s' = log s1\<close> s1
  show ?thesis by (simp add: event_message_def)
qed

end

section \<open>In the reachable states\<close>

text \<open>A message of the log is for an event of the table.\<close>

lemma reached_delivery:
  assumes "drivers (sk_db k) tabs pgnow uuid jsonb (sk_writer k) log (sk_conn k) logged"
    and "tp_Events (sk_topics k) \<noteq> tp_DLQ (sk_topics k)" and "in_int64 (sk_maxRetries k)"
    and "system_reach k ttl tabs log logged (s, ps)" and "raw \<in> set (log s)"
  obtains msg j e where "delivery raw = Some msg" "pg_canon uuid (msg_EventID msg) = j"
    "uuid (msg_EventID msg) = Some j" "uuid j = Some j" "event_at (tabs s) j = Some e" "ev_ID e = j"
proof -
  have inv: "pipe_inv (sk_maxRetries k) (sk_topics k) (pg_canon uuid) (event_at (tabs s)) (map message_key (log s)) (logged s)"
    using pipe_reach_inv [OF assms(1-3) system_reach_pipe [OF assms(1,4)]] by simp
  have "sound_message (sk_maxRetries k) (sk_topics k) (pg_canon uuid) (event_at (tabs s)) (message_key raw)"
    using inv assms(5) by (auto simp: pipe_inv_def list_all_iff)
  from sound_delivery [OF this assms(3,2)] obtain i n where
    d: "delivery raw = Some \<lparr>msg_EventID = i, msg_Attempt = n\<rparr>" "event_at (tabs s) (pg_canon uuid i) \<noteq> None"
    by blast
  then obtain e where e: "event_at (tabs s) (pg_canon uuid i) = Some e" by auto
  have "uuid_rows uuid (tabs s)" using system_reach_ids [OF assms(1,4)] by simp
  then have "uuid i = Some (pg_canon uuid i)" "uuid (pg_canon uuid i) = Some (pg_canon uuid i)"
    using uuid_rows_at e by (auto simp: uuid_rows_iff)
  with d(1) e event_at_id [OF e] show ?thesis using that by auto
qed

lemma delivery_of_message:
  assumes "valid_utf8 i" "in_int64 n" "message_key raw = event_message topic i n"
  shows "delivery raw = Some \<lparr>msg_EventID = i, msg_Attempt = n\<rparr>"
proof -
  have "UnmarshalEventMessage (km_Value raw) = Inr \<lparr>msg_EventID = i, msg_Attempt = n\<rparr>"
    using Unmarshal_Marshal [of "\<lparr>msg_EventID = i, msg_Attempt = n\<rparr>"] to_valid_id [OF assms(1)] assms(2,3)
    by (simp add: message_key_def event_message_def)
  then show ?thesis by (simp add: delivery_def)
qed

text \<open>A message on the log stays, and its delivery, once nothing fails, finishes its event.\<close>

lemma queued_finishes:
  assumes h: "healthy (sk_db k) tabs pgnow uuid jsonb (sk_writer k) log (sk_conn k) logged ok"
    and "tp_Events (sk_topics k) \<noteq> tp_DLQ (sk_topics k)" and "in_int64 (sk_maxRetries k)"
    and "system_reach k ttl tabs log logged (s, ps)" and "raw \<in> set (log s)"
    and "valid_utf8 i" and "message_key raw = event_message topic i 1"
    and st: "(system k ttl tabs log logged)\<^sup>*\<^sup>* (s, ps) (s2, ps2)" and "ok s2"
    and pm: "processMessage (stack_processor k) raw m2 s2 = Returns (m3, s3)"
  shows "raw \<in> set (log s2) \<and>
    (\<exists>e. event_at (tabs s3) (pg_canon uuid i) = Some e \<and> terminal (ev_Status e))"
proof -
  note dr = healthy.axioms(1) [OF h]
  have in2: "raw \<in> set (log s2)" using system_steps_grow [OF dr st] assms(5) by (auto simp: grows_def)
  have d: "delivery raw = Some \<lparr>msg_EventID = i, msg_Attempt = 1\<rparr>"
    by (rule delivery_of_message [OF assms(6) _ assms(7)]) (simp add: int64_defs)
  obtain msg j e where D: "delivery raw = Some msg" "pg_canon uuid (msg_EventID msg) = j"
    "uuid (msg_EventID msg) = Some j" "uuid j = Some j" "event_at (tabs s2) j = Some e" "ev_ID e = j"
    by (rule reached_delivery [OF dr assms(2,3) system_reach_steps [OF st assms(4)] in2])
  have j: "pg_canon uuid i = j" using D(1,2) d by auto
  have R: "if terminal (ev_Status e) then event_at (tabs s3) = event_at (tabs s2) \<and> logged s3 = logged s2
      else (\<exists>e' r. event_at (tabs s3) = (event_at (tabs s2))(j \<mapsto> e') \<and> ev_Status e' = EventStatusProcessed \<and>
        logged s3 = logged s2 @ [r] \<and> row_of_event e r)"
    using healthy.delivery_runs [OF h \<open>ok s2\<close> D(1,3-6) pm [unfolded stack_processor_def
        worker_processor_def worker_process_def]] by (elim conjE)
  then have "\<exists>e. event_at (tabs s3) j = Some e \<and> terminal (ev_Status e)"
    using D(5) by (auto simp: terminal_def split: if_splits)
  with in2 j show ?thesis by simp
qed

text \<open>
  C18: a delivery on a healthy platform finishes its event. In every state that server and workers reach, a
  delivery of any message of the log while no driver fails finds the event of the message, publishes
  nothing, and either the event was already processed or failed, and nothing changes, or it becomes
  processed and exactly one row is logged for it; no other event changes.
\<close>

theorem healthy_delivery:
  assumes "healthy (sk_db k) tabs pgnow uuid jsonb (sk_writer k) log (sk_conn k) logged ok"
    and "tp_Events (sk_topics k) \<noteq> tp_DLQ (sk_topics k)" and "in_int64 (sk_maxRetries k)"
    and "system_reach k ttl tabs log logged (s, ps)" and "ok s" and "raw \<in> set (log s)"
    and "processMessage (stack_processor k) raw m s = Returns (m', s')"
  shows "\<exists>msg j e. delivery raw = Some msg \<and> pg_canon uuid (msg_EventID msg) = j \<and>
    event_at (tabs s) j = Some e \<and> log s' = log s \<and>
    (if terminal (ev_Status e) then event_at (tabs s') = event_at (tabs s) \<and> logged s' = logged s
     else (\<exists>e' r. event_at (tabs s') = (event_at (tabs s))(j \<mapsto> e') \<and> ev_Status e' = EventStatusProcessed \<and>
       logged s' = logged s @ [r] \<and> row_of_event e r))"
proof -
  note dr = healthy.axioms(1) [OF assms(1)]
  obtain msg j e where D: "delivery raw = Some msg" "pg_canon uuid (msg_EventID msg) = j"
    "uuid (msg_EventID msg) = Some j" "uuid j = Some j" "event_at (tabs s) j = Some e" "ev_ID e = j"
    by (rule reached_delivery [OF dr assms(2-4,6)])
  from healthy.delivery_runs [OF assms(1,5) D(1,3-6) assms(7) [unfolded stack_processor_def worker_processor_def
      worker_process_def]] D(1,2,5)
  show ?thesis by (intro exI conjI) (assumption | elim conjE)+
qed

text \<open>
  C2: an accepted request is processed. When a request is answered with 202 in a reachable state while no
  driver fails, a message for it is on the log, and it stays there: whatever server and workers do from
  then on, with whatever failures, once that message is delivered while no driver fails the event is
  processed (or was already failed).
\<close>

theorem accepted_is_processed:
  assumes h: "healthy (sk_db k) tabs pgnow uuid jsonb (sk_writer k) log (sk_conn k) logged ok"
    and "tp_Events (sk_topics k) \<noteq> tp_DLQ (sk_topics k)" and "in_int64 (sk_maxRetries k)"
    and "system_reach k ttl tabs log logged (s, ps)" and "ok s" and "valid_utf8 (re_newid env)"
    and "HandleEvent (stack_webhook k ttl) env r (m, s) = res" and "h_state res = (m', s')"
    and "rs_status (answer (h_ops res)) = 202"
  shows "\<exists>raw. message_key raw = event_message (tp_Events (sk_topics k)) (re_newid env) 1 \<and> raw \<in> set (log s') \<and>
    (\<forall>s2 ps2 m2 m3 s3. (system k ttl tabs log logged)\<^sup>*\<^sup>* (s', ps) (s2, ps2) \<longrightarrow> ok s2 \<longrightarrow>
       processMessage (stack_processor k) raw m2 s2 = Returns (m3, s3) \<longrightarrow> raw \<in> set (log s2) \<and>
       (\<exists>e. event_at (tabs s3) (pg_canon uuid (re_newid env)) = Some e \<and> terminal (ev_Status e)))"
proof -
  note dr = healthy.axioms(1) [OF h]
  let ?W = "stack_webhook k ttl"
  show ?thesis using assms(7)
  proof (cases rule: HandleEvent_parts)
    case (1 ops z1)
    then have "rs_status (answer ops) \<noteq> 202"
      by (auto simp: check_request_def split: if_splits option.splits prod.splits sum.splits)
    with 1 assms(9) show ?thesis by (simp add: reply_with_def)
  next
    case (2 q z1 ops z2)
    obtain m1 s1 where z1: "z1 = (m1, s1)" by (metis prod.collapse)
    have ops: "h_ops res = ops" "z2 = (m', s')" using 2 assms(8) by (simp_all add: reply_with_def)
    note c = 2(1) [unfolded z1] and i = 2(2) [unfolded z1 ops(2)]
    have "ok s1" by (rule healthy.check_runs [OF h assms(5) c [unfolded stack_webhook_def]])
    from healthy.accepted_queued [OF h this i [unfolded stack_webhook_def]] assms(9) ops(1)
    obtain raw where raw: "message_key raw = event_message (tp_Events (sk_topics k)) (re_newid env) 1"
      "raw \<in> set (log s')" by auto
    have reach: "system_reach k ttl tabs log logged (s', ps)"
      using system_reach.step [OF system_reach.step [OF assms(4) system.check [OF c]]
          system.ingest [OF _ assms(6) i, of "q # ps"]] by simp
    note fin = queued_finishes [OF h assms(2,3) reach raw(2) assms(6) raw(1)]
    have "raw \<in> set (log s2) \<and>
        (\<exists>e. event_at (tabs s3) (pg_canon uuid (re_newid env)) = Some e \<and> terminal (ev_Status e))"
      if "(system k ttl tabs log logged)\<^sup>*\<^sup>* (s', ps) (s2, ps2)" and "ok s2"
        and "processMessage (stack_processor k) raw m2 s2 = Returns (m3, s3)" for s2 ps2 m2 m3 s3
      using fin that by blast
    with raw show ?thesis by blast
  qed
qed

section \<open>A healthy world\<close>

text \<open>The world of \<open>Environment\<close> is healthy once its list of faults is used up.\<close>

lemma calm_next: "w_faults s = [] \<Longrightarrow> next_fault s = (Fine, s)"
  by (simp add: next_fault_def)

interpretation calm: healthy world_db w_tabs w_now world_uuid world_jsonb world_writer w_log world_conn w_rows
  "\<lambda>s. w_faults s = []"
proof unfold_locales
  fix s :: world and q n t i j e sql rs m key
  assume ok: "w_faults s = []"
  note calm = calm_next [OF ok]
  show "sql_exec world_uuid world_jsonb q (w_tabs s) = Some (n, t) \<Longrightarrow> fst (pg_Exec world_db q s) = Inr n"
    by (simp add: world_db_def world_exec_def calm del: sql_exec.simps)
  show "world_uuid i = Some j \<Longrightarrow> event_at (w_tabs s) j = Some e \<Longrightarrow> fst (q_event world_db i s) = Inr (columns_of e)"
    by (simp add: world_db_def world_read_def calm world_event_def)
  show "w_faults (snd (pg_Exec world_db q s)) = []"
    by (auto simp: world_db_def world_exec_def calm ok simp del: sql_exec.simps split: option.split)
qed (auto simp: world_db_def world_read_def world_conn_def world_writer_def world_send_def calm_next)

theorem healthy_delivery_witness:
  "\<exists>(s' :: world) e'. event_at (w_tabs s') demo_id = Some e' \<and> ev_Status e' = EventStatusProcessed \<and> length (w_rows s') = 1"
proof -
  let ?raw = "hd (w_log demo_after)"
  let ?e = "new_event demo_id 1700000000000000000 (ingest_input demo_parsed)"
  have raw: "?raw \<in> set (w_log demo_after)" and ok: "w_faults demo_after = []" and rows: "w_rows demo_after = []"
    by (simp_all add: demo_after_def demo_world_def new_world_def)
  obtain m' s' where p: "processMessage (stack_processor demo_stack) ?raw new_metrics demo_after = Returns (m', s')"
    using processMessage_returns [of "stack_processor demo_stack" ?raw new_metrics demo_after] by auto
  have h: "healthy (sk_db demo_stack) w_tabs w_now world_uuid world_jsonb (sk_writer demo_stack) w_log
      (sk_conn demo_stack) w_rows (\<lambda>s. w_faults s = [])"
    by (simp add: demo_stack_def calm.healthy_axioms)
  obtain msg j e where D: "event_at (w_tabs demo_after) j = Some e"
    "if terminal (ev_Status e) then event_at (w_tabs s') = event_at (w_tabs demo_after) \<and> w_rows s' = w_rows demo_after
     else (\<exists>e' r. event_at (w_tabs s') = (event_at (w_tabs demo_after))(j \<mapsto> e') \<and> ev_Status e' = EventStatusProcessed \<and>
       w_rows s' = w_rows demo_after @ [r] \<and> row_of_event e r)"
    using healthy_delivery [OF h demo_stack_drivers(2,3) demo_reach ok raw p] by blast
  have "event_at (w_tabs demo_after) = [demo_id \<mapsto> ?e]"
    by (auto simp: demo_after_def event_at_def new_event_def fun_eq_iff)
  with D(1) have "j = demo_id" "e = ?e" by (auto split: if_splits)
  moreover have "\<not> terminal (ev_Status ?e)" by (simp add: new_event_def terminal_def)
  ultimately obtain e' r where "event_at (w_tabs s') demo_id = Some e'" "ev_Status e' = EventStatusProcessed"
    "w_rows s' = [r]"
    using D(2) rows by (auto simp del: status_defs)
  then show ?thesis by (intro exI [of _ s'] exI [of _ e']) simp
qed

theorem accepted_is_processed_witness:
  "\<exists>raw. raw \<in> set (w_log (snd (h_state (demo_handle hour (demo_world [])))))"
proof -
  have h: "healthy (sk_db demo_stack) w_tabs w_now world_uuid world_jsonb (sk_writer demo_stack) w_log
      (sk_conn demo_stack) w_rows (\<lambda>s. w_faults s = [])"
    by (simp add: demo_stack_def calm.healthy_axioms)
  have "started w_tabs w_log w_rows (demo_world [])" by (simp add: started_def demo_world_def new_world_def)
  then have reach: "system_reach demo_stack hour w_tabs w_log w_rows (demo_world [], [])" by (rule system_reach.start)
  have ok: "w_faults (demo_world []) = []" by (simp add: demo_world_def new_world_def)
  have id: "valid_utf8 (re_newid demo_env)" by code_simp
  have "rs_status (answer (h_ops (demo_handle hour (demo_world [])))) = 202"
    using demo_first_ingest(1) by (auto simp: HandleEvent_def demo_proceeds reply_with_def demo_env_def split: prod.split)
  then have st: "rs_status (answer (h_ops (HandleEvent (stack_webhook demo_stack hour) demo_env demo_request
      (new_metrics, demo_world [])))) = 202"
    unfolding demo_stack_webhook .
  from accepted_is_processed [OF h demo_stack_drivers(2,3) reach ok id refl surjective_pairing st]
  show ?thesis unfolding demo_stack_webhook by blast
qed

end
