(* ===== verification/Races.thy ===== *)
theory Races
  imports Interleave Progress
begin

text \<open>
  What interleaving and crashes make possible. First, an event whose request was cut off between the insert
  and the publish: no part of the program picks it up again, which is proved by what a program can touch
  (\<open>spares\<close>). Then two deliveries of one message that overlap: on a platform where nothing fails they
  process the event twice, which one after the other they would not (\<open>healthy_delivery\<close>).
\<close>

section \<open>What a program does not touch\<close>

text \<open>
  \<open>spares canon i p\<close>: no call of \<open>p\<close> is about the event \<open>i\<close>, given that it is stored (so that no
  insert of its id succeeds) and that a row that is read has the id it was asked for.
\<close>

definition spared_message :: "(string \<Rightarrow> string) \<Rightarrow> string \<Rightarrow> string \<times> string \<times> string \<Rightarrow> bool" where
  "spared_message canon i m \<longleftrightarrow>
     (\<forall>raw msg. message_key raw = m \<longrightarrow> delivery raw = Some msg \<longrightarrow> canon (msg_EventID msg) \<noteq> i)"

fun spares_call :: "(string \<Rightarrow> string) \<Rightarrow> string \<Rightarrow> port_call \<Rightarrow> bool" where
  "spares_call canon i (DoInsert e) \<longleftrightarrow> True"
| "spares_call canon i (DoUpdate j st) \<longleftrightarrow> canon j \<noteq> i"
| "spares_call canon i (DoIncrement j) \<longleftrightarrow> canon j \<noteq> i"
| "spares_call canon i (DoWrite e) \<longleftrightarrow> ev_ID e \<noteq> i"
| "spares_call canon i (DoPublish topic key v) \<longleftrightarrow> spared_message canon i (topic, key, v)"
| "spares_call canon i (DoSet key e) \<longleftrightarrow> True"

fun inserts :: "(string \<Rightarrow> string) \<Rightarrow> string \<Rightarrow> port_call \<Rightarrow> bool" where
  "inserts canon i (DoInsert e) \<longleftrightarrow> canon (ev_ID e) = i"
| "inserts canon i _ \<longleftrightarrow> False"

primrec spares :: "(string \<Rightarrow> string) \<Rightarrow> string \<Rightarrow> 'a prog \<Rightarrow> bool" where
  "spares canon i (Return x) \<longleftrightarrow> True"
| "spares canon i (Find j k) \<longleftrightarrow>
     (\<forall>x. spares canon i (k (Inl x))) \<and> (\<forall>e. ev_ID e = canon j \<longrightarrow> spares canon i (k (Inr e)))"
| "spares canon i (Lookup key k) \<longleftrightarrow> (\<forall>x. spares canon i (k x))"
| "spares canon i (Call c k) \<longleftrightarrow> spares_call canon i c \<and> (\<forall>x. spares canon i (k (Some x))) \<and>
     (\<not> inserts canon i c \<longrightarrow> spares canon i (k None))"
| "spares canon i (Say ls p) \<longleftrightarrow> spares canon i p"
| "spares canon i (Count g p) \<longleftrightarrow> spares canon i p"

lemma spares_bind:
  "spares canon i p \<Longrightarrow> (\<And>x. spares canon i (f x)) \<Longrightarrow> spares canon i (bind_prog p f)"
  by (induction p) auto

lemma spared_marshal:
  assumes "MarshalEventMessage \<lparr>msg_EventID = j, msg_Attempt = n\<rparr> = Inr v" "valid_utf8 j" "in_int64 n" "canon j \<noteq> i"
  shows "spared_message canon i (topic, j, v)"
proof -
  have "(topic, j, v) = event_message topic j n"
    using assms(1) by (simp add: MarshalEventMessage_def event_message_def)
  then show ?thesis
    unfolding spared_message_def using delivery_of_message [OF assms(2,3)] assms(4) by auto
qed

lemma spares_failure:
  "canon (msg_EventID msg) \<noteq> i \<Longrightarrow> spares canon i (failure_prog lg maxR msg cause)"
  by (simp add: failure_prog_def)

lemma spares_process:
  assumes "canon (msg_EventID msg) \<noteq> i" "\<And>j. canon (canon j) = canon j"
  shows "spares canon i (process_prog lg an maxR msg)"
  using assms spares_failure [where canon = canon, OF assms(1)]
  by (auto simp: process_prog_def split: sum.split option.split)

lemma spares_consume:
  assumes "delivery raw = Some \<lparr>msg_EventID = j, msg_Attempt = n\<rparr>" "valid_utf8 j" "in_int64 n" "canon j \<noteq> i"
    and idem: "\<And>j. canon (canon j) = canon j"
  shows "spares canon i (consume_prog lg an maxR topics raw)"
proof -
  let ?m = "\<lparr>msg_EventID = j, msg_Attempt = n\<rparr>"
  have un: "UnmarshalEventMessage (km_Value raw) = Inr ?m"
    using assms(1) by (auto simp: delivery_def split: sum.splits)
  have "spares canon i (process_prog lg' an maxR ?m)" for lg'
    by (rule spares_process) (simp_all add: assms(4) idem)
  moreover have "spares canon i (retry_prog lg' topics ?m)" for lg'
    using spared_marshal [where canon = canon and n = "wrap64 (n + 1)", OF _ assms(2) _ assms(4)]
    by (auto simp: retry_prog_def Let_def split: sum.split)
  moreover have "spares canon i (dlq_prog lg' topics ?m)" for lg'
    using spared_marshal [where canon = canon, OF _ assms(2,3,4)] by (auto simp: dlq_prog_def split: sum.split)
  ultimately show ?thesis
    by (auto simp: consume_prog_def un Let_def split: ProcessAction.split option.split intro!: spares_bind)
qed

lemma spares_dead:
  "(\<And>msg. delivery raw = Some msg \<Longrightarrow> canon (msg_EventID msg) \<noteq> i) \<Longrightarrow> spares canon i (dead_prog lg raw)"
  by (auto simp: dead_prog_def delivery_def split: sum.split)

lemma spares_webhook:
  assumes "valid_utf8 (re_newid env)"
  shows "spares canon i (webhook_prog base True topic ttl env r)"
proof -
  have "spares canon i (accept_prog base lg True topic ttl env req)" for lg req
  proof -
    have m: "spared_message canon i (topic, re_newid env, v)"
      if "MarshalEventMessage \<lparr>msg_EventID = re_newid env, msg_Attempt = 1\<rparr> = Inr v" "canon (re_newid env) \<noteq> i" for v
      using spared_marshal [where canon = canon, OF that(1) assms _ that(2)] by (simp add: int64_defs)
    show ?thesis
      unfolding accept_prog_def
      by (intro spares_bind) (auto simp: ingest_prog_def new_event_def Let_def m split: sum.split)
  qed
  then show ?thesis
    by (simp add: webhook_prog_def Let_def split: option.split sum.split)
qed

section \<open>Stranded events\<close>

text \<open>Nothing is about \<open>i\<close>: the row is as it was, and there is no message and no further analytics row.\<close>

definition stranded ::
  "(string \<Rightarrow> string) \<Rightarrow> string \<Rightarrow> event \<Rightarrow> log_row list \<Rightarrow> (string \<Rightarrow> event option)
     \<Rightarrow> (string \<times> string \<times> string) list \<Rightarrow> log_row list \<Rightarrow> bool" where
  "stranded canon i e ls rows sent written \<longleftrightarrow> rows i = Some e \<and> list_all (spared_message canon i) sent \<and>
     filter (\<lambda>r. lr_event_id r = i) written = ls"

context platform
begin

lemma call_spares:
  assumes c: "spares_call canon i c" and st: "stranded canon i e ls (rows s) (sent s) (written s)"
    and d: "do_call \<lparr>po_repo = repo, po_pub = pub, po_writer = writer, po_store = store\<rparr> c s = (r, s')"
  shows "stranded canon i e ls (rows s') (sent s') (written s') \<and> (r = None \<longrightarrow> \<not> inserts canon i c)"
proof (cases c)
  case (DoInsert e')
  have x: "Insert repo e' s = (r, s')" using d DoInsert by simp
  have s': "sent s' = sent s" "written s' = written s" using untouched(1,2) [of e' s] x by simp_all
  have "rows s' = rows s \<or> rows s (canon (ev_ID e')) = None \<and> rows s' = (rows s)(canon (ev_ID e') \<mapsto> stored e')"
    and "r = None \<Longrightarrow> rows s (canon (ev_ID e')) = None"
    using x repo.insert_ok [of e' s s'] repo.insert_err [of e' s _ s'] by (cases r; auto)+
  then show ?thesis using st by (auto simp: stranded_def s' DoInsert)
next
  case (DoUpdate j st')
  then have "s' = snd (UpdateStatus repo j st' s)" using d by simp
  with c DoUpdate st repo.update_rows [of j st' s] show ?thesis by (auto simp: stranded_def)
next
  case (DoIncrement j)
  then have "s' = snd (IncrementRetry repo j s)" using d by simp
  with c DoIncrement st repo.incr_rows [of j s] show ?thesis by (auto simp: stranded_def)
next
  case (DoWrite e')
  then have "s' = snd (WriteEvent writer e' s)" using d by simp
  with c DoWrite st writer.write_written [of e' s] show ?thesis by (auto simp: stranded_def row_of_event_def)
next
  case (DoPublish topic key v)
  then have "s' = snd (Publish pub topic key v s)" using d by simp
  with c DoPublish st pub.publish_sent [of topic key v s] show ?thesis
    by (auto simp: stranded_def list_all_iff)
next
  case (DoSet key e')
  then have "s' = snd (Set store key e' s)" using d by simp
  with DoSet st show ?thesis by (simp add: stranded_def)
qed

lemma move_spares:
  assumes p: "spares canon i p" and st: "stranded canon i e ls (rows s) (sent s) (written s)"
    and m: "move \<lparr>po_repo = repo, po_pub = pub, po_writer = writer, po_store = store\<rparr> p s = (p', s')"
  shows "stranded canon i e ls (rows s') (sent s') (written s') \<and> spares canon i p'"
proof (cases p)
  case (Find j f)
  obtain x where f: "FindByID repo j s = (x, s')" "p' = f x" using m Find by (auto split: prod.splits)
  have s': "s' = snd (FindByID repo j s)" using f by simp
  have "spares canon i p'"
  proof (cases x)
    case (Inl y)
    with p Find f show ?thesis by simp
  next
    case (Inr e)
    then have "ev_ID e = canon j" using repo.find_ok [of j s e s'] repo.rows_id f by blast
    with p Find f Inr show ?thesis by simp
  qed
  with st show ?thesis by (simp add: s')
next
  case (Lookup key f)
  obtain x where f: "Get store key s = (x, s')" "p' = f x" using m Lookup by (auto split: prod.splits)
  have s': "s' = snd (Get store key s)" using f by simp
  with st p Lookup f show ?thesis by simp
next
  case (Call c f)
  obtain r where d: "do_call \<lparr>po_repo = repo, po_pub = pub, po_writer = writer, po_store = store\<rparr> c s = (r, s')"
    "p' = f r" using m Call by (auto split: prod.splits)
  from call_spares [OF _ st d(1)] p Call d(2) show ?thesis by (cases r) auto
qed (use assms in auto)

end

context drivers
begin

lemma turn_spares:
  assumes k: "sk_db k = db" "sk_writer k = w" "sk_conn k = conn"
    and t: "tp_Events (sk_topics k) \<noteq> tp_DLQ (sk_topics k)" and i: "in_int64 (sk_maxRetries k)"
    and inv: "config k s ts out"
    and st: "stranded (pg_canon uuid) j e ls (event_at (tabs s)) (map message_key (log s)) (logged s)"
    and sp: "\<forall>p \<in> set ts. spares (pg_canon uuid) j p"
    and turn: "turn k ttl tabs log logged (s, ts, out) (s', ts', out')"
  shows "stranded (pg_canon uuid) j e ls (event_at (tabs s')) (map message_key (log s')) (logged s') \<and>
    (\<forall>p \<in> set ts'. spares (pg_canon uuid) j p)"
  using turn
proof (cases rule: turnE)
  case (request env lg r)
  with st sp spares_webhook show ?thesis by (auto simp: webhook_thread_def intro!: spares_bind)
next
  case (deliver raw lg)
  have "sound_message (sk_maxRetries k) (sk_topics k) (pg_canon uuid) (event_at (tabs s)) (message_key raw)"
    using inv deliver by (auto simp: config_inv_def orderly_def pipe_inv_def list_all_iff)
  from sound_delivery [OF this i t] obtain j' n where
    d: "delivery raw = Some \<lparr>msg_EventID = j', msg_Attempt = n\<rparr>" "valid_utf8 j'" "1 \<le> n" "n \<le> max 1 (sk_maxRetries k)"
    by blast
  have "in_int64 n" using d(3,4) i by (auto simp: int64_defs max_def split: if_splits)
  moreover have "pg_canon uuid j' \<noteq> j"
    using st deliver d(1) by (force simp: stranded_def list_all_iff spared_message_def)
  ultimately have "spares (pg_canon uuid) j (consumer_thread k lg raw)"
    unfolding consumer_thread_def using d by (intro spares_bind spares_consume) simp_all
  with st sp deliver show ?thesis by auto
next
  case (dead raw lg)
  have "pg_canon uuid (msg_EventID msg) \<noteq> j" if "delivery raw = Some msg" for msg
    using st dead that by (force simp: stranded_def list_all_iff spared_message_def)
  then have "spares (pg_canon uuid) j (dead_thread lg raw)"
    unfolding dead_thread_def by (intro spares_bind spares_dead) simp_all
  with st sp dead show ?thesis by auto
next
  case (step p p' vs us)
  then have ts: "ts = vs @ p # us" "ts' = vs @ p' # us" and m: "move (ports_of k) p s = (p', s')"
    by simp_all
  have po: "ports_of k = \<lparr>po_repo = NewEventRepository db (sk_now k), po_pub = NewProducer w (sk_inject k) (sk_now k),
      po_writer = NewEventWriter conn (sk_now k), po_store = NewIdempotencyStore db\<rparr>"
    by (simp add: ports_of_def stack_ports_def k)
  have "spares (pg_canon uuid) j p" using sp ts by simp
  from stack.move_spares [OF this st m [unfolded po]] sp show ?thesis unfolding ts by auto
qed (use st sp in auto)

end

lemma turns_spare:
  assumes dr: "drivers (sk_db k) tabs pgnow uuid jsonb (sk_writer k) log (sk_conn k) logged"
    and t: "tp_Events (sk_topics k) \<noteq> tp_DLQ (sk_topics k)" and i: "in_int64 (sk_maxRetries k)"
    and r: "turns_reach k ttl tabs log logged c"
    and st: "stranded (pg_canon uuid) j e ls (event_at (tabs (fst c))) (map message_key (log (fst c))) (logged (fst c))"
    and sp: "\<forall>p \<in> set (fst (snd c)). spares (pg_canon uuid) j p"
    and turns: "(turn k ttl tabs log logged)\<^sup>*\<^sup>* c c'"
  shows "stranded (pg_canon uuid) j e ls (event_at (tabs (fst c'))) (map message_key (log (fst c'))) (logged (fst c')) \<and>
    (\<forall>p \<in> set (fst (snd c')). spares (pg_canon uuid) j p)"
  using turns
proof (induction rule: rtranclp_induct)
  case base
  from st sp show ?case by simp
next
  case (step c1 c2)
  obtain s1 ts1 out1 s2 ts2 out2 where c: "c1 = (s1, ts1, out1)" "c2 = (s2, ts2, out2)" by (cases c1; cases c2)
  have "turns_reach k ttl tabs log logged (s1, ts1, out1)"
    using turns_reach_steps [OF step.hyps(1) r] by (simp add: c)
  note inv = turns_reach_inv [OF dr t i this]
  from drivers.turn_spares [OF dr refl refl refl t i inv _ _ step.hyps(2) [unfolded c], of j e ls] step.IH
  show ?case unfolding c fst_conv snd_conv by blast
qed

text \<open>
  C10: a stranded event is never picked up. Where no program is running (the server was stopped, or fell over)
  and the log has no message for a stored event, as after a request that was cut off between its insert and
  its publish, the event stays as it is for good, whatever server and workers do from then on: its row
  never changes, no message for it is ever queued, and no analytics row is ever written for it.
\<close>

theorem stranded_event_stays:
  assumes "drivers (sk_db k) tabs pgnow uuid jsonb (sk_writer k) log (sk_conn k) logged"
    and "tp_Events (sk_topics k) \<noteq> tp_DLQ (sk_topics k)" and "in_int64 (sk_maxRetries k)"
    and "turns_reach k ttl tabs log logged (s, [], out)"
    and "event_at (tabs s) i = Some e"
    and "\<forall>raw \<in> set (log s). \<forall>msg. delivery raw = Some msg \<longrightarrow> pg_canon uuid (msg_EventID msg) \<noteq> i"
    and "(turn k ttl tabs log logged)\<^sup>*\<^sup>* (s, [], out) (s', ts, out')"
  shows "event_at (tabs s') i = Some e \<and>
    (\<forall>raw \<in> set (log s'). \<forall>msg. delivery raw = Some msg \<longrightarrow> pg_canon uuid (msg_EventID msg) \<noteq> i) \<and>
    filter (\<lambda>r. lr_event_id r = i) (logged s') = filter (\<lambda>r. lr_event_id r = i) (logged s)"
proof -
  have m: "list_all (spared_message (pg_canon uuid) i) (map message_key l) \<longleftrightarrow>
      (\<forall>raw \<in> set l. \<forall>msg. delivery raw = Some msg \<longrightarrow> pg_canon uuid (msg_EventID msg) \<noteq> i)" for l
    by (auto simp: list_all_iff spared_message_def delivery_def message_key_def)
  show ?thesis
    using turns_spare [OF assms(1-4) _ _ assms(7), of i e] assms(5,6) by (simp add: stranded_def m)
qed

text \<open>The request of the demonstration, cut off after its insert, and sent again by the client.\<close>

abbreviation demo_new :: event where
  "demo_new \<equiv> new_event demo_id 1700000000000000000 (ingest_input demo_parsed)"

definition demo_inserted :: world where
  "demo_inserted = (demo_world [])\<lparr>w_tabs := \<lparr>webhook_events = [demo_new], idempotency_keys = []\<rparr>\<rparr>"

lemma demo_insert: "Insert (NewEventRepository world_db w_now) demo_new (demo_world []) = (None, demo_inserted)"
proof (rule prod_eqI)
  show "fst (Insert (NewEventRepository world_db w_now) demo_new (demo_world [])) = fst (None, demo_inserted)"
    by (simp only: fst_conv, code_simp)
  show "snd (Insert (NewEventRepository world_db w_now) demo_new (demo_world [])) = snd (None, demo_inserted)"
    by (simp only: snd_conv, code_simp)
qed

lemma demo_cut_off: "turns_reach demo_stack hour w_tabs w_log w_rows (demo_inserted, [], [])"
proof -
  let ?lg = "New_logger ''info'' ''json''"
  let ?R = "turns_reach demo_stack hour w_tabs w_log w_rows"
  let ?accept = "bind_prog (accept_prog ?lg ?lg True ''events'' hour demo_env demo_parsed) (\<lambda>ops. Return (Some ops))"
  have po: "po_repo (ports_of demo_stack) = NewEventRepository world_db w_now"
    "po_store (ports_of demo_stack) = NewIdempotencyStore world_db"
    by (simp_all add: ports_of_def stack_ports_def demo_stack_def)
  have lg: "FromContext (hr_ctx demo_request) ?lg = ?lg" by code_simp
  obtain f where t: "webhook_thread demo_stack hour ?lg demo_env demo_request = Lookup (wr_IdempotencyKey demo_parsed) f"
    and f: "f (Inr None) = ?accept"
    by (simp add: webhook_thread_def webhook_prog_def demo_json demo_decodes validate_def demo_valid Let_def
        demo_stack_def lg)
  have "Get (NewIdempotencyStore world_db) (wr_IdempotencyKey demo_parsed) (demo_world []) = (Inr None, demo_world [])"
    by (simp add: NewIdempotencyStore_def pg_Get_def world_defs key_live_def demo_world_def)
  then have m1: "move (ports_of demo_stack) (webhook_thread demo_stack hour ?lg demo_env demo_request) (demo_world []) =
      (?accept, demo_world [])"
    by (simp add: t f po)
  have env: "re_newid demo_env = demo_id" "re_created demo_env = 1700000000000000000"
    by (simp_all add: demo_env_def)
  have "\<exists>g. ?accept = Call (DoInsert demo_new) g"
    unfolding accept_prog_def ingest_prog_def Let_def bind_prog.simps env by (rule exI, rule refl)
  then obtain g where a: "?accept = Call (DoInsert demo_new) g" by blast
  then have m2: "move (ports_of demo_stack) ?accept (demo_world []) = (g None, demo_inserted)"
    by (simp add: po demo_insert)
  have "?R (demo_world [], [webhook_thread demo_stack hour ?lg demo_env demo_request], [])"
    using turns_reach.onward [OF demo_start turn.request [OF demo_id_valid]] .
  from turns_reach.onward [OF this turn.step [OF m1, of hour w_tabs w_log w_rows "[]" "[]" "[]", simplified]]
  have "?R (demo_world [], [?accept], [])" .
  from turns_reach.onward [OF this turn.step [OF m2, of hour w_tabs w_log w_rows "[]" "[]" "[]", simplified]]
  have "?R (demo_inserted, [g None], [])" .
  from turns_reach.onward [OF this turn.crash [of _ _ _ _ _ _ "[]" _ "[]", simplified]] show ?thesis .
qed

theorem stranded_event_stays_witness:
  "\<exists>s' ops. (turn demo_stack hour w_tabs w_log w_rows)\<^sup>*\<^sup>* (demo_inserted, [], []) (s', [], [ops]) \<and>
     rs_status (answer ops) = 202 \<and> (\<exists>e. event_at (w_tabs s') demo_id = Some e \<and> ev_Status e = EventStatusPending)"
proof -
  let ?env = "demo_env\<lparr>re_newid := ''123e4567-e89b-12d3-a456-426614174001''\<rparr>"
  let ?h = "server_webhook world_db world_writer id w_now ''events'' hour"
  let ?res = "HandleEvent ?h ?env demo_request (new_metrics, demo_inserted)"
  have id: "valid_utf8 (re_newid ?env)" by code_simp
  have e: "event_at (w_tabs demo_inserted) demo_id = Some demo_new"
    by (simp add: demo_inserted_def event_at_def new_event_def)
  have log: "\<forall>raw \<in> set (w_log demo_inserted). \<forall>msg. delivery raw = Some msg \<longrightarrow>
      pg_canon world_uuid (msg_EventID msg) \<noteq> demo_id"
    by (simp add: demo_inserted_def demo_world_def new_world_def)
  have "rs_status (answer (fst (demo_ingest_request ''123e4567-e89b-12d3-a456-426614174001'' (new_metrics, demo_inserted)))) = 202"
    by code_simp
  moreover have "check_request ?h demo_request (new_metrics, demo_inserted) = (Proceed demo_parsed, (new_metrics, demo_inserted))"
    by (rule demo_lookup) (simp_all add: demo_inserted_def demo_world_def new_world_def next_fault_def)
  ultimately have st: "rs_status (answer (h_ops ?res)) = 202"
    by (auto simp: HandleEvent_def reply_with_def split: prod.split)
  have turns: "(turn demo_stack hour w_tabs w_log w_rows)\<^sup>*\<^sup>* (demo_inserted, [], []) (snd (h_state ?res), [], [h_ops ?res])"
    by (rule webhook_turns [where k = demo_stack and ttl = hour and ts = "[]" and out = "[]", OF id refl,
        unfolded demo_stack_webhook append_Nil])
  have "event_at (w_tabs (snd (h_state ?res))) demo_id = Some demo_new"
    using stranded_event_stays [OF demo_stack_drivers demo_cut_off e log turns] by blast
  moreover have "ev_Status demo_new = EventStatusPending" by (simp add: new_event_def)
  ultimately show ?thesis using turns st by blast
qed

section \<open>Overlapping deliveries\<close>

text \<open>The program of a delivery: the read, the update that follows it, and what the rest does.\<close>

lemma consumer_parts:
  assumes "delivery raw = Some msg" "\<not> terminal (ev_Status e)"
  shows "\<exists>f g. consumer_thread k lg raw = Find (msg_EventID msg) f \<and>
    f (Inr e) = Call (DoUpdate (ev_ID e) EventStatusProcessing) g \<and>
    (\<forall>m s. \<exists>m'. run po (g None) (m, s) = (None, (m',
       snd (UpdateStatus (po_repo po) (ev_ID e) EventStatusProcessed (snd (WriteEvent (po_writer po) e s))))))"
proof -
  have un: "UnmarshalEventMessage (km_Value raw) = Inr msg"
    using assms(1) by (auto simp: delivery_def split: sum.splits)
  have st: "\<not> (ev_Status e = EventStatusProcessed \<or> ev_Status e = EventStatusFailed)"
    using assms(2) by (simp add: terminal_def)
  show ?thesis
    unfolding consumer_thread_def consume_prog_def un sum.case Let_def process_prog_def bind_prog.simps
    by (intro exI conjI, rule refl, simp only: sum.case st if_False bind_prog.simps)
      (auto split: prod.split)
qed

text \<open>From the first update on, wherever the event has got to in the meantime.\<close>

context healthy
begin

lemma claimed_turns:
  assumes k: "sk_db k = db" "sk_writer k = w" "sk_conn k = conn"
    and s: "ok s" "uuid j = Some j" "event_at (tabs s) j = Some e0" "ev_ID e = j"
    and rest: "\<And>m s. \<exists>m'. run (ports_of k) (g None) (m, s) = (None, (m',
       snd (UpdateStatus (po_repo (ports_of k)) (ev_ID e) EventStatusProcessed (snd (WriteEvent (po_writer (ports_of k)) e s)))))"
  obtains s1 s2 e1 e2 r where
    "turn k ttl tabs log logged (s, ts @ Call (DoUpdate (ev_ID e) EventStatusProcessing) g # us, out)
       (s1, ts @ g None # us, out)"
    "event_at (tabs s1) j = Some e1" "ev_Status e1 = EventStatusProcessing"
    "(turn k ttl tabs log logged)\<^sup>*\<^sup>* (s1, ts @ g None # us, out) (s2, ts @ us, out)"
    "ok s2" "event_at (tabs s2) j = Some e2" "ev_Status e2 = EventStatusProcessed"
    "logged s2 = logged s @ [r]" "row_of_event e r"
proof -
  have po: "po_repo (ports_of k) = NewEventRepository db (sk_now k)" "po_writer (ports_of k) = NewEventWriter conn (sk_now k)"
    by (simp_all add: ports_of_def stack_ports_def k)
  obtain s1 t where u: "UpdateStatus (NewEventRepository db (sk_now k)) j EventStatusProcessing s = (None, s1)"
    and s1: "ok s1" "event_at (tabs s1) = (event_at (tabs s))(j \<mapsto> with_status EventStatusProcessing t e0)"
      "logged s1 = logged s"
    by (rule update_runs [OF s(1,2,3) accepted_status(1), of "sk_now k"])
  obtain s2 r where wr: "WriteEvent (NewEventWriter conn (sk_now k)) e s1 = (None, s2)"
    and s2: "ok s2" "tabs s2 = tabs s1" "logged s2 = logged s1 @ [r]" "row_of_event e r"
    by (rule write_runs [OF s1(1), of "sk_now k" e])
  have e1: "event_at (tabs s1) j = Some (with_status EventStatusProcessing t e0)"
    and e2: "event_at (tabs s2) j = Some (with_status EventStatusProcessing t e0)"
    using s1(2) s2(2) by simp_all
  obtain s3 t' where v: "UpdateStatus (NewEventRepository db (sk_now k)) j EventStatusProcessed s2 = (None, s3)"
    and s3: "ok s3" "event_at (tabs s3) =
        (event_at (tabs s2))(j \<mapsto> with_status EventStatusProcessed t' (with_status EventStatusProcessing t e0))"
      "logged s3 = logged s2"
    by (rule update_runs [OF s2(1) s(2) e2 accepted_status(2), of "sk_now k"])
  obtain m' where "run (ports_of k) (g None) (new_metrics, s1) = (None, (m', s3))"
    using rest [of new_metrics s1] by (auto simp: po wr s(4) v simp del: status_defs)
  from run_turns [OF this, of ttl tabs log logged ts us out] turn.finish [of k ttl tabs log logged s3 ts us out]
  have "(turn k ttl tabs log logged)\<^sup>*\<^sup>* (s1, ts @ g None # us, out) (s3, ts @ us, out)"
    by (rule rtranclp.rtrancl_into_rtrancl)
  moreover have "turn k ttl tabs log logged (s, ts @ Call (DoUpdate (ev_ID e) EventStatusProcessing) g # us, out)
      (s1, ts @ g None # us, out)"
    by (rule turn.step) (simp add: po s(4) u del: status_defs)
  ultimately show ?thesis
    using that [OF _ e1 with_status_fields(2)] s1(3) s2(3,4) s3 by (auto simp del: status_defs)
qed

lemma overlap:
  assumes k: "sk_db k = db" "sk_writer k = w" "sk_conn k = conn"
    and raw: "raw \<in> set (log s)" "km_Topic raw = tp_Events (sk_topics k)" "delivery raw = Some msg"
    and s: "ok s" "uuid (msg_EventID msg) = Some j" "event_at (tabs s) j = Some e" "\<not> terminal (ev_Status e)"
  shows "\<exists>s1 s2 s3 ts1 ts2 e1 e2 e3 r1 r2.
    (turn k ttl tabs log logged)\<^sup>*\<^sup>* (s, [], out) (s1, ts1, out) \<and>
    event_at (tabs s1) j = Some e1 \<and> ev_Status e1 = EventStatusProcessed \<and>
    (turn k ttl tabs log logged)\<^sup>*\<^sup>* (s1, ts1, out) (s2, ts2, out) \<and>
    event_at (tabs s2) j = Some e2 \<and> ev_Status e2 = EventStatusProcessing \<and>
    (turn k ttl tabs log logged)\<^sup>*\<^sup>* (s2, ts2, out) (s3, [], out) \<and>
    event_at (tabs s3) j = Some e3 \<and> ev_Status e3 = EventStatusProcessed \<and>
    logged s3 = logged s @ [r1, r2] \<and> row_of_event e r1 \<and> row_of_event e r2"
proof -
  let ?lg = "New_logger ''info'' ''json''"
  let ?turns = "(turn k ttl tabs log logged)\<^sup>*\<^sup>*"
  have jj: "uuid j = Some j" by (rule pg.uuid_idem [OF s(2)])
  have id: "ev_ID e = j" by (rule event_at_id [OF s(3)])
  have po: "po_repo (ports_of k) = NewEventRepository db (sk_now k)"
    by (simp add: ports_of_def stack_ports_def k)
  obtain f g where T: "consumer_thread k ?lg raw = Find (msg_EventID msg) f"
    and X: "f (Inr e) = Call (DoUpdate (ev_ID e) EventStatusProcessing) g"
    and rest: "\<And>m s. \<exists>m'. run (ports_of k) (g None) (m, s) = (None, (m',
       snd (UpdateStatus (po_repo (ports_of k)) (ev_ID e) EventStatusProcessed (snd (WriteEvent (po_writer (ports_of k)) e s)))))"
    using consumer_parts [OF raw(3) s(4), of k ?lg "ports_of k"] by blast
  let ?T = "consumer_thread k ?lg raw" and ?X = "f (Inr e)"
  obtain sa where fa: "FindByID (NewEventRepository db (sk_now k)) (msg_EventID msg) s = (Inr e, sa)"
    and sa: "ok sa" "tabs sa = tabs s" "logged sa = logged s"
    using find_runs [OF s(1,2,3)] by metis
  obtain sb where fb: "FindByID (NewEventRepository db (sk_now k)) (msg_EventID msg) sa = (Inr e, sb)"
    and sb: "ok sb" "tabs sb = tabs sa" "logged sb = logged sa"
    using find_runs [OF sa(1) s(2)] s(3) sa(2) by metis
  have start: "turn k ttl tabs log logged (s, ts, out) (s, ?T # ts, out)" for ts
    by (rule turn.deliver [where log = log, OF raw(1,2)])
  have a: "turn k ttl tabs log logged (s, [] @ ?T # [?T], out) (sa, [] @ ?X # [?T], out)"
    by (rule turn.step) (simp add: T po fa)
  have b: "turn k ttl tabs log logged (sa, [?X] @ ?T # [], out) (sb, [?X] @ ?X # [], out)"
    by (rule turn.step) (simp add: T po fb)
  have reads: "?turns (s, [], out) (sb, [?X, ?X], out)"
    using start [of "[]"] start [of "[?T]"] a b by simp
  have eb: "event_at (tabs sb) j = Some e" using sa sb s(3) by simp
  obtain s1 s2 e1 e2 r1 where A: "turn k ttl tabs log logged (sb, [] @ ?X # [?X], out) (s1, [] @ g None # [?X], out)"
    "?turns (s1, [] @ g None # [?X], out) (s2, [] @ [?X], out)"
    "ok s2" "event_at (tabs s2) j = Some e2" "ev_Status e2 = EventStatusProcessed"
    "logged s2 = logged sb @ [r1]" "row_of_event e r1"
    unfolding X by (rule claimed_turns [where k = k and g = g and e = e and ts = "[]" and out = out and
        us = "[Call (DoUpdate (ev_ID e) EventStatusProcessing) g]", OF k sb(1) jj eb id rest])
  obtain s3 s4 e3 e4 r2 where B: "turn k ttl tabs log logged (s2, [] @ ?X # [], out) (s3, [] @ g None # [], out)"
    "event_at (tabs s3) j = Some e3" "ev_Status e3 = EventStatusProcessing"
    "?turns (s3, [] @ g None # [], out) (s4, [] @ [], out)"
    "event_at (tabs s4) j = Some e4" "ev_Status e4 = EventStatusProcessed"
    "logged s4 = logged s2 @ [r2]" "row_of_event e r2"
    unfolding X by (rule claimed_turns [where k = k and g = g and e = e and ts = "[]" and out = out and
        us = "[]", OF k A(3) jj A(4) id rest])
  have "?turns (s, [], out) (s2, [?X], out)"
    using reads A(1,2) by (simp add: rtranclp.rtrancl_into_rtrancl)
  moreover have "?turns (s2, [?X], out) (s3, [g None], out)" using B(1) by auto
  moreover have "?turns (s3, [g None], out) (s4, [], out)" using B(4) by simp
  moreover have "logged s4 = logged s @ [r1, r2]" using B(7) A(6) sa sb by simp
  ultimately show ?thesis
    using A(4,5,7) B(2,3,5,6,8)
    by (intro exI [of _ s2] exI [of _ s3] exI [of _ s4] exI [of _ "[?X]"] exI [of _ "[g None]"]
        exI [of _ e2] exI [of _ e3] exI [of _ e4] exI [of _ r1] exI [of _ r2] conjI)
qed

end

text \<open>
  C11: overlapping deliveries. When a message is delivered twice at once (after a rebalance, or because the
  broker has two copies of it) and both consumers read the event before either claims it, then on a platform
  where nothing fails both process it: the event is processed, goes back to processing, and
  is processed again, and two analytics rows are written for it. An update of the status does not look at the
  status it replaces, so nothing but the order of the deliveries keeps them apart.
\<close>

theorem overlapping_deliveries:
  assumes "healthy (sk_db k) tabs pgnow uuid jsonb (sk_writer k) log (sk_conn k) logged ok"
    and "raw \<in> set (log s)" and "km_Topic raw = tp_Events (sk_topics k)" and "delivery raw = Some msg"
    and "ok s" and "uuid (msg_EventID msg) = Some j" and "event_at (tabs s) j = Some e"
    and "\<not> terminal (ev_Status e)"
  shows "\<exists>s1 s2 s3 ts1 ts2 e1 e2 e3 r1 r2.
    (turn k ttl tabs log logged)\<^sup>*\<^sup>* (s, [], out) (s1, ts1, out) \<and>
    event_at (tabs s1) j = Some e1 \<and> ev_Status e1 = EventStatusProcessed \<and>
    (turn k ttl tabs log logged)\<^sup>*\<^sup>* (s1, ts1, out) (s2, ts2, out) \<and>
    event_at (tabs s2) j = Some e2 \<and> ev_Status e2 = EventStatusProcessing \<and>
    (turn k ttl tabs log logged)\<^sup>*\<^sup>* (s2, ts2, out) (s3, [], out) \<and>
    event_at (tabs s3) j = Some e3 \<and> ev_Status e3 = EventStatusProcessed \<and>
    logged s3 = logged s @ [r1, r2] \<and> row_of_event e r1 \<and> row_of_event e r2"
  by (rule healthy.overlap [OF assms(1) refl refl refl assms(2-8)])

theorem overlapping_deliveries_witness:
  "\<exists>s out. turns_reach demo_stack hour w_tabs w_log w_rows (s, [], out) \<and>
     map lr_event_id (w_rows s) = [demo_id, demo_id]"
proof -
  let ?raw = "hd (w_log demo_after)"
  let ?turns = "(turn demo_stack hour w_tabs w_log w_rows)\<^sup>*\<^sup>*"
  have h: "healthy (sk_db demo_stack) w_tabs w_now world_uuid world_jsonb (sk_writer demo_stack) w_log
      (sk_conn demo_stack) w_rows (\<lambda>s. w_faults s = [])"
    by (simp add: demo_stack_def calm.healthy_axioms)
  have raw: "?raw \<in> set (w_log demo_after)" "km_Topic ?raw = tp_Events (sk_topics demo_stack)"
    and ok: "w_faults demo_after = []" and rows: "w_rows demo_after = []"
    by (simp_all add: demo_after_def demo_world_def new_world_def demo_stack_def outgoing_def)
  have id: "valid_utf8 demo_id" "world_uuid demo_id = Some demo_id" by code_simp+
  have d: "delivery ?raw = Some \<lparr>msg_EventID = demo_id, msg_Attempt = 1\<rparr>"
    by (rule delivery_of_message [OF id(1), where topic = "''events''"])
      (simp_all add: int64_defs demo_after_def message_key_def outgoing_def event_message_def)
  have e: "event_at (w_tabs demo_after) demo_id = Some demo_new" "\<not> terminal (ev_Status demo_new)"
    by (simp_all add: demo_after_def event_at_def new_event_def terminal_def)
  let ?out = "[h_ops (demo_handle hour (demo_world []))]"
  have "snd (h_state (demo_handle hour (demo_world []))) = demo_after"
    using demo_first_ingest(2) by (auto simp: HandleEvent_def demo_proceeds reply_with_def demo_env_def split: prod.split)
  with demo_turns_reach have reach: "turns_reach demo_stack hour w_tabs w_log w_rows (demo_after, [], ?out)" by simp
  obtain s1 s2 s3 ts1 ts2 r1 r2 where t: "?turns (demo_after, [], ?out) (s1, ts1, ?out)"
    "?turns (s1, ts1, ?out) (s2, ts2, ?out)" "?turns (s2, ts2, ?out) (s3, [], ?out)"
    "w_rows s3 = w_rows demo_after @ [r1, r2]" "row_of_event demo_new r1" "row_of_event demo_new r2"
    using overlapping_deliveries [OF h raw d ok, of demo_id demo_new hour ?out] id(2) e by auto
  have "turns_reach demo_stack hour w_tabs w_log w_rows (s3, [], ?out)"
    by (rule turns_reach_steps [OF t(3) turns_reach_steps [OF t(2) turns_reach_steps [OF t(1) reach]]])
  moreover have "map lr_event_id (w_rows s3) = [demo_id, demo_id]"
    using t(4-6) rows by (simp add: row_of_event_def new_event_def)
  ultimately show ?thesis by (intro exI conjI)
qed

end
