(* ===== verification/Duplicates.thy ===== *)
theory Duplicates
  imports Races
begin

text \<open>
  Two requests with one key. The lookup of the key and the store of it are separate steps of the handler,
  and the database has no constraint on the key of an event, so requests that race are both ingested.
\<close>

section \<open>Two requests in flight\<close>

text \<open>
  A lookup on a healthy platform of a key that has no entry finds none. Nothing else is added to
  \<open>healthy\<close>.
\<close>

locale responsive = healthy +
  assumes key_free: "ok s \<Longrightarrow> map_of (idempotency_keys (tabs s)) key = None \<Longrightarrow>
    \<exists>x. fst (q_key db key s) = Inl x \<and> errors_Is x ErrNoRows"

text \<open>The row the database makes of a request's event, if it takes it.\<close>

definition row_for ::
  "(string \<Rightarrow> string option) \<Rightarrow> (string \<Rightarrow> string option) \<Rightarrow> request_env \<Rightarrow> webhookRequest \<Rightarrow> event option" where
  "row_for uuid jsonb env q = new_row uuid jsonb (re_newid env) (wr_IdempotencyKey q) (wr_Source q)
     (wr_EventType q) (wr_Payload q) EventStatusPending 0 (re_created env)"

context healthy
begin

lemma insert_runs:
  assumes "ok s" "row_for uuid jsonb env q = Some e" "event_at (tabs s) (ev_ID e) = None"
  obtains s' where
    "Insert (NewEventRepository db now) (new_event (re_newid env) (re_created env) (ingest_input q)) s = (None, s')"
    "ok s'"
proof -
  let ?e = "new_event (re_newid env) (re_created env) (ingest_input q)"
  let ?q = "InsertEvent (ev_ID ?e) (ev_IdempotencyKey ?e) (ev_Source ?e) (ev_EventType ?e)
      (ev_Payload ?e) (ev_Status ?e) (ev_RetryCount ?e) (ev_CreatedAt ?e)"
  have "sql_exec uuid jsonb ?q (tabs s) = Some (1, (tabs s)\<lparr>webhook_events := webhook_events (tabs s) @ [e]\<rparr>)"
    using assms(2,3) by (simp add: row_for_def new_event_def ingest_input_def del: status_defs)
  from exec_runs [OF assms(1) this] obtain s' where q: "pg_Exec db ?q s = (Inr 1, s')" by (metis prod.collapse)
  then have "Insert (NewEventRepository db now) ?e s = (None, s')"
    by (simp add: NewEventRepository_def pg_Insert_def)
  moreover have "ok s'" using stays(1) [OF assms(1), of ?q] q by simp
  ultimately show ?thesis using that by blast
qed

lemma publish_stays: "ok s \<Longrightarrow> ok (snd (Publish (NewProducer w tr now) topic key v s))"
  using stays(5) [of s] by (simp add: NewProducer_def producer_Publish_def split: prod.split option.split) (metis snd_conv)

lemma set_stays: "ok s \<Longrightarrow> ok (snd (Set (NewIdempotencyStore db) key e s))"
  using stays(1) [of s] by (simp add: NewIdempotencyStore_def pg_Set_def split: prod.split sum.split) (metis snd_conv)

lemma ingest_runs:
  assumes "ok s" "row_for uuid jsonb env q = Some e" "event_at (tabs s) (ev_ID e) = None"
  obtains ops m' s' where
    "ingest_request (server_webhook db w tr now topic ttl) env q (m, s) = (ops, (m', s'))"
    "rs_status (answer ops) = 202" "ok s'" "event_at (tabs s') = (event_at (tabs s))(ev_ID e \<mapsto> e)"
    "\<exists>raw \<in> set (log s'). message_key raw = event_message topic (re_newid env) 1"
    "set (log s) \<subseteq> set (log s')"
proof -
  let ?h = "server_webhook db w tr now topic ttl"
  let ?e = "new_event (re_newid env) (re_created env) (ingest_input q)"
  obtain s1 where i: "Insert (NewEventRepository db now) ?e s = (None, s1)" "ok s1"
    by (rule insert_runs [OF assms])
  obtain ops m' s' where r: "ingest_request ?h env q (m, s) = (ops, (m', s'))" by (metis prod.collapse)
  obtain s2 key en where s': "rs_status (answer ops) = 202" "s2 = s1 \<or> (\<exists>k v. s2 = snd (Publish (NewProducer w tr now) topic k v s1))"
    "s' = snd (Set (NewIdempotencyStore db) key en s2)"
    using r i(1)
    by (auto simp: ingest_request_def server_webhook_def NewWebhookHandler_def server_ingest_def Ingest_Execute_def
        NewIngestEvent_def Let_def split: prod.splits sum.splits) (metis snd_conv)+
  have "ok s2" using s'(2) i(2) publish_stays by auto
  then have ok: "ok s'" using s'(3) set_stays by simp
  have e: "pg_canon uuid (re_newid env) = ev_ID e" "pg_stored uuid jsonb ?e = e"
    using assms(2) by (auto simp: row_for_def pg_canon_def pg_stored_def new_event_def ingest_input_def
        simp del: status_defs dest: new_row_Some)
  from platform.ingest_request_accepts [OF is_platform r [unfolded server_webhook_eq] s'(1)]
  have "event_at (tabs s') = (event_at (tabs s))(ev_ID e \<mapsto> e)" unfolding e by blast
  moreover have "\<exists>raw \<in> set (log s'). message_key raw = event_message topic (re_newid env) 1"
    using accepted_queued [OF assms(1) r s'(1)] by blast
  moreover have "set (log s) \<subseteq> set (log s')"
    using webhook_grows(2) [OF r [unfolded server_webhook_eq]] by (simp add: grows_def)
  ultimately show ?thesis using that r s'(1) ok by blast
qed

end

text \<open>The program of a request that is well formed: the lookup, and the ingest that follows when it finds none.\<close>

lemma webhook_parts:
  assumes "\<not> malformed r" "decode_request (hr_body r) (hr_body_err r) = Some q"
  obtains f lg' where "webhook_thread k ttl lg env r = Lookup (wr_IdempotencyKey q) f"
    "f (Inr None) = bind_prog (accept_prog lg lg' True (tp_Events (sk_topics k)) ttl env q) (\<lambda>ops. Return (Some ops))"
proof -
  have "HasPrefix (Header_Get ''Content-Type'' (hr_headers r)) ''application/json''" "validate q = None"
    using assms by (simp_all add: malformed_def validate_def)
  with assms(2) that show thesis
    by (simp add: webhook_thread_def webhook_prog_def Let_def)
qed

context responsive
begin

lemma lookup_runs:
  assumes "ok s" "map_of (idempotency_keys (tabs s)) key = None"
  obtains s' where "Get (NewIdempotencyStore db) key s = (Inr None, s')" "ok s'" "tabs s' = tabs s" "log s' = log s"
proof -
  obtain x s' where q: "q_key db key s = (Inl x, s')" "errors_Is x ErrNoRows"
    using key_free [OF assms] by (metis prod.collapse fst_conv)
  then have "Get (NewIdempotencyStore db) key s = (Inr None, s')"
    by (simp add: NewIdempotencyStore_def pg_Get_def)
  moreover have "ok s'" using stays(6) [OF assms(1), of key] q(1) by simp
  ultimately show ?thesis using that pg.reads_eq(2) [OF q(1)] by simp
qed

lemma race:
  assumes k: "sk_db k = db" "sk_writer k = w" "sk_conn k = conn" and s: "ok s"
    and r1: "\<not> malformed r1" "decode_request (hr_body r1) (hr_body_err r1) = Some q1"
    and r2: "\<not> malformed r2" "decode_request (hr_body r2) (hr_body_err r2) = Some q2"
    and free: "map_of (idempotency_keys (tabs s)) (wr_IdempotencyKey q1) = None"
      "map_of (idempotency_keys (tabs s)) (wr_IdempotencyKey q2) = None"
    and e1: "row_for uuid jsonb env1 q1 = Some e1" "event_at (tabs s) (ev_ID e1) = None" "valid_utf8 (re_newid env1)"
    and e2: "row_for uuid jsonb env2 q2 = Some e2" "event_at (tabs s) (ev_ID e2) = None" "valid_utf8 (re_newid env2)"
    and ne: "ev_ID e1 \<noteq> ev_ID e2"
  shows "\<exists>ops1 ops2 s'. (turn k ttl tabs log logged)\<^sup>*\<^sup>* (s, [], out) (s', [], out @ [ops1, ops2]) \<and>
    rs_status (answer ops1) = 202 \<and> rs_status (answer ops2) = 202 \<and>
    event_at (tabs s') = (event_at (tabs s))(ev_ID e1 \<mapsto> e1, ev_ID e2 \<mapsto> e2) \<and>
    (\<exists>raw1 \<in> set (log s'). \<exists>raw2 \<in> set (log s').
       message_key raw1 = event_message (tp_Events (sk_topics k)) (re_newid env1) 1 \<and>
       message_key raw2 = event_message (tp_Events (sk_topics k)) (re_newid env2) 1)"
proof -
  let ?lg = "New_logger ''info'' ''json''" and ?topic = "tp_Events (sk_topics k)"
  let ?turn = "turn k ttl tabs log logged" and ?turns = "(turn k ttl tabs log logged)\<^sup>*\<^sup>*"
  have po: "po_repo (ports_of k) = NewEventRepository db (sk_now k)" "po_store (ports_of k) = NewIdempotencyStore db"
    "po_pub (ports_of k) = NewProducer w (sk_inject k) (sk_now k)"
    by (simp_all add: ports_of_def stack_ports_def k)
  obtain f1 l1 where T1: "webhook_thread k ttl ?lg env1 r1 = Lookup (wr_IdempotencyKey q1) f1"
    "f1 (Inr None) = bind_prog (accept_prog ?lg l1 True ?topic ttl env1 q1) (\<lambda>ops. Return (Some ops))"
    by (rule webhook_parts [OF r1])
  obtain f2 l2 where T2: "webhook_thread k ttl ?lg env2 r2 = Lookup (wr_IdempotencyKey q2) f2"
    "f2 (Inr None) = bind_prog (accept_prog ?lg l2 True ?topic ttl env2 q2) (\<lambda>ops. Return (Some ops))"
    by (rule webhook_parts [OF r2])
  obtain sa where a: "Get (NewIdempotencyStore db) (wr_IdempotencyKey q1) s = (Inr None, sa)" "ok sa"
    "tabs sa = tabs s" "log sa = log s"
    by (rule lookup_runs [OF s free(1)])
  obtain sb where b: "Get (NewIdempotencyStore db) (wr_IdempotencyKey q2) sa = (Inr None, sb)" "ok sb"
    "tabs sb = tabs sa" "log sb = log sa"
    by (rule lookup_runs [OF a(2)]) (use free(2) a(3) in simp)
  let ?A1 = "f1 (Inr None)" and ?A2 = "f2 (Inr None)"
  have "?turn (s, [], out) (s, [Lookup (wr_IdempotencyKey q1) f1], out)"
    using turn.request [OF e1(3), of k ttl tabs log logged s "[]" out ?lg r1] unfolding T1 .
  moreover have "?turn (s, [Lookup (wr_IdempotencyKey q1) f1], out)
      (s, [Lookup (wr_IdempotencyKey q2) f2, Lookup (wr_IdempotencyKey q1) f1], out)"
    using turn.request [OF e2(3), of k ttl tabs log logged s "[Lookup (wr_IdempotencyKey q1) f1]" out ?lg r2] unfolding T2 .
  moreover have "?turn (s, [Lookup (wr_IdempotencyKey q2) f2] @ Lookup (wr_IdempotencyKey q1) f1 # [], out)
      (sa, [Lookup (wr_IdempotencyKey q2) f2] @ ?A1 # [], out)"
    by (rule turn.step) (simp add: po a(1))
  moreover have "?turn (sa, [] @ Lookup (wr_IdempotencyKey q2) f2 # [?A1], out) (sb, [] @ ?A2 # [?A1], out)"
    by (rule turn.step) (simp add: po b(1))
  ultimately have looked: "?turns (s, [], out) (sb, [?A2, ?A1], out)" by simp
  have tb: "tabs sb = tabs s" using a(3) b(3) by simp
  have run: "run (ports_of k) (bind_prog (accept_prog ?lg lg' True ?topic ttl env q) (\<lambda>ops. Return (Some ops))) (m, x) =
      (Some ops, (m', x'))"
    if "ingest_request (server_webhook db w (sk_inject k) (sk_now k) ?topic ttl) env q (m, x) = (ops, (m', x'))"
    for lg' env q m x ops m' x'
    using that by (simp add: run_bind run_accept po server_webhook_eq)
  obtain ops1 m1 s1 where I1: "ingest_request (server_webhook db w (sk_inject k) (sk_now k) ?topic ttl) env1 q1
      (new_metrics, sb) = (ops1, (m1, s1))" "rs_status (answer ops1) = 202" "ok s1"
    "event_at (tabs s1) = (event_at (tabs sb))(ev_ID e1 \<mapsto> e1)"
    "\<exists>raw \<in> set (log s1). message_key raw = event_message ?topic (re_newid env1) 1" "set (log sb) \<subseteq> set (log s1)"
    by (rule ingest_runs [OF b(2) e1(1), where tr = "sk_inject k" and now = "sk_now k" and topic = ?topic and ttl = ttl
        and m = new_metrics]) (use e1(2) tb in simp)
  have "event_at (tabs s1) (ev_ID e2) = None" using I1(4) e2(2) tb ne by simp
  then obtain ops2 m2 s2 where I2: "ingest_request (server_webhook db w (sk_inject k) (sk_now k) ?topic ttl) env2 q2
      (m1, s1) = (ops2, (m2, s2))" "rs_status (answer ops2) = 202" "ok s2"
    "event_at (tabs s2) = (event_at (tabs s1))(ev_ID e2 \<mapsto> e2)"
    "\<exists>raw \<in> set (log s2). message_key raw = event_message ?topic (re_newid env2) 1" "set (log s1) \<subseteq> set (log s2)"
    by (rule ingest_runs [OF I1(3) e2(1), where tr = "sk_inject k" and now = "sk_now k" and topic = ?topic and ttl = ttl
        and m = m1])
  have "?turns (sb, [?A2] @ ?A1 # [], out) (s1, [?A2] @ Return (Some ops1) # [], out)"
    unfolding T1(2) by (rule run_turns [OF run [OF I1(1)]])
  moreover have "?turn (s1, [?A2] @ Return (Some ops1) # [], out) (s1, [?A2] @ [], out @ [ops1])" by (rule turn.reply)
  moreover have "?turns (s1, [] @ ?A2 # [], out @ [ops1]) (s2, [] @ Return (Some ops2) # [], out @ [ops1])"
    unfolding T2(2) by (rule run_turns [OF run [OF I2(1)]])
  moreover have "?turn (s2, [] @ Return (Some ops2) # [], out @ [ops1]) (s2, [] @ [], (out @ [ops1]) @ [ops2])" by (rule turn.reply)
  ultimately have "?turns (s, [], out) (s2, [], out @ [ops1, ops2])" using looked by simp
  moreover have "event_at (tabs s2) = (event_at (tabs s))(ev_ID e1 \<mapsto> e1, ev_ID e2 \<mapsto> e2)"
    using I1(4) I2(4) tb by simp
  ultimately show ?thesis using I1(2,5) I2(2,5,6) by blast
qed

end

text \<open>
  C28: the idempotency key does not protect against concurrent requests. Take any two well-formed requests with
  the same key, of which the database takes the events, on a platform where nothing fails and the key is
  free. If both look the key up before either is ingested, both are answered with 202, two different
  events with the key are stored, and each has a message of its own on the log, so that both
  will be processed. Nothing refuses the second: no constraint of the database, no check of the handler.
\<close>

theorem race_ingests_twice:
  assumes "responsive (sk_db k) tabs pgnow uuid jsonb (sk_writer k) log (sk_conn k) logged ok" and "ok s"
    and "\<not> malformed r1" "decode_request (hr_body r1) (hr_body_err r1) = Some q1"
    and "\<not> malformed r2" "decode_request (hr_body r2) (hr_body_err r2) = Some q2"
    and "wr_IdempotencyKey q1 = key" "wr_IdempotencyKey q2 = key"
    and "map_of (idempotency_keys (tabs s)) key = None"
    and "row_for uuid jsonb env1 q1 = Some e1" "event_at (tabs s) (ev_ID e1) = None" "valid_utf8 (re_newid env1)"
    and "row_for uuid jsonb env2 q2 = Some e2" "event_at (tabs s) (ev_ID e2) = None" "valid_utf8 (re_newid env2)"
    and "ev_ID e1 \<noteq> ev_ID e2"
  shows "\<exists>ops1 ops2 s'. (turn k ttl tabs log logged)\<^sup>*\<^sup>* (s, [], out) (s', [], out @ [ops1, ops2]) \<and>
    rs_status (answer ops1) = 202 \<and> rs_status (answer ops2) = 202 \<and>
    event_at (tabs s') = (event_at (tabs s))(ev_ID e1 \<mapsto> e1, ev_ID e2 \<mapsto> e2) \<and>
    ev_IdempotencyKey e1 = pg_keyed key \<and> ev_IdempotencyKey e2 = pg_keyed key \<and>
    (\<exists>raw1 \<in> set (log s'). \<exists>raw2 \<in> set (log s').
       message_key raw1 = event_message (tp_Events (sk_topics k)) (re_newid env1) 1 \<and>
       message_key raw2 = event_message (tp_Events (sk_topics k)) (re_newid env2) 1)"
proof -
  have "ev_IdempotencyKey e = pg_keyed (wr_IdempotencyKey q)" if "row_for uuid jsonb env q = Some e" for env q e
    using that by (auto simp: row_for_def new_row_def pg_keyed_def split: option.splits if_splits)
  then have "ev_IdempotencyKey e1 = pg_keyed key" "ev_IdempotencyKey e2 = pg_keyed key"
    using assms(7,8,10,13) by metis+
  moreover have "map_of (idempotency_keys (tabs s)) (wr_IdempotencyKey q1) = None"
    "map_of (idempotency_keys (tabs s)) (wr_IdempotencyKey q2) = None"
    using assms(7-9) by simp_all
  note responsive.race [OF assms(1) refl refl refl assms(2-6) this assms(10-16), of ttl out]
  ultimately show ?thesis by simp
qed

section \<open>A run\<close>

interpretation calm_lookup: responsive world_db w_tabs w_now world_uuid world_jsonb world_writer w_log world_conn w_rows
  "\<lambda>s. w_faults s = []"
proof unfold_locales
  fix s :: world and key
  assume "w_faults s = []" "map_of (idempotency_keys (w_tabs s)) key = None"
  then show "\<exists>x. fst (q_key world_db key s) = Inl x \<and> errors_Is x ErrNoRows"
    by (simp add: world_db_def world_read_def world_key_def key_live_def calm_next)
qed

theorem race_ingests_twice_witness:
  "\<exists>(s :: world) ops1 ops2. turns_reach demo_stack hour w_tabs w_log w_rows (s, [], [ops1, ops2]) \<and>
     rs_status (answer ops1) = 202 \<and> rs_status (answer ops2) = 202 \<and>
     map_option ev_IdempotencyKey (event_at (w_tabs s) demo_id) = Some ''k1'' \<and>
     map_option ev_IdempotencyKey (event_at (w_tabs s) ''123e4567-e89b-12d3-a456-426614174001'') = Some ''k1''"
proof -
  let ?id = "''123e4567-e89b-12d3-a456-426614174001''" and ?s = "demo_world []"
  let ?env = "demo_env\<lparr>re_newid := ?id\<rparr>"
  let ?row = "\<lambda>i. new_event i 1700000000000000000 (ingest_input demo_parsed)"
  have h: "responsive (sk_db demo_stack) w_tabs w_now world_uuid world_jsonb (sk_writer demo_stack) w_log
      (sk_conn demo_stack) w_rows (\<lambda>s. w_faults s = [])"
    by (simp add: demo_stack_def calm_lookup.responsive_axioms)
  have s: "w_faults ?s = []" "map_of (idempotency_keys (w_tabs ?s)) ''k1'' = None" "event_at (w_tabs ?s) i = None" for i
    by (simp_all add: demo_world_def new_world_def event_at_def)
  have key: "wr_IdempotencyKey demo_parsed = ''k1''" by (simp add: demo_parsed_def)
  have r: "row_for world_uuid world_jsonb demo_env demo_parsed = Some (?row demo_id)"
    "row_for world_uuid world_jsonb ?env demo_parsed = Some (?row ?id)" by code_simp+
  have i: "ev_ID (?row demo_id) = demo_id" "ev_ID (?row ?id) = ?id" "demo_id \<noteq> ?id" by code_simp+
  have v: "valid_utf8 (re_newid demo_env)" "valid_utf8 (re_newid ?env)" by code_simp+
  obtain ops1 ops2 s' where t: "(turn demo_stack hour w_tabs w_log w_rows)\<^sup>*\<^sup>* (?s, [], []) (s', [], [] @ [ops1, ops2])"
    "rs_status (answer ops1) = 202" "rs_status (answer ops2) = 202"
    "event_at (w_tabs s') = (event_at (w_tabs ?s))(ev_ID (?row demo_id) \<mapsto> ?row demo_id, ev_ID (?row ?id) \<mapsto> ?row ?id)"
    using race_ingests_twice [OF h s(1) demo_well_formed demo_decodes demo_well_formed demo_decodes key key s(2)
        r(1) s(3) v(1) r(2) s(3) v(2), of hour "[]"] i by auto
  have "ev_IdempotencyKey (?row j) = ''k1''" for j by (simp add: new_event_def ingest_input_def key)
  then have "map_option ev_IdempotencyKey (event_at (w_tabs s') demo_id) = Some ''k1''"
    "map_option ev_IdempotencyKey (event_at (w_tabs s') ?id) = Some ''k1''"
    using t(4) i by simp_all
  moreover have "turns_reach demo_stack hour w_tabs w_log w_rows (s', [], [ops1, ops2])"
    using turns_reach_steps [OF t(1) demo_start] by simp
  ultimately show ?thesis using t(2,3) by blast
qed

end
