(* ===== verification/Calendar.thy ===== *)
theory Calendar
  imports Json
begin

text \<open>
  What the program uses of Go's package \<open>time\<close>: the proleptic Gregorian calendar, \<open>time.Parse\<close> with the
  layout \<open>2006-01-02\<close>, the text \<open>Time.MarshalJSON\<close> writes (RFC 3339) and \<open>time.ParseDuration\<close>. An instant is
  in nanoseconds since the Unix epoch, UTC. The lemmas show that the calendar's two directions are
  inverse to each other and that parsing inverts printing.
\<close>

section \<open>Years and days\<close>

definition is_leap :: "int \<Rightarrow> bool" where
  "is_leap y \<longleftrightarrow> y mod 4 = 0 \<and> (y mod 100 \<noteq> 0 \<or> y mod 400 = 0)"

definition month_lengths :: "int \<Rightarrow> int list" where
  "month_lengths y = [31, if is_leap y then 29 else 28, 31, 30, 31, 30, 31, 31, 30, 31, 30, 31]"

definition daysIn :: "int \<Rightarrow> int \<Rightarrow> int" where
  "daysIn m y = month_lengths y ! nat (m - 1)"

text \<open>Days from January 1 of year 1 to January 1 of year \<open>y\<close>.\<close>

definition days_before_year :: "int \<Rightarrow> int" where
  "days_before_year y = (let n = y - 1 in 365 * n + n div 4 - n div 100 + n div 400)"

definition day_of_year :: "int \<Rightarrow> int \<Rightarrow> int \<Rightarrow> int" where
  "day_of_year y m d = sum_list (take (nat (m - 1)) (month_lengths y)) + (d - 1)"

definition day_number :: "int \<Rightarrow> int \<Rightarrow> int \<Rightarrow> int" where
  "day_number y m d = days_before_year y + day_of_year y m d"

text \<open>The year of a day and the day in it, through the cycles of 400, 100, 4 and 1 years.\<close>

definition year_and_day :: "int \<Rightarrow> int \<times> int" where
  "year_and_day d =
     (let n400 = d div 146097; d1 = d - 146097 * n400;
          n = d1 div 36524; n100 = n - n div 4; d2 = d1 - 36524 * n100;
          n4 = d2 div 1461; d3 = d2 - 1461 * n4;
          n = d3 div 365; n1 = n - n div 4
      in (400 * n400 + 100 * n100 + 4 * n4 + n1 + 1, d3 - 365 * n1))"

fun month_and_day :: "int \<Rightarrow> int list \<Rightarrow> int \<Rightarrow> int \<times> int" where
  "month_and_day m [] d = (m, d + 1)"
| "month_and_day m (l # ls) d = (if d < l then (m, d + 1) else month_and_day (m + 1) ls (d - l))"

definition date_of_day :: "int \<Rightarrow> int \<times> int \<times> int" where
  "date_of_day n = (let (y, k) = year_and_day n; (m, d) = month_and_day 1 (month_lengths y) k in (y, m, d))"

definition valid_date :: "int \<Rightarrow> int \<Rightarrow> int \<Rightarrow> bool" where
  "valid_date y m d \<longleftrightarrow> 1 \<le> m \<and> m \<le> 12 \<and> 1 \<le> d \<and> d \<le> daysIn m y"

lemma div_is:
  fixes q r :: int
  assumes "x = k * q + r" "0 \<le> r" "r < k"
  shows "x div k = q" "x mod k = r"
  using assms by (simp_all add: int_div_pos_eq int_mod_pos_eq)

lemma div_parts:
  fixes n k :: int
  assumes "0 < k" obtains q r where "n = k * q + r" "0 \<le> r" "r < k"
  using assms that [of "n div k" "n mod k"] by simp

lemma year_cycles:
  obtains a b c e :: int where "y = 400 * a + 100 * b + 4 * c + e + 1"
    "0 \<le> b" "b \<le> 3" "0 \<le> c" "c \<le> 24" "0 \<le> e" "e \<le> 3"
proof -
  obtain a r where 1: "y - 1 = 400 * a + r" "0 \<le> r" "r < 400" by (rule div_parts [of 400 "y - 1"]) simp
  obtain b s where 2: "r = 100 * b + s" "0 \<le> s" "s < 100" by (rule div_parts [of 100 r]) simp
  obtain c e where 3: "s = 4 * c + e" "0 \<le> e" "e < 4" by (rule div_parts [of 4 s]) simp
  show ?thesis using 1 2 3 by (intro that [of a b c e]) linarith+
qed

lemma days_before_cycles:
  fixes a b c e :: int
  assumes "0 \<le> b" "b \<le> 3" "0 \<le> c" "c \<le> 24" "0 \<le> e" "e \<le> 3"
  shows "days_before_year (400 * a + 100 * b + 4 * c + e + 1) = 146097 * a + 36524 * b + 1461 * c + 365 * e"
proof -
  let ?n = "400 * a + 100 * b + 4 * c + e"
  have "?n div 4 = 100 * a + 25 * b + c" using assms by (intro div_is(1) [where r = e]) simp_all
  moreover have "?n div 100 = 4 * a + b" using assms by (intro div_is(1) [where r = "4 * c + e"]) simp_all
  moreover have "?n div 400 = a" using assms by (intro div_is(1) [where r = "100 * b + 4 * c + e"]) simp_all
  ultimately show ?thesis by (simp add: days_before_year_def Let_def)
qed

lemma leap_cycles:
  fixes a b c e :: int
  assumes "0 \<le> b" "b \<le> 3" "0 \<le> c" "c \<le> 24" "0 \<le> e" "e \<le> 3"
  shows "is_leap (400 * a + 100 * b + 4 * c + e + 1) \<longleftrightarrow> e = 3 \<and> (c < 24 \<or> b = 3)"
proof (cases "e = 3")
  case True
  let ?y = "400 * a + 100 * b + 4 * c + e + 1"
  have 4: "?y mod 4 = 0"
    using True by (intro div_is(2) [where q = "100 * a + 25 * b + c + 1"]) simp_all
  show ?thesis
  proof (cases "c = 24")
    case c: True
    have h: "?y mod 100 = 0" using True c by (intro div_is(2) [where q = "4 * a + b + 1"]) simp_all
    have "?y mod 400 = (if b = 3 then 0 else 100 * (b + 1))"
      using True c assms by (intro div_is(2) [where q = "if b = 3 then a + 1 else a"]) auto
    then show ?thesis using 4 h True c assms by (auto simp: is_leap_def)
  next
    case False
    have "?y mod 100 = 4 * c + 4"
      using True False assms by (intro div_is(2) [where q = "4 * a + b"]) simp_all
    then show ?thesis using 4 True False assms by (auto simp: is_leap_def)
  qed
next
  case False
  have "(400 * a + 100 * b + 4 * c + e + 1) mod 4 = e + 1"
    using False assms by (intro div_is(2) [where q = "100 * a + 25 * b + c"]) simp_all
  then show ?thesis using False assms by (simp add: is_leap_def)
qed

text \<open>One cycle too many at the last day of a leap cycle is taken back.\<close>

lemma div_last:
  fixes q r :: int
  assumes "x = k * q + r" "0 \<le> r" "r < k \<or> r = k \<and> q = 3" "0 \<le> q" "q \<le> 3" "0 < k"
  shows "x div k - x div k div 4 = q"
proof (cases "r < k")
  case True
  then have "x div k = q" using assms by (intro div_is(1) [where r = r]) simp_all
  then show ?thesis using assms by simp
next
  case False
  then have "x div k = 4" using assms by (intro div_is(1) [where r = 0]) simp_all
  then show ?thesis using False assms by simp
qed

lemma year_and_day_before:
  assumes "0 \<le> k" "k < (if is_leap y then 366 else 365)"
  shows "year_and_day (days_before_year y + k) = (y, k)"
proof -
  obtain a b c e :: int where y: "y = 400 * a + 100 * b + 4 * c + e + 1"
    and r: "0 \<le> b" "b \<le> 3" "0 \<le> c" "c \<le> 24" "0 \<le> e" "e \<le> 3" by (rule year_cycles)
  let ?d3 = "365 * e + k"
  let ?d2 = "1461 * c + ?d3"
  let ?d1 = "36524 * b + ?d2"
  have k: "k \<le> 364 \<or> k = 365 \<and> e = 3 \<and> (c < 24 \<or> b = 3)"
    using assms(2) leap_cycles [OF r, of a] y by (auto split: if_splits)
  have D: "days_before_year y + k = 146097 * a + ?d1"
    using days_before_cycles [OF r, of a] y by simp
  have n400: "(146097 * a + ?d1) div 146097 = a"
    using k r assms(1) by (intro div_is(1) [where r = ?d1]) linarith+
  have n100: "?d1 div 36524 - ?d1 div 36524 div 4 = b"
    using k r assms(1) by (intro div_last [where r = ?d2]) linarith+
  have n4: "?d2 div 1461 = c"
    using k r assms(1) by (intro div_is(1) [where r = ?d3]) linarith+
  have n1: "?d3 div 365 - ?d3 div 365 div 4 = e"
    using k r assms(1) by (intro div_last [where r = k]) linarith+
  have s: "146097 * a + ?d1 - 146097 * a = ?d1" "?d1 - 36524 * b = ?d2"
    "?d2 - 1461 * c = ?d3" "?d3 - 365 * e = k" by simp_all
  have "year_and_day (146097 * a + ?d1) = (400 * a + 100 * b + 4 * c + e + 1, k)"
    unfolding year_and_day_def Let_def n400 s n100 n4 n1 by (rule refl)
  then show ?thesis unfolding D y [symmetric] .
qed

lemma month_cases:
  assumes "1 \<le> m" "m \<le> (12::int)"
  obtains "m = 1" | "m = 2" | "m = 3" | "m = 4" | "m = 5" | "m = 6" | "m = 7" | "m = 8" | "m = 9"
    | "m = 10" | "m = 11" | "m = 12"
proof -
  from assms have "m \<in> {1..12}" by simp
  also have "{1..12} = {1, 2, 3, 4, 5, 6, 7, 8, 9, 10, 11, 12::int}" by (rule set_eqI) (simp; arith)
  finally show ?thesis using that by blast
qed

lemmas month_table = day_of_year_def daysIn_def month_lengths_def

lemma day_of_year_bounds:
  assumes "valid_date y m d"
  shows "0 \<le> day_of_year y m d" "day_of_year y m d < (if is_leap y then 366 else 365)"
proof -
  from assms have m: "1 \<le> m" "m \<le> 12" and d: "1 \<le> d" "d \<le> daysIn m y" by (simp_all add: valid_date_def)
  show "0 \<le> day_of_year y m d" using m by (rule month_cases) (use d in \<open>simp_all add: month_table\<close>)
  show "day_of_year y m d < (if is_leap y then 366 else 365)"
    using m by (rule month_cases) (use d in \<open>simp_all add: month_table split: if_splits\<close>)
qed

lemma month_and_day_of_year:
  assumes "valid_date y m d"
  shows "month_and_day 1 (month_lengths y) (day_of_year y m d) = (m, d)"
proof -
  from assms have m: "1 \<le> m" "m \<le> 12" and d: "1 \<le> d" "d \<le> daysIn m y" by (simp_all add: valid_date_def)
  show ?thesis using m by (rule month_cases) (use d in \<open>simp_all add: month_table split: if_splits\<close>)
qed

lemma date_of_day_number:
  assumes "valid_date y m d" shows "date_of_day (day_number y m d) = (y, m, d)"
  by (simp only: date_of_day_def day_number_def year_and_day_before [OF day_of_year_bounds [OF assms]]
      month_and_day_of_year [OF assms] Let_def prod.case)

lemma day_number_inject:
  assumes "valid_date y m d" "valid_date y' m' d'" "day_number y m d = day_number y' m' d'"
  shows "y = y' \<and> m = m' \<and> d = d'"
  using date_of_day_number [OF assms(1)] date_of_day_number [OF assms(2)] assms(3) by (metis prod.inject)

text \<open>Every day is the day of a valid date.\<close>

lemma div_last_parts:
  fixes x k :: int
  assumes "0 \<le> x" "x \<le> 4 * k" "0 < k"
  obtains q r where "x div k - x div k div 4 = q" "x = k * q + r" "0 \<le> q" "q \<le> 3" "0 \<le> r"
    "r < k \<or> q = 3 \<and> r = x - 3 * k"
proof -
  obtain n r where x: "x = k * n + r" "0 \<le> r" "r < k" using div_parts assms(3) by blast
  then have n: "x div k = n" by (intro div_is(1)) simp_all
  have "0 \<le> n" using assms(1,3) n by (simp add: pos_imp_zdiv_nonneg_iff flip: n)
  moreover have "k * n \<le> k * 4" using x assms(2) by linarith
  then have "n \<le> 4" using assms(3) by simp
  ultimately consider "0 \<le> n" "n \<le> 3" | "n = 4" by linarith
  then show thesis
  proof cases
    case 1
    then show ?thesis using x n by (intro that [of n r]) simp_all
  next
    case 2
    then show ?thesis using x n assms(2) by (intro that [of 3 "x - 3 * k"]) simp_all
  qed
qed

lemma year_and_day_ok:
  assumes "year_and_day d = (y, k)"
  shows "days_before_year y + k = d" "0 \<le> k" "k < (if is_leap y then 366 else 365)"
proof -
  obtain a d1 where d: "d = 146097 * a + d1" "0 \<le> d1" "d1 < 146097" by (rule div_parts [of 146097 d]) simp
  then have a: "d div 146097 = a" by (intro div_is(1)) simp_all
  have "d1 \<le> 4 * 36524" using d by simp
  from div_last_parts [OF d(2) this] obtain b d2 where b: "d1 div 36524 - d1 div 36524 div 4 = b" "d1 = 36524 * b + d2"
    "0 \<le> b" "b \<le> 3" "0 \<le> d2" "d2 < 36524 \<or> b = 3 \<and> d2 = d1 - 3 * 36524" by auto
  obtain c d3 where c: "d2 = 1461 * c + d3" "0 \<le> d3" "d3 < 1461" by (rule div_parts [of 1461 d2]) simp
  then have c': "d2 div 1461 = c" by (intro div_is(1)) simp_all
  have d2: "d2 \<le> 36524" using b(6) d(3) by linarith
  have cr: "0 \<le> c" "c \<le> 24" using c d2 b(5) by linarith+
  have "d3 \<le> 4 * 365" using c by simp
  from div_last_parts [OF c(2) this] obtain e r where e: "d3 div 365 - d3 div 365 div 4 = e" "d3 = 365 * e + r"
    "0 \<le> e" "e \<le> 3" "0 \<le> r" "r < 365 \<or> e = 3 \<and> r = d3 - 3 * 365" by auto
  have D: "d - 146097 * a = d1" "d1 - 36524 * b = d2" "d2 - 1461 * c = d3" "d3 - 365 * e = r"
    using d(1) b(2) c(1) e(2) by linarith+
  have "year_and_day d = (400 * a + 100 * b + 4 * c + e + 1, r)"
    unfolding year_and_day_def Let_def a D b(1) c' e(1) by (rule refl)
  then have y: "y = 400 * a + 100 * b + 4 * c + e + 1" and k: "k = r" using assms by simp_all
  note R = b(3,4) cr e(3,4)
  show "days_before_year y + k = d" unfolding y k days_before_cycles [OF R] using d(1) b(2) c(1) e(2) by simp
  show "0 \<le> k" using k e(5) by simp
  have "r \<le> 365" using e c by linarith
  moreover have "r = 365 \<Longrightarrow> e = 3 \<and> (c < 24 \<or> b = 3)"
    using e(2,6) b(6) c(1) cr d2 by linarith
  ultimately show "k < (if is_leap y then 366 else 365)"
    unfolding y k leap_cycles [OF R] using e(6) by (cases "r = 365") auto
qed

lemma month_and_day_ok:
  assumes "month_and_day 1 (month_lengths y) k = (m, d)" "0 \<le> k" "k < (if is_leap y then 366 else 365)"
  shows "valid_date y m d \<and> day_of_year y m d = k"
proof (cases "is_leap y")
  case True
  then show ?thesis
    using assms by (simp add: month_lengths_def valid_date_def daysIn_def day_of_year_def split: if_splits; (elim conjE; hypsubst)?; simp)
next
  case False
  then show ?thesis
    using assms by (simp add: month_lengths_def valid_date_def daysIn_def day_of_year_def split: if_splits; (elim conjE; hypsubst)?; simp)
qed

lemma date_of_day_ok:
  assumes "date_of_day n = (y, m, d)" shows "valid_date y m d \<and> day_number y m d = n"
proof -
  obtain y' k where yk: "year_and_day n = (y', k)" by (metis prod.collapse)
  obtain m' d' where md: "month_and_day 1 (month_lengths y') k = (m', d')" by (metis prod.collapse)
  have "y' = y" "m' = m" "d' = d" using assms yk md by (simp_all add: date_of_day_def)
  with month_and_day_ok [OF md year_and_day_ok(2,3) [OF yk]] year_and_day_ok(1) [OF yk]
  show ?thesis by (simp add: day_number_def)
qed

section \<open>time.Parse and Time.MarshalJSON\<close>

text \<open>
  \<open>parse_date\<close> is \<open>time.Parse\<close> with \<open>2006-01-02\<close>: four, two and two digits with hyphens between, a month
  of 1 to 12 and a day of that month, and nothing after it.
\<close>

definition day_nanos :: int where "day_nanos = 24 * hour"

definition instant :: "int \<Rightarrow> int \<Rightarrow> int \<Rightarrow> time" where
  "instant y m d = zero_time + day_nanos * day_number y m d"

fun date_fields :: "string \<Rightarrow> (int \<times> int \<times> int) option" where
  "date_fields [a, b, c, d, h1, e, f, h2, g, i] =
     (if list_all is_dig [a, b, c, d, e, f, g, i] \<and> h1 = CHR ''-'' \<and> h2 = CHR ''-''
      then Some (parse_nat [a, b, c, d], parse_nat [e, f], parse_nat [g, i]) else None)"
| "date_fields _ = None"

definition parse_date :: "string \<Rightarrow> time option" where
  "parse_date s = (case date_fields s of
      None \<Rightarrow> None
    | Some (y, m, d) \<Rightarrow> if valid_date y m d then Some (instant y m d) else None)"

definition pad2 :: "int \<Rightarrow> string" where
  "pad2 n = map (\<lambda>k. digit_char (nat (n div k mod 10))) [10, 1]"

definition pad4 :: "int \<Rightarrow> string" where
  "pad4 n = map (\<lambda>k. digit_char (nat (n div k mod 10))) [1000, 100, 10, 1]"

definition date_text :: "int \<times> int \<times> int \<Rightarrow> string" where
  "date_text = (\<lambda>(y, m, d). pad4 y @ ''-'' @ pad2 m @ ''-'' @ pad2 d)"

text \<open>
  \<open>RFC3339Nano\<close> in UTC: a fraction of a second without trailing zeros. \<open>MarshalJSON\<close> fails on a year outside
  0 to 9999.
\<close>

definition nine_digits :: "int \<Rightarrow> string" where
  "nine_digits n = map (\<lambda>k. digit_char (nat (n div 10 ^ k mod 10))) (rev [0..<9])"

definition fraction_text :: "int \<Rightarrow> string" where
  "fraction_text n = (if n = 0 then [] else ''.'' @ rev (dropWhile (\<lambda>c. c = CHR ''0'') (rev (nine_digits n))))"

definition time_date :: "time \<Rightarrow> int \<times> int \<times> int" where
  "time_date t = date_of_day ((t - zero_time) div day_nanos)"

definition clock_text :: "time \<Rightarrow> string" where
  "clock_text t =
     (let ns = (t - zero_time) mod day_nanos; sec = ns div second
      in pad2 (sec div 3600) @ '':'' @ pad2 (sec div 60 mod 60) @ '':'' @ pad2 (sec mod 60) @
         fraction_text (ns mod second))"

definition time_json :: "time \<Rightarrow> string option" where
  "time_json t = (let (y, m, d) = time_date t in
     if 0 \<le> y \<and> y \<le> 9999
     then Some (''\"'' @ date_text (y, m, d) @ ''T'' @ clock_text t @ ''Z\"'') else None)"

lemma is_dig_digit_char [simp]: "is_dig (digit_char (nat (n mod 10)))"
  using digit_char_ok [of "nat (n mod 10)"] by simp

lemma digit_val_digit_char [simp]: "digit_val (digit_char (nat (n mod 10))) = n mod 10"
  using digit_char_ok [of "nat (n mod 10)"] by simp

lemma digit_char_digit_val: "is_dig c \<Longrightarrow> digit_char (nat (digit_val c)) = c"
  by (simp add: digit_char_def digit_val_def is_dig_def in_range_def nat_diff_distrib)

lemma digit_val_range: "is_dig c \<Longrightarrow> 0 \<le> digit_val c \<and> digit_val c \<le> 9"
  by (auto simp: digit_val_def is_dig_def in_range_def)

lemma digit_val_small [simp]: "0 \<le> k \<Longrightarrow> k < 10 \<Longrightarrow> digit_val (digit_char (nat k)) = k"
  using digit_val_digit_char [of k] by simp

lemma parse_pad2: "0 \<le> n \<Longrightarrow> n \<le> 99 \<Longrightarrow> parse_nat (pad2 n) = n"
  by (simp add: pad2_def parse_nat_def)

lemma decimal_parts:
  fixes n :: int
  shows "1000 * (n div 1000) + 100 * (n div 100 mod 10) + 10 * (n div 10 mod 10) + n mod 10 = n"
proof -
  let ?p = "n div 10" let ?q = "?p div 10" let ?r = "?q div 10"
  have "n = 10 * ?p + n mod 10" "?p = 10 * ?q + ?p mod 10" "?q = 10 * ?r + ?q mod 10"
    by (simp_all only: mult_div_mod_eq)
  moreover have "n div 100 = ?q" "n div 1000 = ?r"
    using zdiv_zmult2_eq [of 10 n 10] zdiv_zmult2_eq [of 10 n 100] zdiv_zmult2_eq [of 10 "n div 10" 10] by simp_all
  ultimately show ?thesis by (simp only:)
qed

lemma parse_pad4: "0 \<le> n \<Longrightarrow> n \<le> 9999 \<Longrightarrow> parse_nat (pad4 n) = n"
  by (simp add: pad4_def parse_nat_def decimal_parts)

lemma digits_of_number:
  fixes a b c d :: int
  assumes "0 \<le> a" "a \<le> 9" "0 \<le> b" "b \<le> 9" "0 \<le> c" "c \<le> 9" "0 \<le> d" "d \<le> 9"
  shows "(1000 * a + 100 * b + 10 * c + d) div 1000 mod 10 = a"
    "(1000 * a + 100 * b + 10 * c + d) div 100 mod 10 = b"
    "(1000 * a + 100 * b + 10 * c + d) div 10 mod 10 = c"
    "(1000 * a + 100 * b + 10 * c + d) mod 10 = d"
proof -
  let ?n = "1000 * a + 100 * b + 10 * c + d"
  have "?n div 1000 = a" by (rule div_is(1) [where r = "100 * b + 10 * c + d"]) (use assms in simp_all)
  then show "?n div 1000 mod 10 = a" using assms by simp
  have "?n div 100 = 10 * a + b" by (rule div_is(1) [where r = "10 * c + d"]) (use assms in simp_all)
  then show "?n div 100 mod 10 = b" using assms by simp
  have "?n div 10 = 10 * (10 * a + b) + c" by (rule div_is(1) [where r = d]) (use assms in simp_all)
  moreover have "(10 * (10 * a + b) + c) mod 10 = c"
    by (rule div_is(2) [where q = "10 * a + b"]) (use assms in simp_all)
  ultimately show "?n div 10 mod 10 = c" by simp
  show "?n mod 10 = d" by (rule div_is(2) [where q = "100 * a + 10 * b + c"]) (use assms in simp_all)
qed

lemma pad4_parse:
  assumes "is_dig a" "is_dig b" "is_dig c" "is_dig d" shows "pad4 (parse_nat [a, b, c, d]) = [a, b, c, d]"
proof -
  note r = assms [THEN digit_val_range]
  have n: "parse_nat [a, b, c, d] = 1000 * digit_val a + 100 * digit_val b + 10 * digit_val c + digit_val d"
    by (simp add: parse_nat_def)
  note D = digits_of_number [OF r(1) [THEN conjunct1] r(1) [THEN conjunct2] r(2) [THEN conjunct1]
      r(2) [THEN conjunct2] r(3) [THEN conjunct1] r(3) [THEN conjunct2] r(4) [THEN conjunct1] r(4) [THEN conjunct2]]
  show ?thesis unfolding n pad4_def list.map div_by_1 D by (simp only: digit_char_digit_val assms)
qed

lemma pad2_parse:
  assumes "is_dig a" "is_dig b" shows "pad2 (parse_nat [a, b]) = [a, b]"
proof -
  note r = assms [THEN digit_val_range]
  have z: "(0::int) \<le> 0" "(0::int) \<le> 9" by simp_all
  have n: "parse_nat [a, b] = 1000 * 0 + 100 * 0 + 10 * digit_val a + digit_val b"
    by (simp add: parse_nat_def)
  note D = digits_of_number [OF z z r(1) [THEN conjunct1] r(1) [THEN conjunct2] r(2) [THEN conjunct1] r(2) [THEN conjunct2]]
  show ?thesis unfolding n pad2_def list.map div_by_1 D by (simp only: digit_char_digit_val assms)
qed

lemma parse_nat_pos: "list_all is_dig s \<Longrightarrow> 0 \<le> parse_nat s"
proof -
  have "list_all is_dig s \<Longrightarrow> 0 \<le> k \<Longrightarrow> 0 \<le> foldl (\<lambda>n c. 10 * n + digit_val c) k s" for k
    by (induction s arbitrary: k) (simp_all add: digit_val_range)
  then show "list_all is_dig s \<Longrightarrow> 0 \<le> parse_nat s" by (simp add: parse_nat_def)
qed

lemma parse_nat4: "list_all is_dig [a, b, c, d] \<Longrightarrow> parse_nat [a, b, c, d] \<le> 9999"
  using digit_val_range [of a] digit_val_range [of b] digit_val_range [of c] digit_val_range [of d]
  by (simp add: parse_nat_def)

lemma date_fields_Some:
  assumes "date_fields s = Some (y, m, d)"
  shows "0 \<le> y \<and> y \<le> 9999 \<and> s = date_text (y, m, d)"
proof -
  obtain a b c e h1 f g h2 i j where s: "s = [a, b, c, e, h1, f, g, h2, i, j]"
    and dig: "list_all is_dig [a, b, c, e]" "list_all is_dig [f, g]" "list_all is_dig [i, j]"
    and h: "h1 = CHR ''-''" "h2 = CHR ''-''"
    and v: "y = parse_nat [a, b, c, e]" "m = parse_nat [f, g]" "d = parse_nat [i, j]"
    using assms by (cases s rule: date_fields.cases) (auto split: if_splits)
  show ?thesis
    using parse_nat_pos [OF dig(1)] parse_nat4 [OF dig(1)]
    dig by (simp add: s h v date_text_def pad4_parse pad2_parse)
qed

lemma date_fields_text:
  assumes "0 \<le> y" "y \<le> 9999" "0 \<le> m" "m \<le> 99" "0 \<le> d" "d \<le> 99"
  shows "date_fields (date_text (y, m, d)) = Some (y, m, d)"
proof -
  obtain a b c e where 1: "pad4 y = [a, b, c, e]" "list_all is_dig [a, b, c, e]" by (simp add: pad4_def)
  obtain f g where 2: "pad2 m = [f, g]" "list_all is_dig [f, g]" by (simp add: pad2_def)
  obtain i j where 3: "pad2 d = [i, j]" "list_all is_dig [i, j]" by (simp add: pad2_def)
  show ?thesis using 1 2 3 parse_pad4 [OF assms(1,2)] parse_pad2 [OF assms(3,4)] parse_pad2 [OF assms(5,6)]
    by (simp add: date_text_def)
qed

lemma valid_date_small: "valid_date y m d \<Longrightarrow> 1 \<le> m \<and> m \<le> 12 \<and> 1 \<le> d \<and> d \<le> 31"
proof -
  assume v: "valid_date y m d"
  then have m: "1 \<le> m" "m \<le> 12" by (simp_all add: valid_date_def)
  have "daysIn m y \<le> 31" using m by (rule month_cases) (simp_all add: month_table)
  with v show ?thesis by (simp add: valid_date_def)
qed

lemma time_date_instant:
  assumes "valid_date y m d" shows "time_date (instant y m d) = (y, m, d)"
  by (simp add: time_date_def instant_def day_nanos_def hour_def date_of_day_number [OF assms])

lemma parse_date_iff:
  "parse_date s = Some t \<longleftrightarrow>
     (\<exists>y m d. 0 \<le> y \<and> y \<le> 9999 \<and> valid_date y m d \<and> s = date_text (y, m, d) \<and> t = instant y m d)"
proof
  assume "parse_date s = Some t"
  then obtain y m d where f: "date_fields s = Some (y, m, d)" and v: "valid_date y m d" "t = instant y m d"
    by (auto simp: parse_date_def split: option.splits if_splits)
  then show "\<exists>y m d. 0 \<le> y \<and> y \<le> 9999 \<and> valid_date y m d \<and> s = date_text (y, m, d) \<and> t = instant y m d"
    using date_fields_Some [OF f] by blast
next
  assume "\<exists>y m d. 0 \<le> y \<and> y \<le> 9999 \<and> valid_date y m d \<and> s = date_text (y, m, d) \<and> t = instant y m d"
  then show "parse_date s = Some t"
    using date_fields_text valid_date_small unfolding parse_date_def by fastforce
qed

lemma clock_text_midnight: "clock_text (instant y m d) = ''00:00:00''"
proof -
  have "(instant y m d - zero_time) mod day_nanos = 0" by (simp add: instant_def)
  then show ?thesis
    by (simp add: clock_text_def Let_def pad2_def fraction_text_def digit_char_def) code_simp
qed

lemma parse_date_json:
  assumes "parse_date s = Some t" shows "time_json t = Some (''\"'' @ s @ ''T00:00:00Z\"'')"
proof -
  from assms obtain y m d where p: "0 \<le> y" "y \<le> 9999" "valid_date y m d" "s = date_text (y, m, d)" "t = instant y m d"
    unfolding parse_date_iff by blast
  show ?thesis unfolding time_json_def p(4,5) time_date_instant [OF p(3)] clock_text_midnight
    using p(1,2) by simp
qed

text \<open>Midnight of the day of an instant.\<close>

lemma time_date_ok:
  assumes "time_date t = (y, m, d)"
  shows "valid_date y m d \<and> instant y m d = t - (t - zero_time) mod day_nanos"
proof -
  have D: "date_of_day ((t - zero_time) div day_nanos) = (y, m, d)" using assms by (simp only: time_date_def)
  have "day_nanos * ((t - zero_time) div day_nanos) = (t - zero_time) - (t - zero_time) mod day_nanos"
    by (rule minus_mod_eq_mult_div [symmetric])
  then show ?thesis using date_of_day_ok [OF D] by (auto simp only: instant_def)
qed

lemma midnight_le: "zero_time + day_nanos * k \<le> t - (t - zero_time) mod day_nanos \<longleftrightarrow> zero_time + day_nanos * k \<le> t"
  "t - (t - zero_time) mod day_nanos \<le> zero_time + day_nanos * k \<longleftrightarrow> t < zero_time + day_nanos * k + day_nanos"
proof -
  obtain q r where x: "t - zero_time = day_nanos * q + r" "0 \<le> r" "r < day_nanos"
    by (rule div_parts [of day_nanos "t - zero_time"]) (simp add: day_nanos_def hour_def)
  then have r: "(t - zero_time) mod day_nanos = r" by (intro div_is(2)) simp_all
  have t: "t = zero_time + day_nanos * q + r" using x(1) by simp
  have D: "0 < day_nanos" by (simp add: day_nanos_def hour_def)
  have "day_nanos * k \<le> day_nanos * q + r \<longleftrightarrow> k \<le> q"
  proof
    assume "day_nanos * k \<le> day_nanos * q + r"
    then have "day_nanos * k < day_nanos * (q + 1)" using x(3) by (simp add: distrib_left)
    then show "k \<le> q" using D by simp
  next
    assume "k \<le> q"
    then have "day_nanos * k \<le> day_nanos * q" using D by simp
    then show "day_nanos * k \<le> day_nanos * q + r" using x(2) by linarith
  qed
  then show "zero_time + day_nanos * k \<le> t - (t - zero_time) mod day_nanos \<longleftrightarrow> zero_time + day_nanos * k \<le> t"
    unfolding r unfolding t using D by simp
  have "day_nanos * q + r < day_nanos * k + day_nanos \<longleftrightarrow> q \<le> k"
  proof
    assume "day_nanos * q + r < day_nanos * k + day_nanos"
    then have "day_nanos * q < day_nanos * (k + 1)" using x(2) by (simp add: distrib_left)
    then show "q \<le> k" using D by simp
  next
    assume "q \<le> k"
    then have "day_nanos * q \<le> day_nanos * k" using D by simp
    then show "day_nanos * q + r < day_nanos * k + day_nanos" using x(3) by linarith
  qed
  then show "t - (t - zero_time) mod day_nanos \<le> zero_time + day_nanos * k \<longleftrightarrow> t < zero_time + day_nanos * k + day_nanos"
    unfolding r unfolding t using D by simp
qed

end
