(* ===== verification/Config.thy ===== *)
theory Config
  imports Calendar
begin

text \<open>
  \<open>internal/config.go\<close>: the configuration as a function of the environment, with what it uses of
  \<open>strconv\<close>, \<open>strings\<close> and \<open>time.ParseDuration\<close>. \<open>config_env\<close> prints a configuration as an
  environment; \<open>load_roundtrip\<close> shows that \<open>Load\<close> reads it back.
\<close>

section \<open>strconv.Atoi, strconv.ParseBool, strings.Split\<close>

definition split_sign :: "string \<Rightarrow> bool \<times> string" where
  "split_sign s = (case s of
      [] \<Rightarrow> (False, [])
    | c # r \<Rightarrow> if c = CHR ''-'' then (True, r) else if c = CHR ''+'' then (False, r) else (False, s))"

definition Atoi :: "string \<Rightarrow> int option" where
  "Atoi s = (case split_sign s of (neg, ds) \<Rightarrow>
     if ds = [] \<or> \<not> list_all is_dig ds then None
     else let n = (if neg then - parse_nat ds else parse_nat ds) in if in_int64 n then Some n else None)"

definition ParseBool :: "string \<Rightarrow> bool option" where
  "ParseBool s =
     (if s \<in> {''1'', ''t'', ''T'', ''TRUE'', ''true'', ''True''} then Some True
      else if s \<in> {''0'', ''f'', ''F'', ''FALSE'', ''false'', ''False''} then Some False else None)"

fun Split :: "char \<Rightarrow> string \<Rightarrow> string list" where
  "Split sep [] = [[]]"
| "Split sep (c # r) = (if c = sep then [] # Split sep r
     else case Split sep r of p # ps \<Rightarrow> (c # p) # ps | [] \<Rightarrow> [[c]])"

section \<open>time.ParseDuration\<close>

text \<open>
  The integer part is a \<open>uint64\<close> of at most \<open>2^63\<close>; the digits of the fraction are read as an integer
  with its scale, and digits that would overflow are skipped. \<open>frac f scale unit\<close> stands for
  \<open>uint64(float64(f) * (float64(unit) / scale))\<close>, whose rounding is the platform's.
\<close>

fun leadingInt :: "int \<Rightarrow> string \<Rightarrow> (int \<times> string) option" where
  "leadingInt x [] = Some (x, [])"
| "leadingInt x (c # r) =
     (if \<not> is_dig c then Some (x, c # r)
      else if x > 922337203685477580 then None
      else let y = x * 10 + digit_val c in
        if y > 9223372036854775808 then None else leadingInt y r)"

fun leadingFraction :: "bool \<Rightarrow> int \<Rightarrow> int \<Rightarrow> string \<Rightarrow> int \<times> int \<times> string" where
  "leadingFraction overflow x scale [] = (x, scale, [])"
| "leadingFraction overflow x scale (c # r) =
     (if \<not> is_dig c then (x, scale, c # r)
      else if overflow \<or> x > 922337203685477580 then leadingFraction True x scale r
      else let y = x * 10 + digit_val c in
        if y > 9223372036854775808 then leadingFraction True x scale r
        else leadingFraction False y (scale * 10) r)"

definition unit_nanos :: "string \<Rightarrow> int option" where
  "unit_nanos u =
     (if u = ''ns'' then Some 1
      else if u = ''us'' \<or> u = [CHR 0xC2, CHR 0xB5, CHR ''s''] \<or> u = [CHR 0xCE, CHR 0xBC, CHR ''s''] then Some 1000
      else if u = ''ms'' then Some 1000000 else if u = ''s'' then Some 1000000000
      else if u = ''m'' then Some 60000000000 else if u = ''h'' then Some 3600000000000 else None)"

definition unit_char :: "char \<Rightarrow> bool" where
  "unit_char c \<longleftrightarrow> c \<noteq> CHR ''.'' \<and> \<not> is_dig c"

text \<open>A number with its unit: its nanoseconds and the rest.\<close>

definition duration_part :: "(int \<Rightarrow> int \<Rightarrow> int \<Rightarrow> int) \<Rightarrow> string \<Rightarrow> (int \<times> string) option" where
  "duration_part frac s =
     (if s = [] \<or> unit_char (hd s) then None
      else case leadingInt 0 s of None \<Rightarrow> None | Some (v, s1) \<Rightarrow>
       (let pre = (length s1 \<noteq> length s);
            (f, scale, s2, post) = (if s1 \<noteq> [] \<and> hd s1 = CHR ''.''
              then (case leadingFraction False 0 1 (tl s1) of (f, scale, s2) \<Rightarrow>
                (f, scale, s2, length s2 \<noteq> length (tl s1)))
              else (0, 1, s1, False))
        in if \<not> pre \<and> \<not> post then None
           else if takeWhile unit_char s2 = [] then None
           else case unit_nanos (takeWhile unit_char s2) of None \<Rightarrow> None | Some unit \<Rightarrow>
             if v > 9223372036854775808 div unit then None
             else let v' = v * unit + (if f > 0 then frac f scale unit else 0)
               in if f > 0 \<and> v' > 9223372036854775808 then None else Some (v', dropWhile unit_char s2)))"

lemma leadingInt_length: "leadingInt x s = Some (v, t) \<Longrightarrow> length t \<le> length s"
  by (induction x s rule: leadingInt.induct) (auto simp: Let_def split: if_splits)

lemma leadingFraction_length: "leadingFraction b x sc s = (f, sc', t) \<Longrightarrow> length t \<le> length s"
  by (induction b x sc s rule: leadingFraction.induct) (auto simp: Let_def split: if_splits)

lemma dropWhile_shorter: "takeWhile p s \<noteq> [] \<Longrightarrow> length (dropWhile p s) < length s"
  by (metis append_Nil length_dropWhile_le less_le takeWhile_dropWhile_id append_eq_append_conv)

lemma duration_part_length:
  assumes "duration_part frac s = Some (v, t)" shows "length t < length s"
proof -
  obtain x s1 where l: "leadingInt 0 s = Some (x, s1)"
    using assms by (auto simp: duration_part_def split: if_splits option.splits)
  let ?s2 = "if s1 \<noteq> [] \<and> hd s1 = CHR ''.'' then snd (snd (leadingFraction False 0 1 (tl s1))) else s1"
  have t: "takeWhile unit_char ?s2 \<noteq> []" "t = dropWhile unit_char ?s2"
    using assms l by (auto simp: duration_part_def Let_def split: if_splits option.splits prod.splits)
  have "length ?s2 \<le> length s1"
    using leadingFraction_length [of False 0 1 "tl s1"] by (cases "leadingFraction False 0 1 (tl s1)") auto
  with leadingInt_length [OF l] dropWhile_shorter [OF t(1)] show ?thesis unfolding t(2) by (rule less_le_trans [OF _ le_trans, rotated 2])
qed

text \<open>The sum is a \<open>uint64\<close> too, and checked after it has wrapped.\<close>

function duration_sum :: "(int \<Rightarrow> int \<Rightarrow> int \<Rightarrow> int) \<Rightarrow> int \<Rightarrow> string \<Rightarrow> int option" where
  "duration_sum frac d s =
     (if s = [] then Some d
      else case duration_part frac s of None \<Rightarrow> None | Some (v, s') \<Rightarrow>
        (let d' = (d + v) mod 18446744073709551616
         in if d' > 9223372036854775808 then None else duration_sum frac d' s'))"
  by pat_completeness auto
termination
  by (relation "measure (\<lambda>(frac, d, s). length s)") (auto dest: duration_part_length)

declare duration_sum.simps [simp del]

definition ParseDuration :: "(int \<Rightarrow> int \<Rightarrow> int \<Rightarrow> int) \<Rightarrow> string \<Rightarrow> duration option" where
  "ParseDuration frac s = (case split_sign s of (neg, s1) \<Rightarrow>
     if s1 = ''0'' then Some 0
     else if s1 = [] then None
     else case duration_sum frac 0 s1 of None \<Rightarrow> None | Some d \<Rightarrow>
       if neg then Some (wrap64 (- wrap64 d))
       else if d > 9223372036854775807 then None else Some d)"

section \<open>config.go\<close>

text \<open>The environment; a variable that is not set reads as the empty string.\<close>

type_synonym env = "string \<Rightarrow> string option"

definition Getenv :: "env \<Rightarrow> string \<Rightarrow> string" where
  "Getenv env key = (case env key of None \<Rightarrow> [] | Some v \<Rightarrow> v)"

definition requireEnv :: "env \<Rightarrow> string \<Rightarrow> go_error + string" where
  "requireEnv env key = (let v = Getenv env key in
     if v = [] then Inl (ErrText (''required environment variable \"'' @ key @ ''\" is not set'')) else Inr v)"

definition getEnv :: "env \<Rightarrow> string \<Rightarrow> string \<Rightarrow> string" where
  "getEnv env key fallback = (let v = Getenv env key in if v \<noteq> [] then v else fallback)"

definition getEnvInt :: "env \<Rightarrow> string \<Rightarrow> int \<Rightarrow> int" where
  "getEnvInt env key fallback = (let v = Getenv env key in
     if v = [] then fallback else case Atoi v of None \<Rightarrow> fallback | Some i \<Rightarrow> i)"

definition getEnvBool :: "env \<Rightarrow> string \<Rightarrow> bool \<Rightarrow> bool" where
  "getEnvBool env key fallback = (let v = Getenv env key in
     if v = [] then fallback else case ParseBool v of None \<Rightarrow> fallback | Some b \<Rightarrow> b)"

definition getEnvStringSlice :: "env \<Rightarrow> string \<Rightarrow> string list \<Rightarrow> string list" where
  "getEnvStringSlice env key fallback = (let v = Getenv env key in
     if v = [] then fallback else filter (\<lambda>s. s \<noteq> []) (map TrimSpace (Split (CHR '','') v)))"

definition getEnvDuration ::
  "(int \<Rightarrow> int \<Rightarrow> int \<Rightarrow> int) \<Rightarrow> env \<Rightarrow> string \<Rightarrow> duration \<Rightarrow> duration" where
  "getEnvDuration frac env key fallback = (let v = Getenv env key in
     if v = [] then fallback else case ParseDuration frac v of None \<Rightarrow> fallback | Some d \<Rightarrow> d)"

record HTTPConfig =
  hc_Host :: string
  hc_Port :: int
  hc_ReadTimeout :: duration
  hc_WriteTimeout :: duration
  hc_IdleTimeout :: duration
  hc_PprofEnabled :: bool

record PostgresConfig =
  pc_DSN :: string
  pc_MaxOpenConns :: int
  pc_MaxIdleConns :: int
  pc_ConnMaxLifetime :: duration

record ClickHouseConfig =
  cc_Addr :: string
  cc_Database :: string
  cc_Username :: string
  cc_Password :: string

record KafkaConfig =
  kc_Brokers :: "string list"
  kc_TopicEvents :: string
  kc_TopicDLQ :: string
  kc_ConsumerGroup :: string
  kc_MaxRetries :: int

record LogConfig =
  lc_Level :: string
  lc_Format :: string

record OTelConfig =
  oc_Enabled :: bool
  oc_ServiceName :: string
  oc_ExporterType :: string
  oc_Endpoint :: string

record AppConfig =
  ac_IdempotencyTTL :: duration

record app_config =
  HTTP :: HTTPConfig
  Postgres :: PostgresConfig
  Kafka :: KafkaConfig
  ClickHouse :: ClickHouseConfig
  Log :: LogConfig
  OTel :: OTelConfig
  App :: AppConfig

definition read_config :: "(int \<Rightarrow> int \<Rightarrow> int \<Rightarrow> int) \<Rightarrow> env \<Rightarrow> string \<Rightarrow> app_config" where
  "read_config frac env postgresDSN = \<lparr>
     HTTP = \<lparr>hc_Host = getEnv env ''HTTP_HOST'' ''0.0.0.0'',
       hc_Port = getEnvInt env ''HTTP_PORT'' 8080,
       hc_ReadTimeout = getEnvDuration frac env ''HTTP_READ_TIMEOUT'' (15 * second),
       hc_WriteTimeout = getEnvDuration frac env ''HTTP_WRITE_TIMEOUT'' (15 * second),
       hc_IdleTimeout = getEnvDuration frac env ''HTTP_IDLE_TIMEOUT'' (60 * second),
       hc_PprofEnabled = getEnvBool env ''PPROF_ENABLED'' False\<rparr>,
     Postgres = \<lparr>pc_DSN = postgresDSN,
       pc_MaxOpenConns = getEnvInt env ''POSTGRES_MAX_OPEN_CONNS'' 25,
       pc_MaxIdleConns = getEnvInt env ''POSTGRES_MAX_IDLE_CONNS'' 5,
       pc_ConnMaxLifetime = getEnvDuration frac env ''POSTGRES_CONN_MAX_LIFETIME'' (5 * minute)\<rparr>,
     Kafka = \<lparr>kc_Brokers = getEnvStringSlice env ''KAFKA_BROKERS'' [''localhost:19092''],
       kc_TopicEvents = getEnv env ''KAFKA_TOPIC_EVENTS'' ''events'',
       kc_TopicDLQ = getEnv env ''KAFKA_TOPIC_DLQ'' ''events.dlq'',
       kc_ConsumerGroup = getEnv env ''KAFKA_CONSUMER_GROUP'' ''event-processor'',
       kc_MaxRetries = getEnvInt env ''KAFKA_MAX_RETRIES'' 3\<rparr>,
     ClickHouse = \<lparr>cc_Addr = getEnv env ''CLICKHOUSE_ADDR'' ''localhost:9000'',
       cc_Database = getEnv env ''CLICKHOUSE_DATABASE'' ''events'',
       cc_Username = getEnv env ''CLICKHOUSE_USER'' ''events'',
       cc_Password = getEnv env ''CLICKHOUSE_PASSWORD'' ''events''\<rparr>,
     Log = \<lparr>lc_Level = getEnv env ''LOG_LEVEL'' ''info'', lc_Format = getEnv env ''LOG_FORMAT'' ''json''\<rparr>,
     OTel = \<lparr>oc_Enabled = getEnvBool env ''OTEL_ENABLED'' False,
       oc_ServiceName = getEnv env ''OTEL_SERVICE_NAME'' ''event-observability-platform'',
       oc_ExporterType = getEnv env ''OTEL_EXPORTER_TYPE'' ''stdout'',
       oc_Endpoint = getEnv env ''OTEL_EXPORTER_OTLP_ENDPOINT'' ''http://localhost:4318''\<rparr>,
     App = \<lparr>ac_IdempotencyTTL = getEnvDuration frac env ''IDEMPOTENCY_TTL'' (24 * hour)\<rparr>\<rparr>"

definition Load :: "(int \<Rightarrow> int \<Rightarrow> int \<Rightarrow> int) \<Rightarrow> env \<Rightarrow> go_error + app_config" where
  "Load frac env = (case requireEnv env ''POSTGRES_DSN'' of
      Inl err \<Rightarrow> Inl err
    | Inr postgresDSN \<Rightarrow> Inr (read_config frac env postgresDSN))"

lemmas getEnv_defs = getEnv_def getEnvInt_def getEnvBool_def getEnvStringSlice_def getEnvDuration_def Let_def

section \<open>What Load gives\<close>

lemma strip_space_prefix: "strip_space (p @ q) = None \<Longrightarrow> strip_space p = None"
  by (cases p rule: list.exhaust; cases "tl p" rule: list.exhaust; cases "tl (tl p)" rule: list.exhaust)
    (auto simp: strip_space_def split: if_splits list.splits)

lemma trim_tfel_suffix: "\<exists>p. s = p @ trim_tfel s"
proof (induction s rule: trim_tfel.induct)
  case (1 s)
  show ?case
  proof (cases "strip_ecaps s")
    case None then show ?thesis by (simp add: trim_tfel_id)
  next
    case (Some r)
    then obtain p where "s = p @ r"
      by (auto simp: strip_ecaps_def split: list.splits if_splits)
    with 1 [OF Some] Some show ?thesis by (metis append.assoc option.case(2) trim_tfel.simps)
  qed
qed

lemma TrimSpace_idem [simp]: "TrimSpace (TrimSpace s) = TrimSpace s"
proof -
  let ?l = "trim_left s"
  obtain p where p: "rev ?l = p @ trim_tfel (rev ?l)" using trim_tfel_suffix by blast
  then have "?l = TrimSpace s @ rev p" by (metis TrimSpace_def rev_append rev_rev_ident)
  then have "strip_space (TrimSpace s) = None" using strip_trim_left [of s] strip_space_prefix by metis
  then show ?thesis by (simp add: TrimSpace_def trim_left_id trim_tfel_id)
qed

lemma Atoi_range: "Atoi s = Some i \<Longrightarrow> in_int64 i"
  by (auto simp: Atoi_def Let_def split: prod.splits if_splits)

lemma duration_sum_range:
  "duration_sum frac d s = Some v \<Longrightarrow> 0 \<le> d \<Longrightarrow> d \<le> 9223372036854775808 \<Longrightarrow> 0 \<le> v \<and> v \<le> 9223372036854775808"
proof (induction frac d s rule: duration_sum.induct)
  case (1 frac d s)
  show ?case
    using 1(2-4) 1(1) duration_sum.simps [of frac d s]
    by (auto simp: Let_def split: if_splits option.splits prod.splits)
qed

lemma ParseDuration_range: "ParseDuration frac s = Some d \<Longrightarrow> in_int64 d"
  by (auto simp: ParseDuration_def int64_defs split: prod.splits if_splits option.splits
      dest: duration_sum_range) (use wrap64_range in \<open>simp_all add: int64_defs\<close>)

lemma getEnv_range:
  "in_int64 i \<Longrightarrow> in_int64 (getEnvInt env key i)"
  "in_int64 i \<Longrightarrow> in_int64 (getEnvDuration frac env key i)"
  "fb \<noteq> [] \<Longrightarrow> getEnv env key fb \<noteq> []"
  by (auto simp: getEnv_defs Atoi_range ParseDuration_range split: option.splits)

lemma trim_left_suffix: "\<exists>p. s = p @ trim_left s"
proof (induction s rule: trim_left.induct)
  case (1 s)
  show ?case
  proof (cases "strip_space s")
    case None then show ?thesis by (simp add: trim_left_id)
  next
    case (Some r)
    then obtain p where "s = p @ r"
      by (auto simp: strip_space_def split: list.splits if_splits)
    with 1 [OF Some] Some show ?thesis by (metis append.assoc option.case(2) trim_left.simps)
  qed
qed

lemma set_TrimSpace: "set (TrimSpace s) \<subseteq> set s"
proof -
  have "set (trim_tfel (rev (trim_left s))) \<subseteq> set (rev (trim_left s))"
    using trim_tfel_suffix by (metis Un_upper2 set_append)
  moreover have "set (trim_left s) \<subseteq> set s"
    using trim_left_suffix by (metis Un_upper2 set_append)
  ultimately show ?thesis by (auto simp: TrimSpace_def)
qed

lemma Split_no_sep: "p \<in> set (Split sep s) \<Longrightarrow> sep \<notin> set p"
  by (induction sep s arbitrary: p rule: Split.induct) (auto split: list.splits if_splits)

text \<open>A broker as the configuration can hold it.\<close>

definition broker_name :: "string \<Rightarrow> bool" where
  "broker_name b \<longleftrightarrow> b \<noteq> [] \<and> TrimSpace b = b \<and> CHR '','' \<notin> set b"

lemma getEnvStringSlice_names:
  assumes "list_all broker_name fb"
  shows "list_all broker_name (getEnvStringSlice env key fb)"
proof -
  have "CHR '','' \<notin> set (TrimSpace p)" if "p \<in> set (Split (CHR '','') v)" for p v
    using Split_no_sep [OF that] set_TrimSpace by blast
  then show ?thesis using assms by (auto simp: getEnv_defs broker_name_def list_all_iff)
qed

definition wf_config :: "app_config \<Rightarrow> bool" where
  "wf_config c \<longleftrightarrow>
     list_all (\<lambda>s. s \<noteq> [])
       [hc_Host (HTTP c), pc_DSN (Postgres c), cc_Addr (ClickHouse c), cc_Database (ClickHouse c),
        cc_Username (ClickHouse c), cc_Password (ClickHouse c), kc_TopicEvents (Kafka c), kc_TopicDLQ (Kafka c),
        kc_ConsumerGroup (Kafka c), lc_Level (Log c), lc_Format (Log c), oc_ServiceName (OTel c),
        oc_ExporterType (OTel c), oc_Endpoint (OTel c)] \<and>
     list_all in_int64
       [hc_Port (HTTP c), hc_ReadTimeout (HTTP c), hc_WriteTimeout (HTTP c), hc_IdleTimeout (HTTP c),
        pc_MaxOpenConns (Postgres c), pc_MaxIdleConns (Postgres c), pc_ConnMaxLifetime (Postgres c),
        kc_MaxRetries (Kafka c), ac_IdempotencyTTL (App c)] \<and>
     list_all broker_name (kc_Brokers (Kafka c))"

lemma in_int64_numeral: "(numeral n :: int) \<le> 9223372036854775807 \<Longrightarrow> in_int64 (numeral n)"
  using zero_le_numeral [of n, where ?'a = int] unfolding int64_defs by linarith

lemma default_broker: "broker_name ''localhost:19092''"
  by code_simp

lemma read_config_wf: "dsn \<noteq> [] \<Longrightarrow> wf_config (read_config frac env dsn)"
  by (simp add: wf_config_def read_config_def getEnv_range getEnvStringSlice_names default_broker
      in_int64_numeral duration_defs)

section \<open>Printing a configuration\<close>

definition duration_text :: "duration \<Rightarrow> string" where
  "duration_text d = Itoa d @ ''ns''"

definition bool_text :: "bool \<Rightarrow> string" where
  "bool_text b = (if b then ''true'' else ''false'')"

definition list_text :: "string list \<Rightarrow> string" where
  "list_text ps = (if ps = [] then '','' else Join ps '','')"

definition config_env :: "app_config \<Rightarrow> env" where
  "config_env c = map_of
     [(''HTTP_HOST'', hc_Host (HTTP c)), (''HTTP_PORT'', Itoa (hc_Port (HTTP c))),
      (''HTTP_READ_TIMEOUT'', duration_text (hc_ReadTimeout (HTTP c))),
      (''HTTP_WRITE_TIMEOUT'', duration_text (hc_WriteTimeout (HTTP c))),
      (''HTTP_IDLE_TIMEOUT'', duration_text (hc_IdleTimeout (HTTP c))),
      (''PPROF_ENABLED'', bool_text (hc_PprofEnabled (HTTP c))),
      (''POSTGRES_DSN'', pc_DSN (Postgres c)),
      (''POSTGRES_MAX_OPEN_CONNS'', Itoa (pc_MaxOpenConns (Postgres c))),
      (''POSTGRES_MAX_IDLE_CONNS'', Itoa (pc_MaxIdleConns (Postgres c))),
      (''POSTGRES_CONN_MAX_LIFETIME'', duration_text (pc_ConnMaxLifetime (Postgres c))),
      (''KAFKA_BROKERS'', list_text (kc_Brokers (Kafka c))), (''KAFKA_TOPIC_EVENTS'', kc_TopicEvents (Kafka c)),
      (''KAFKA_TOPIC_DLQ'', kc_TopicDLQ (Kafka c)), (''KAFKA_CONSUMER_GROUP'', kc_ConsumerGroup (Kafka c)),
      (''KAFKA_MAX_RETRIES'', Itoa (kc_MaxRetries (Kafka c))),
      (''CLICKHOUSE_ADDR'', cc_Addr (ClickHouse c)), (''CLICKHOUSE_DATABASE'', cc_Database (ClickHouse c)),
      (''CLICKHOUSE_USER'', cc_Username (ClickHouse c)), (''CLICKHOUSE_PASSWORD'', cc_Password (ClickHouse c)),
      (''LOG_LEVEL'', lc_Level (Log c)), (''LOG_FORMAT'', lc_Format (Log c)),
      (''OTEL_ENABLED'', bool_text (oc_Enabled (OTel c))), (''OTEL_SERVICE_NAME'', oc_ServiceName (OTel c)),
      (''OTEL_EXPORTER_TYPE'', oc_ExporterType (OTel c)), (''OTEL_EXPORTER_OTLP_ENDPOINT'', oc_Endpoint (OTel c)),
      (''IDEMPOTENCY_TTL'', duration_text (ac_IdempotencyTTL (App c)))]"

lemma split_sign_dec: "split_sign (dec_digits n @ t) = (False, dec_digits n @ t)"
proof -
  obtain c r where d: "dec_digits n = c # r" by (meson dec_digits_nonempty neq_Nil_conv)
  with dec_digits_digs [of n] have "is_dig c" by simp
  then have "c \<noteq> CHR ''-''" "c \<noteq> CHR ''+''" by (auto simp: is_dig_def in_range_def)
  then show ?thesis by (simp add: split_sign_def d)
qed

lemma Atoi_Itoa: "in_int64 i \<Longrightarrow> Atoi (Itoa i) = Some i"
  using split_sign_dec [of "nat i" "[]"]
  by (auto simp: Atoi_def Itoa_def split_sign_def dec_digits_digs parse_dec_digits Let_def)

lemma parse_nat_snoc: "parse_nat (s @ [c]) = 10 * parse_nat s + digit_val c"
  by (simp add: parse_nat_def)

lemma parse_nat_Cons: "parse_nat (c # ds) = digit_val c * 10 ^ length ds + parse_nat ds"
proof (induction ds rule: rev_induct)
  case Nil
  then show ?case by (simp add: parse_nat_def)
next
  case (snoc d ds)
  then show ?case using parse_nat_snoc [of "c # ds" d] by (simp add: parse_nat_snoc)
qed

lemma leadingInt_append:
  assumes "list_all is_dig ds" "x * 10 ^ length ds + parse_nat ds \<le> 9223372036854775808"
    "t = [] \<or> \<not> is_dig (hd t)"
    and "0 \<le> x"
  shows "leadingInt x (ds @ t) = Some (x * 10 ^ length ds + parse_nat ds, t)"
  using assms(1,2,4)
proof (induction ds arbitrary: x)
  case Nil
  then show ?case using assms(3) by (cases t) (auto simp: parse_nat_def)
next
  case (Cons c ds)
  have cons: "parse_nat (c # ds) = digit_val c * 10 ^ length ds + parse_nat ds"
    by (rule parse_nat_Cons)
  let ?y = "x * 10 + digit_val c"
  have d: "0 \<le> digit_val c" using Cons.prems(1) digit_val_range by simp
  then have y: "?y * 10 ^ length ds + parse_nat ds = x * 10 ^ length (c # ds) + parse_nat (c # ds)"
    by (simp add: cons algebra_simps)
  have "?y * 1 \<le> ?y * 10 ^ length ds" using d Cons.prems(3) by (intro mult_left_mono) simp_all
  with y Cons.prems parse_nat_pos [of ds] have le: "?y \<le> 9223372036854775808" by simp
  then have "x \<le> 922337203685477580" "?y \<le> 9223372036854775808" "0 \<le> ?y"
    using d Cons.prems(3) by linarith+
  then show ?case using Cons.IH [of ?y] Cons.prems y by (simp add: Let_def)
qed

lemma duration_sum_ns:
  assumes "int n \<le> 9223372036854775808"
  shows "duration_sum frac 0 (dec_digits n @ ''ns'') = Some (int n)"
proof -
  have l: "leadingInt 0 (dec_digits n @ ''ns'') = Some (int n, ''ns'')"
    using leadingInt_append [of "dec_digits n" 0 "''ns''"] assms
    by (simp add: dec_digits_digs parse_dec_digits is_dig_def in_range_def)
  obtain c r where d: "dec_digits n = c # r" by (meson dec_digits_nonempty neq_Nil_conv)
  with dec_digits_digs [of n] have "\<not> unit_char (hd (dec_digits n @ ''ns''))" by (simp add: unit_char_def)
  then have "duration_part frac (dec_digits n @ ''ns'') = Some (int n, [])"
    using assms by (simp add: duration_part_def l unit_char_def is_dig_def in_range_def unit_nanos_def)
  then show ?thesis using assms
    by (simp add: duration_sum.simps [of frac 0 "dec_digits n @ ''ns''"] duration_sum.simps [of frac "int n" "[]"])
qed

lemma wrap64_neg: "0 < k \<Longrightarrow> k \<le> 9223372036854775808 \<Longrightarrow> wrap64 (- wrap64 k) = - k"
  by (cases "k = 9223372036854775808") (simp_all add: wrap64_def)

lemma ParseDuration_text:
  assumes "in_int64 d" shows "ParseDuration frac (duration_text d) = Some d"
proof (cases "d < 0")
  case True
  then have n: "int (nat (- d)) \<le> 9223372036854775808" "0 < - d" "- d \<le> 9223372036854775808"
    using assms by (simp_all add: int64_defs)
  have "dec_digits (nat (- d)) @ ''ns'' \<noteq> ''0''" by (auto simp: append_eq_Cons_conv)
  with True show ?thesis
    using duration_sum_ns [OF n(1)] wrap64_neg [OF n(2,3)]
    by (simp add: ParseDuration_def duration_text_def Itoa_def split_sign_def)
next
  case False
  then have n: "int (nat d) \<le> 9223372036854775808" using assms by (simp add: int64_defs)
  have "dec_digits (nat d) @ ''ns'' \<noteq> ''0''" by (auto simp: append_eq_Cons_conv)
  with False show ?thesis
    using duration_sum_ns [OF n] split_sign_dec [of "nat d" "''ns''"] assms
    by (simp add: ParseDuration_def duration_text_def Itoa_def int64_defs)
qed

lemma Split_plain: "c \<notin> set p \<Longrightarrow> Split c p = [p]"
  by (induction p) auto

lemma Split_append: "c \<notin> set p \<Longrightarrow> Split c (p @ c # t) = p # Split c t"
  by (induction p) auto

lemma Split_Join: "ps \<noteq> [] \<Longrightarrow> \<forall>p \<in> set ps. c \<notin> set p \<Longrightarrow> Split c (Join ps [c]) = ps"
  by (induction ps "[c]" rule: Join.induct) (auto simp: Split_plain Split_append)

lemma printed_nonempty: "Itoa i \<noteq> []" "duration_text d \<noteq> []" "bool_text b \<noteq> []"
  by (simp_all add: Itoa_def duration_text_def bool_text_def)

lemma ParseBool_text: "ParseBool (bool_text b) = Some b"
  by (simp add: bool_text_def ParseBool_def)

lemma list_text_nonempty: "list_all broker_name ps \<Longrightarrow> list_text ps \<noteq> []"
  by (induction ps "'',''" rule: Join.induct) (auto simp: list_text_def broker_name_def)

lemma list_text_read:
  assumes "list_all broker_name ps"
  shows "filter (\<lambda>s. s \<noteq> []) (map TrimSpace (Split (CHR '','') (list_text ps))) = ps"
proof (cases "ps = []")
  case True
  then show ?thesis by (simp add: list_text_def)
next
  case False
  have "Split (CHR '','') (Join ps '','') = ps"
    using False assms by (intro Split_Join) (auto simp: broker_name_def list_all_iff)
  moreover have "filter (\<lambda>s. s \<noteq> []) (map TrimSpace ps) = ps"
    using assms by (induction ps) (auto simp: broker_name_def)
  ultimately show ?thesis using False by (simp add: list_text_def)
qed

lemmas printed = Atoi_Itoa ParseDuration_text ParseBool_text printed_nonempty list_text_nonempty list_text_read

lemma config_env_at:
  "config_env c ''HTTP_HOST'' = Some (hc_Host (HTTP c))"
  "config_env c ''HTTP_PORT'' = Some (Itoa (hc_Port (HTTP c)))"
  "config_env c ''HTTP_READ_TIMEOUT'' = Some (duration_text (hc_ReadTimeout (HTTP c)))"
  "config_env c ''HTTP_WRITE_TIMEOUT'' = Some (duration_text (hc_WriteTimeout (HTTP c)))"
  "config_env c ''HTTP_IDLE_TIMEOUT'' = Some (duration_text (hc_IdleTimeout (HTTP c)))"
  "config_env c ''PPROF_ENABLED'' = Some (bool_text (hc_PprofEnabled (HTTP c)))"
  "config_env c ''POSTGRES_DSN'' = Some (pc_DSN (Postgres c))"
  "config_env c ''POSTGRES_MAX_OPEN_CONNS'' = Some (Itoa (pc_MaxOpenConns (Postgres c)))"
  "config_env c ''POSTGRES_MAX_IDLE_CONNS'' = Some (Itoa (pc_MaxIdleConns (Postgres c)))"
  "config_env c ''POSTGRES_CONN_MAX_LIFETIME'' = Some (duration_text (pc_ConnMaxLifetime (Postgres c)))"
  "config_env c ''KAFKA_BROKERS'' = Some (list_text (kc_Brokers (Kafka c)))"
  "config_env c ''KAFKA_TOPIC_EVENTS'' = Some (kc_TopicEvents (Kafka c))"
  "config_env c ''KAFKA_TOPIC_DLQ'' = Some (kc_TopicDLQ (Kafka c))"
  "config_env c ''KAFKA_CONSUMER_GROUP'' = Some (kc_ConsumerGroup (Kafka c))"
  "config_env c ''KAFKA_MAX_RETRIES'' = Some (Itoa (kc_MaxRetries (Kafka c)))"
  "config_env c ''CLICKHOUSE_ADDR'' = Some (cc_Addr (ClickHouse c))"
  "config_env c ''CLICKHOUSE_DATABASE'' = Some (cc_Database (ClickHouse c))"
  "config_env c ''CLICKHOUSE_USER'' = Some (cc_Username (ClickHouse c))"
  "config_env c ''CLICKHOUSE_PASSWORD'' = Some (cc_Password (ClickHouse c))"
  "config_env c ''LOG_LEVEL'' = Some (lc_Level (Log c))"
  "config_env c ''LOG_FORMAT'' = Some (lc_Format (Log c))"
  "config_env c ''OTEL_ENABLED'' = Some (bool_text (oc_Enabled (OTel c)))"
  "config_env c ''OTEL_SERVICE_NAME'' = Some (oc_ServiceName (OTel c))"
  "config_env c ''OTEL_EXPORTER_TYPE'' = Some (oc_ExporterType (OTel c))"
  "config_env c ''OTEL_EXPORTER_OTLP_ENDPOINT'' = Some (oc_Endpoint (OTel c))"
  "config_env c ''IDEMPOTENCY_TTL'' = Some (duration_text (ac_IdempotencyTTL (App c)))"
  by (simp_all add: config_env_def)

lemmas config_eqI = app_config.equality HTTPConfig.equality PostgresConfig.equality KafkaConfig.equality
  ClickHouseConfig.equality LogConfig.equality OTelConfig.equality AppConfig.equality

lemma read_printed:
  assumes "wf_config c" shows "read_config frac (config_env c) (pc_DSN (Postgres c)) = c"
  by (intro config_eqI)
    (use assms in \<open>simp_all add: wf_config_def read_config_def getEnv_defs Getenv_def config_env_at printed\<close>)

text \<open>
  C33: what \<open>Load\<close> gives. It fails exactly when \<open>POSTGRES_DSN\<close> is empty or not set, naming the variable;
  otherwise it succeeds whatever the other variables hold, and the configuration is well-formed: every
  string is non-empty, every number and duration is in the range of 64 bits, and every broker is a
  trimmed, non-empty name without a comma.
\<close>

theorem load_result:
  "case Load frac env of
     Inl err \<Rightarrow> Getenv env ''POSTGRES_DSN'' = [] \<and>
       Error err = ''required environment variable \"POSTGRES_DSN\" is not set''
   | Inr c \<Rightarrow> pc_DSN (Postgres c) = Getenv env ''POSTGRES_DSN'' \<and> wf_config c"
proof (cases "Getenv env ''POSTGRES_DSN'' = []")
  case True
  then show ?thesis by (simp add: Load_def requireEnv_def)
next
  case False
  then have "Load frac env = Inr (read_config frac env (Getenv env ''POSTGRES_DSN''))"
    by (simp add: Load_def requireEnv_def)
  then show ?thesis using read_config_wf [OF False] by (simp add: read_config_def)
qed

text \<open>
  C25: every well-formed configuration can be configured. \<open>Load\<close> on the environment that prints it
  field by field gives it back exactly, negative and zero numbers and durations and the empty list of
  brokers included.
\<close>

theorem load_roundtrip:
  assumes "wf_config c" shows "Load frac (config_env c) = Inr c"
  using assms read_printed [OF assms]
  by (simp add: Load_def requireEnv_def Getenv_def config_env_at wf_config_def)

definition demo_config :: app_config where
  "demo_config = read_config (\<lambda>_ _ _. 0)
     [''IDEMPOTENCY_TTL'' \<mapsto> ''-1h30m'', ''KAFKA_MAX_RETRIES'' \<mapsto> ''-5'', ''KAFKA_BROKERS'' \<mapsto> '' a:1, ,b:2'',
      ''HTTP_PORT'' \<mapsto> ''80a''] ''postgres://db''"

lemma demo_config_values:
  "ac_IdempotencyTTL (App demo_config) = - 5400000000000" "kc_MaxRetries (Kafka demo_config) = - 5"
  "kc_Brokers (Kafka demo_config) = [''a:1'', ''b:2'']" "hc_Port (HTTP demo_config) = 8080"
  by code_simp+

theorem load_roundtrip_witness:
  "Load (\<lambda>_ _ _. 0) (config_env demo_config) = Inr demo_config"
  by (rule load_roundtrip) (simp add: demo_config_def read_config_wf)

end
