(* ===== verification/Analytics.thy ===== *)
theory Analytics
  imports Environment Calendar Http
begin

text \<open>
  \<open>internal/app/http/handler/analytics.go\<close>: the endpoint of the daily statistics. The query string is
  parsed as \<open>URL.Query\<close> does, dates as \<open>time.Parse\<close> does (theory \<open>Calendar\<close>); the limit \<open>net/url\<close> puts on
  the number of parameters is left out. The querier is the port; with \<open>ch_DailyEvents\<close> for it the
  handler is the server's.
\<close>

section \<open>The query string\<close>

fun QueryUnescape :: "string \<Rightarrow> string option" where
  "QueryUnescape [] = Some []"
| "QueryUnescape (c # r) =
     (if c = CHR ''%'' then
        (case r of
           a # b # r' \<Rightarrow> if is_hex a \<and> is_hex b
             then map_option (\<lambda>s. char_of (16 * hex_val a + hex_val b) # s) (QueryUnescape r') else None
         | _ \<Rightarrow> None)
      else map_option (\<lambda>s. (if c = CHR ''+'' then CHR '' '' else c) # s) (QueryUnescape r))"

definition Cut :: "char \<Rightarrow> string \<Rightarrow> string \<times> string" where
  "Cut sep s = (takeWhile (\<lambda>c. c \<noteq> sep) s, drop 1 (dropWhile (\<lambda>c. c \<noteq> sep) s))"

fun query_parts :: "string \<Rightarrow> string list" where
  "query_parts [] = [[]]"
| "query_parts (c # r) = (if c = CHR ''&'' then [] # query_parts r
     else case query_parts r of p # ps \<Rightarrow> (c # p) # ps | [] \<Rightarrow> [[c]])"

text \<open>A part with a semicolon, an empty part and one that does not unescape are skipped.\<close>

definition query_pair :: "string \<Rightarrow> (string \<times> string) list" where
  "query_pair p = (if CHR '';'' \<in> set p \<or> p = [] then []
     else case Cut (CHR ''='') p of (k, v) \<Rightarrow> (case (QueryUnescape k, QueryUnescape v) of
       (Some k', Some v') \<Rightarrow> [(k', v')] | _ \<Rightarrow> []))"

definition ParseQuery :: "string \<Rightarrow> (string \<times> string) list" where
  "ParseQuery q = concat (map query_pair (query_parts q))"

definition query_Get :: "string \<Rightarrow> (string \<times> string) list \<Rightarrow> string" where
  "query_Get k q = (case map_of q k of None \<Rightarrow> [] | Some v \<Rightarrow> v)"

section \<open>The handler\<close>

record 's AnalyticsHandler =
  ah_querier :: "'s analytics_querier"
  ah_log :: logger

definition NewAnalyticsHandler :: "'s analytics_querier \<Rightarrow> logger \<Rightarrow> 's AnalyticsHandler" where
  "NewAnalyticsHandler querier log = \<lparr>ah_querier = querier, ah_log = log\<rparr>"

text \<open>
  The statistics as \<open>json.Encode\<close> writes them; \<open>None\<close> when a date is out of the range of \<open>MarshalJSON\<close>: then
  nothing is written.
\<close>

definition stat_json :: "DailyEventStat \<Rightarrow> string option" where
  "stat_json st = map_option (\<lambda>d. ''{\"date\":'' @ d @ '',\"source\":'' @ json_string (st_Source st) @
     '',\"event_type\":'' @ json_string (st_EventType st) @ '',\"event_count\":'' @ Itoa (st_EventCount st) @ ''}'')
     (time_json (st_Date st))"

definition stats_json :: "DailyEventStat list \<Rightarrow> string option" where
  "stats_json sts = (let js = map stat_json sts in
     if None \<in> set js then None else Some (''['' @ Join (map the js) '','' @ '']''))"

definition write_stats :: "DailyEventStat list \<Rightarrow> rw_op list" where
  "write_stats sts = (case stats_json sts of
      Some v \<Rightarrow> writeJSON 200 v
    | None \<Rightarrow> [SetHeader ''Content-Type'' ''application/json'', WriteHeader 200])"

definition quoted :: "string \<Rightarrow> string" where
  "quoted s = [CHR 0x27] @ s @ [CHR 0x27]"

definition max_range :: duration where "max_range = 366 * 24 * hour"

definition analytics_DailyEvents :: "'s AnalyticsHandler \<Rightarrow> 's shared handler" where
  "analytics_DailyEvents h r = (\<lambda>(m, s).
     let log = FromContext (hr_ctx r) (ah_log h);
         q = ParseQuery (hr_query r);
         fromStr = query_Get ''from'' q;
         toStr = query_Get ''to'' q
     in if fromStr = [] \<or> toStr = [] then
          reply_with (respondError 400 ''MISSING_PARAMS''
            (''query parameters '' @ quoted ''from'' @ '' and '' @ quoted ''to'' @ '' are required (format: YYYY-MM-DD)'')) (m, s)
        else case parse_date fromStr of
          None \<Rightarrow> reply_with (respondError 400 ''INVALID_DATE'' (quoted ''from'' @ '' must be in YYYY-MM-DD format'')) (m, s)
        | Some from \<Rightarrow> (case parse_date toStr of
            None \<Rightarrow> reply_with (respondError 400 ''INVALID_DATE'' (quoted ''to'' @ '' must be in YYYY-MM-DD format'')) (m, s)
          | Some until \<Rightarrow>
              if until < from then
                reply_with (respondError 400 ''INVALID_RANGE'' (quoted ''to'' @ '' must be equal to or after '' @ quoted ''from'')) (m, s)
              else if time_sub until from > max_range then
                reply_with (respondError 400 ''RANGE_TOO_LARGE'' ''date range cannot exceed 366 days'') (m, s)
              else case DailyEvents (ah_querier h) from until s of
                (Inl err, s') \<Rightarrow>
                  (reply_with (respondError 500 ''QUERY_ERROR'' ''failed to query analytics'') (m, s'))
                    \<lparr>h_logs := log_at log LevelError ''analytics query failed'' [(''error'', Error err)]\<rparr>
              | (Inr None, s') \<Rightarrow> reply_with (write_stats []) (m, s')
              | (Inr (Some stats), s') \<Rightarrow> reply_with (write_stats stats) (m, s')))"

text \<open>
  C26: the answer to every request. A request is answered with 400 and changes nothing unless both dates
  parse, the first is not after the second and they are at most 366 days apart; then the querier is
  asked once, with the two midnights, and the answer is 500 if it fails and 200 with the array of its
  rows otherwise, an empty array where it has none. The metrics are untouched and nothing panics.
\<close>

theorem daily_events_answer:
  "let res = analytics_DailyEvents h r (m, s); ans = answer (h_ops res); q = ParseQuery (hr_query r);
      range = (case (parse_date (query_Get ''from'' q), parse_date (query_Get ''to'' q)) of
        (Some a, Some b) \<Rightarrow> if a \<le> b \<and> b \<le> a + 366 * day_nanos then Some (a, b) else None | _ \<Rightarrow> None)
    in h_panic res = None \<and>
      (case range of
         None \<Rightarrow> rs_status ans = 400 \<and> h_state res = (m, s)
       | Some (a, b) \<Rightarrow> (case DailyEvents (ah_querier h) a b s of
           (Inl err, s') \<Rightarrow> rs_status ans = 500 \<and> h_state res = (m, s')
         | (Inr stats, s') \<Rightarrow> rs_status ans = 200 \<and> h_state res = (m, s') \<and>
             rs_body ans = (case stats_json (case stats of None \<Rightarrow> [] | Some xs \<Rightarrow> xs) of
               Some v \<Rightarrow> v @ newline | None \<Rightarrow> [])))"
proof -
  have empty: "parse_date [] = None" by (simp add: parse_date_def)
  have sub: "max_range < time_sub b a \<longleftrightarrow> \<not> b \<le> a + 366 * day_nanos" for a b
    unfolding time_sub_def by (subst sat64_gt_iff) (auto simp: max_range_def day_nanos_def duration_defs int64_defs)
  have no_body: "rs_status (answer [SetHeader k v, WriteHeader c]) = c" "rs_body (answer [SetHeader k v, WriteHeader c]) = []" for k v c
    by (simp_all add: answer_def rs_status_def apply_header_def)
  have w: "rs_status (answer (write_stats sts)) = 200"
    "rs_body (answer (write_stats sts)) = (case stats_json sts of Some v \<Rightarrow> v @ newline | None \<Rightarrow> [])" for sts
    by (cases "stats_json sts"; simp add: write_stats_def no_body)+
  show ?thesis
    by (auto simp: analytics_DailyEvents_def Let_def empty sub w reply_with_def
        split: option.splits prod.splits sum.splits)
qed

text \<open>
  C35: dates round-trip. A row whose date is the midnight a parameter was parsed to is printed with the
  very text of the parameter, at midnight UTC, and no other text parses to that date.
\<close>

theorem date_roundtrip:
  assumes "parse_date s = Some t"
  shows "stat_json (st\<lparr>st_Date := t\<rparr>) = Some (''{\"date\":\"'' @ s @ ''T00:00:00Z\",\"source\":'' @
      json_string (st_Source st) @ '',\"event_type\":'' @ json_string (st_EventType st) @
      '',\"event_count\":'' @ Itoa (st_EventCount st) @ ''}'') \<and>
    (\<forall>s'. parse_date s' = Some t \<longrightarrow> s' = s)"
proof -
  have "parse_date s' = Some t \<Longrightarrow> s' = date_text (time_date t)" for s'
    unfolding parse_date_iff using time_date_instant by metis
  then show ?thesis using assms by (simp add: stat_json_def parse_date_json) metis
qed

lemma demo_leap_day: "parse_date ''2024-02-29'' = Some 1709164800000000000" "parse_date ''2023-02-29'' = None"
  by code_simp+

theorem date_roundtrip_witness:
  "stat_json \<lparr>st_Date = 1709164800000000000, st_Source = ''a'', st_EventType = ''b'', st_EventCount = 3\<rparr> =
     Some ''{\"date\":\"2024-02-29T00:00:00Z\",\"source\":\"a\",\"event_type\":\"b\",\"event_count\":3}''"
proof -
  have j: "json_string ''a'' = ''\"a\"''" "json_string ''b'' = ''\"b\"''" "Itoa 3 = ''3''" by code_simp+
  show ?thesis
    using date_roundtrip [OF demo_leap_day(1),
      of "\<lparr>st_Date = 0, st_Source = ''a'', st_EventType = ''b'', st_EventCount = 3\<rparr>"]
    by (simp add: j)
qed

text \<open>
  C39: rows and ranges agree on what a day is. The row the writer logs for an event carries the midnight
  (UTC) of the calendar date of its processing time, and it falls between the two dates of a request
  exactly when it was processed at or after the start of the first day and before the end of the last.
\<close>

theorem row_in_range:
  assumes "parse_date f = Some a" and "parse_date t = Some b"
  shows "let row = the_row now e; p = lr_processed_at row in
    (case time_date p of (y, m, d) \<Rightarrow> valid_date y m d \<and> lr_date row = instant y m d) \<and>
    (a \<le> lr_date row \<and> lr_date row \<le> b \<longleftrightarrow> a \<le> p \<and> p < b + day_nanos)"
proof -
  obtain i where a: "a = zero_time + day_nanos * i" using assms(1) unfolding parse_date_iff instant_def by blast
  obtain j where b: "b = zero_time + day_nanos * j" using assms(2) unfolding parse_date_iff instant_def by blast
  let ?p = "lr_processed_at (the_row now e)"
  have d: "lr_date (the_row now e) = ?p - (?p - zero_time) mod day_nanos"
    by (simp add: the_row_def Clickhouse.truncate_def day_nanos_def Let_def)
  obtain y m n where "time_date ?p = (y, m, n)" by (metis prod.collapse)
  with time_date_ok [OF this] show ?thesis
    unfolding Let_def d a b midnight_le by simp
qed

theorem row_in_range_witness:
  "lr_date (the_row 1709251199999999999 (demo_event ''processing'')) = 1709164800000000000 \<and>
   1709251199999999999 < 1709164800000000000 + day_nanos"
proof -
  have p: "lr_processed_at (the_row 1709251199999999999 (demo_event ''processing'')) = 1709251199999999999"
    "time_date 1709251199999999999 = (2024, 2, 29)" "instant 2024 2 29 = 1709164800000000000"
    by code_simp+
  from row_in_range [OF demo_leap_day(1) demo_leap_day(1), of 1709251199999999999 "demo_event ''processing''"]
  show ?thesis unfolding p Let_def prod.case by (simp add: day_nanos_def hour_def)
qed

end
