(* ===== verification/Server.thy ===== *)
theory Server
  imports Webhook Analytics
begin

text \<open>
  \<open>internal/app/http/http.go\<close>: the routes and the chain of middleware. \<open>http.ServeMux\<close> is modelled as far
  as the routes need it: methods, exact paths and subtrees, the redirects to the clean path and to the
  path with a slash, 405 and 404. The mux is given the decoded path: it routes on the escaped one, which
  finds the same route unless an escape stands for a slash or a dot, and the target of a redirect is
  given for paths that need no escape. The method \<open>CONNECT\<close> is left out. The handlers of other packages (metrics exposition, API documentation, profiles) are a
  parameter, by name.
\<close>

section \<open>http.ServeMux\<close>

text \<open>A pattern: a method, or none, and a path; a path that ends with a slash stands for its subtree.\<close>

record 'z route =
  rt_method :: "string option"
  rt_path :: string
  rt_handler :: "'z handler"

definition ends_slash :: "string \<Rightarrow> bool" where
  "ends_slash p \<longleftrightarrow> p \<noteq> [] \<and> last p = CHR ''/''"

definition path_matches :: "string \<Rightarrow> string \<Rightarrow> bool" where
  "path_matches pat path \<longleftrightarrow> (if ends_slash pat then HasPrefix path pat else path = pat)"

text \<open>The most specific of the matching patterns of one method is the longest.\<close>

fun match_path :: "string \<Rightarrow> 'z route list \<Rightarrow> 'z route option" where
  "match_path path [] = None"
| "match_path path (rt # rts) = (case match_path path rts of
      None \<Rightarrow> if path_matches (rt_path rt) path then Some rt else None
    | Some rt' \<Rightarrow> if path_matches (rt_path rt) path \<and> length (rt_path rt') < length (rt_path rt)
        then Some rt else Some rt')"

definition of_method :: "string option \<Rightarrow> 'z route list \<Rightarrow> 'z route list" where
  "of_method m rts = filter (\<lambda>rt. rt_method rt = m) rts"

definition mux_match :: "'z route list \<Rightarrow> string \<Rightarrow> string \<Rightarrow> 'z route option" where
  "mux_match rts meth path = (case match_path path (of_method (Some meth) rts) of
      Some rt \<Rightarrow> Some rt
    | None \<Rightarrow> (case (if meth = ''HEAD'' then match_path path (of_method (Some ''GET'') rts) else None) of
        Some rt \<Rightarrow> Some rt
      | None \<Rightarrow> match_path path (of_method None rts)))"

text \<open>\<open>cleanPath\<close>: no empty, \<open>.\<close> and \<open>..\<close> segments; a slash at the end stays.\<close>

fun segments :: "string \<Rightarrow> string list" where
  "segments [] = [[]]"
| "segments (c # r) = (if c = CHR ''/'' then [] # segments r
     else case segments r of p # ps \<Rightarrow> (c # p) # ps | [] \<Rightarrow> [[c]])"

definition clean_segments :: "string list \<Rightarrow> string list" where
  "clean_segments = foldl (\<lambda>out s. if s = [] \<or> s = ''.'' then out
     else if s = ''..'' then butlast out else out @ [s]) []"

definition cleanPath :: "string \<Rightarrow> string" where
  "cleanPath p =
     (let np = CHR ''/'' # Join (clean_segments (segments p)) ''/''
      in if ends_slash p \<and> np \<noteq> ''/'' then np @ ''/'' else np)"

definition exact_match :: "'z route option \<Rightarrow> string \<Rightarrow> bool" where
  "exact_match m path \<longleftrightarrow> (case m of None \<Rightarrow> False
     | Some rt \<Rightarrow> \<not> ends_slash (rt_path rt) \<or>
         ends_slash path \<and> length (segments (rt_path rt)) = length (segments path))"

definition html_escape :: "string \<Rightarrow> string" where
  "html_escape s = concat (map (\<lambda>c. if c = CHR ''&'' then ''&amp;'' else if c = CHR ''<'' then ''&lt;''
     else if c = CHR ''>'' then ''&gt;'' else if c = CHR 0x22 then ''&#34;'' else if c = CHR 0x27 then ''&#39;''
     else [c]) s)"

definition moved :: "string \<Rightarrow> 'z handler" where
  "moved path r z =
     (let url = path @ (if hr_query r = [] then [] else CHR ''?'' # hr_query r)
      in reply_with ([SetHeader ''Location'' url] @
           (if hr_method r \<in> {''GET'', ''HEAD''} then [SetHeader ''Content-Type'' ''text/html; charset=utf-8''] else []) @
           [WriteHeader 301] @
           (if hr_method r = ''GET''
            then [Write (''<a href=\"'' @ html_escape url @ ''\">Moved Permanently</a>.'' @ newline @ newline)] else [])) z)"

definition allowed_methods :: "'z route list \<Rightarrow> string \<Rightarrow> string list" where
  "allowed_methods rts path = filter (\<lambda>m.
      let ms = (if m = ''HEAD'' then {''HEAD'', ''GET''} else {m});
          paths = (if ends_slash path then [path] else [path, path @ ''/''])
      in list_ex (\<lambda>rt. (\<exists>m' \<in> ms. rt_method rt = Some m') \<and> list_ex (path_matches (rt_path rt)) paths) rts)
    [''GET'', ''HEAD'', ''POST'']"

definition ServeMux :: "'z route list \<Rightarrow> 'z handler" where
  "ServeMux rts r z =
     (let path = cleanPath (hr_path r);
          n = mux_match rts (hr_method r) path
      in if \<not> exact_match n path \<and> \<not> ends_slash path \<and>
            exact_match (mux_match rts (hr_method r) (path @ ''/'')) (path @ ''/'')
         then moved (path @ ''/'') r z
         else if path \<noteq> hr_path r then moved path r z
         else case n of
           Some rt \<Rightarrow> rt_handler rt r z
         | None \<Rightarrow> (let allow = allowed_methods rts path in
             if allow \<noteq> [] then reply_with (SetHeader ''Allow'' (Join allow '', '') # http_Error ''Method Not Allowed'' 405) z
             else reply_with (http_Error ''404 page not found'' 404) z))"

section \<open>NewServer\<close>

definition maxBodyBytes :: int where "maxBodyBytes = 1048576"

record server_config =
  sc_Host :: string
  sc_Port :: int
  sc_ReadTimeout :: duration
  sc_WriteTimeout :: duration
  sc_IdleTimeout :: duration
  sc_PprofEnabled :: bool

record 's Deps =
  dp_Ping :: "duration \<Rightarrow> 's shared \<Rightarrow> go_error option \<times> 's shared"
  dp_IngestEvent :: "'s IngestEvent"
  dp_IdemStore :: "'s idempotency_store"
  dp_EventQuerier :: "'s analytics_querier"
  dp_Log :: logger
  dp_IdempotencyTTL :: duration

text \<open>
  What one request reads from outside: a fresh request id, the trace id when tracing is on, the text of
  the latency, the stack trace of a panic, the text of the metrics client's error for labels it refuses,
  and what the webhook handler reads.
\<close>

record ambient =
  am_newid :: string
  am_trace :: "string option"
  am_latency :: string
  am_stack :: string
  am_label_error :: "string list \<Rightarrow> string"
  am_event :: request_env

definition routes ::
  "server_config \<Rightarrow> 's Deps \<Rightarrow> (string \<Rightarrow> 's shared handler) \<Rightarrow> ambient \<Rightarrow> 's shared route list" where
  "routes cfg deps ext am =
     [\<lparr>rt_method = Some ''GET'', rt_path = ''/health'', rt_handler = Health\<rparr>,
      \<lparr>rt_method = Some ''GET'', rt_path = ''/ready'', rt_handler = Ready (dp_Ping deps)\<rparr>,
      \<lparr>rt_method = Some ''POST'', rt_path = ''/webhooks/events'', rt_handler =
        HandleEvent (NewWebhookHandler (dp_IngestEvent deps) (dp_IdemStore deps) (dp_IdempotencyTTL deps)) (am_event am)\<rparr>,
      \<lparr>rt_method = Some ''GET'', rt_path = ''/analytics/daily-events'', rt_handler =
        analytics_DailyEvents (NewAnalyticsHandler (dp_EventQuerier deps) (dp_Log deps))\<rparr>,
      \<lparr>rt_method = Some ''GET'', rt_path = ''/metrics'', rt_handler = ext ''promhttp''\<rparr>,
      \<lparr>rt_method = None, rt_path = ''/swagger/'', rt_handler = ext ''httpSwagger''\<rparr>] @
     (if sc_PprofEnabled cfg then
       [\<lparr>rt_method = Some ''GET'', rt_path = ''/debug/pprof/'', rt_handler = ext ''pprof.Index''\<rparr>,
        \<lparr>rt_method = Some ''GET'', rt_path = ''/debug/pprof/cmdline'', rt_handler = ext ''pprof.Cmdline''\<rparr>,
        \<lparr>rt_method = Some ''GET'', rt_path = ''/debug/pprof/profile'', rt_handler = ext ''pprof.Profile''\<rparr>,
        \<lparr>rt_method = Some ''GET'', rt_path = ''/debug/pprof/symbol'', rt_handler = ext ''pprof.Symbol''\<rparr>,
        \<lparr>rt_method = Some ''GET'', rt_path = ''/debug/pprof/trace'', rt_handler = ext ''pprof.Trace''\<rparr>]
      else [])"

text \<open>
  \<open>otelhttp\<close> puts a span in the context of every request that passes its filter; nothing else of it
  reaches the handlers.
\<close>

definition otel_filter :: "http_req \<Rightarrow> bool" where
  "otel_filter r \<longleftrightarrow> hr_path r \<noteq> ''/metrics'' \<and> hr_path r \<noteq> ''/health''"

definition server_chain :: "logger \<Rightarrow> ambient \<Rightarrow> 's shared handler \<Rightarrow> 's shared handler" where
  "server_chain log am mux r = Chain mux
     [Recover log (am_stack am), Logger log True (am_label_error am) (if otel_filter r then am_trace am else None) (am_latency am),
      RequestID (am_newid am), MaxBodySize maxBodyBytes] r"

record 's http_server =
  hs_Addr :: string
  hs_Handler :: "ambient \<Rightarrow> 's shared handler"
  hs_ReadTimeout :: duration
  hs_WriteTimeout :: duration
  hs_IdleTimeout :: duration

definition NewServer ::
  "server_config \<Rightarrow> 's Deps \<Rightarrow> (string \<Rightarrow> 's shared handler) \<Rightarrow> 's http_server" where
  "NewServer cfg deps ext = \<lparr>hs_Addr = sc_Host cfg @ '':'' @ Itoa (sc_Port cfg),
     hs_Handler = (\<lambda>am. server_chain (dp_Log deps) am (ServeMux (routes cfg deps ext am))),
     hs_ReadTimeout = sc_ReadTimeout cfg, hs_WriteTimeout = sc_WriteTimeout cfg,
     hs_IdleTimeout = sc_IdleTimeout cfg\<rparr>"

section \<open>What the chain does to a request\<close>

definition request_id :: "ambient \<Rightarrow> http_req \<Rightarrow> string" where
  "request_id am r = (if Header_Get ''X-Request-ID'' (hr_headers r) = [] then am_newid am
     else Header_Get ''X-Request-ID'' (hr_headers r))"

definition logger_ctx :: "ambient \<Rightarrow> http_req \<Rightarrow> req_context" where
  "logger_ctx am r = (case (if otel_filter r then am_trace am else None) of
      None \<Rightarrow> hr_ctx r | Some t \<Rightarrow> WithTraceID (hr_ctx r) t)"

definition inner_request :: "ambient \<Rightarrow> http_req \<Rightarrow> http_req" where
  "inner_request am r = r\<lparr>hr_ctx := WithRequestID (logger_ctx am r) (request_id am r),
     hr_body := limit_bytes maxBodyBytes (hr_body r),
     hr_body_err := (if maxBodyBytes < int (length (hr_body r))
       then Some (ErrText ''http: request body too large'') else hr_body_err r)\<rparr>"

definition access_line :: "logger \<Rightarrow> ambient \<Rightarrow> http_req \<Rightarrow> rw_op list \<Rightarrow> log_line list" where
  "access_line log am r ops = log_at (FromContext (logger_ctx am r) log) LevelInfo ''request''
     [(''method'', hr_method r), (''path'', hr_path r), (''status'', Itoa (logged_status ops)),
      (''latency'', am_latency am), (''remote_addr'', hr_remote r)]"

definition counted :: "http_req \<Rightarrow> rw_op list \<Rightarrow> metrics \<Rightarrow> metrics" where
  "counted r ops m = m\<lparr>
     HTTPRequestsTotal := Inc [hr_method r, hr_path r, Itoa (logged_status ops)] (HTTPRequestsTotal m),
     HTTPRequestDuration := Inc [hr_method r, hr_path r] (HTTPRequestDuration m)\<rparr>"

definition countable :: "http_req \<Rightarrow> bool" where
  "countable r \<longleftrightarrow> valid_utf8 (hr_method r) \<and> valid_utf8 (hr_path r)"

definition refusal :: "ambient \<Rightarrow> http_req \<Rightarrow> rw_op list \<Rightarrow> string" where
  "refusal am r ops = am_label_error am [hr_method r, hr_path r, Itoa (logged_status ops)]"

definition panic_line :: "logger \<Rightarrow> ambient \<Rightarrow> http_req \<Rightarrow> string \<Rightarrow> log_line list" where
  "panic_line log am r p = log_at (FromContext (hr_ctx r) log) LevelError ''panic recovered''
     [(''panic'', p), (''path'', hr_path r), (''stack'', am_stack am)]"

definition panic_ops :: "rw_op list" where
  "panic_ops = SetHeader ''Content-Type'' ''application/json'' #
     http_Error ''{\"error\":\"internal http error\"}'' 500"

lemma server_chain_eq:
  assumes "mux (inner_request am r) (m, s) = res" "h_state res = (m', s')"
  shows "server_chain log am mux r (m, s) =
    (let ops = SetHeader ''X-Request-ID'' (request_id am r) # h_ops res in
     case h_panic res of
       None \<Rightarrow> (if countable r
         then res\<lparr>h_ops := ops, h_logs := h_logs res @ access_line log am r ops,
           h_state := (counted r ops m', s')\<rparr>
         else res\<lparr>h_ops := ops @ panic_ops,
           h_logs := h_logs res @ access_line log am r ops @ panic_line log am r (refusal am r ops)\<rparr>)
     | Some p \<Rightarrow> res\<lparr>h_panic := None, h_logs := h_logs res @ panic_line log am r p, h_ops := ops @ panic_ops\<rparr>)"
proof -
  have "MaxBodySize maxBodyBytes mux (r\<lparr>hr_ctx := WithRequestID (logger_ctx am r) (request_id am r)\<rparr>) (m, s) = res"
    by (subst assms(1) [symmetric]) (auto simp: MaxBodySize_def inner_request_def)
  moreover have "(if Header_Get ''X-Request-ID'' (hr_headers (r\<lparr>hr_ctx := c\<rparr>)) = [] then am_newid am
      else Header_Get ''X-Request-ID'' (hr_headers (r\<lparr>hr_ctx := c\<rparr>))) = request_id am r" for c
    by (simp add: request_id_def)
  ultimately have r: "RequestID (am_newid am) (MaxBodySize maxBodyBytes mux) (r\<lparr>hr_ctx := logger_ctx am r\<rparr>) (m, s) =
      res\<lparr>h_ops := SetHeader ''X-Request-ID'' (request_id am r) # h_ops res\<rparr>"
    unfolding RequestID_def Let_def by simp
  have "Logger log True (am_label_error am) (if otel_filter r then am_trace am else None) (am_latency am)
      (RequestID (am_newid am) (MaxBodySize maxBodyBytes mux)) r (m, s) =
    (let ops = SetHeader ''X-Request-ID'' (request_id am r) # h_ops res in
     if h_panic res \<noteq> None then res\<lparr>h_ops := ops\<rparr>
     else if countable r
       then res\<lparr>h_ops := ops, h_logs := h_logs res @ access_line log am r ops, h_state := (counted r ops m', s')\<rparr>
       else res\<lparr>h_ops := ops, h_logs := h_logs res @ access_line log am r ops, h_panic := Some (refusal am r ops)\<rparr>)"
    unfolding Logger_def Let_def logger_ctx_def [symmetric] r
    using assms(2) by (simp add: access_line_def counted_def logger_ctx_def countable_def refusal_def)
  then show ?thesis
    by (auto simp: server_chain_def Chain_def Recover_def Let_def panic_line_def panic_ops_def split: option.splits)
qed

text \<open>
  C21: what the server does around every handler. It never panics. The handler the mux chooses sees the
  request with the first 1 MiB of its body, which ends in an error exactly when there was more. If the
  handler returns and the method and the path are valid UTF-8, the response is its response with the
  request id in front, the request is counted once under its method, path and status, and one access
  line is written. If the path is not valid UTF-8 the metrics client refuses the labels: the access line
  is written, the request is not counted, a panic is logged, and the error answer of the recovery is
  added to the response of the handler. If the handler panics, what it did to the stores stays, one error
  line is written, and the request is neither counted nor in the access log.
\<close>

theorem server_request:
  "let srv = NewServer cfg deps ext; log = dp_Log deps;
      res = hs_Handler srv am r (m, s);
      r' = inner_request am r;
      inner = ServeMux (routes cfg deps ext am) r' (m, s);
      ops = SetHeader ''X-Request-ID'' (request_id am r) # h_ops inner in
    h_panic res = None \<and> hr_body r' = take 1048576 (hr_body r) \<and>
    hr_body_err r' = (if 1048576 < length (hr_body r) then Some (ErrText ''http: request body too large'')
                      else hr_body_err r) \<and>
    (case h_panic inner of
       None \<Rightarrow>
         if valid_utf8 (hr_method r) \<and> valid_utf8 (hr_path r)
         then h_ops res = ops \<and> h_logs res = h_logs inner @ access_line log am r ops \<and>
           h_state res = (counted r ops (fst (h_state inner)), snd (h_state inner))
         else h_ops res = ops @ panic_ops \<and> h_state res = h_state inner \<and>
           h_logs res = h_logs inner @ access_line log am r ops @
             panic_line log am r (am_label_error am [hr_method r, hr_path r, Itoa (logged_status ops)])
     | Some p \<Rightarrow> h_ops res = ops @ panic_ops \<and> h_state res = h_state inner \<and>
         h_logs res = h_logs inner @ panic_line log am r p)"
proof -
  obtain m' s' where st: "h_state (ServeMux (routes cfg deps ext am) (inner_request am r) (m, s)) = (m', s')"
    by (metis prod.collapse)
  note eq = server_chain_eq [where mux = "ServeMux (routes cfg deps ext am)", OF refl st, of "dp_Log deps"]
  have "hr_body (inner_request am r) = take 1048576 (hr_body r)"
    "hr_body_err (inner_request am r) = (if 1048576 < length (hr_body r)
      then Some (ErrText ''http: request body too large'') else hr_body_err r)"
    by (simp_all add: inner_request_def maxBodyBytes_def limit_bytes_take)
  then show ?thesis
    by (simp add: NewServer_def Let_def eq countable_def refusal_def st split: option.splits)
qed

lemma log_at_attrs: "l \<in> set (log_at lg lvl msg attrs) \<Longrightarrow> ll_attrs l = lg_attrs lg @ attrs"
  by (simp add: log_at_def split: if_splits)

lemma FromContext_attrs:
  "cx_request_id ctx = None \<Longrightarrow> ''request_id'' \<notin> fst ` set (lg_attrs base) \<Longrightarrow>
   ''request_id'' \<notin> fst ` set (lg_attrs (FromContext ctx base))"
  by (auto simp: FromContext_def Fields_def RequestIDFromContext_def)

text \<open>
  The request id never reaches the server's own log lines. \<open>Logger\<close> and \<open>Recover\<close> stand outside
  \<open>RequestID\<close>, so the lines they write for a request carry no request id, although the response does and
  the handler's own lines can.
\<close>

theorem access_log_lacks_request_id:
  assumes "cx_request_id (hr_ctx r) = None" and "''request_id'' \<notin> fst ` set (lg_attrs (dp_Log deps))"
  shows "let res = hs_Handler (NewServer cfg deps ext) am r (m, s);
      inner = ServeMux (routes cfg deps ext am) (inner_request am r) (m, s)
    in hd (h_ops res) = SetHeader ''X-Request-ID'' (request_id am r) \<and>
      (\<exists>ls. h_logs res = h_logs inner @ ls \<and> (\<forall>l \<in> set ls. ''request_id'' \<notin> fst ` set (ll_attrs l)))"
proof -
  let ?inner = "ServeMux (routes cfg deps ext am) (inner_request am r) (m, s)"
  obtain m' s' where st: "h_state ?inner = (m', s')" by (metis prod.collapse)
  have c: "cx_request_id (logger_ctx am r) = None"
    using assms(1) by (simp add: logger_ctx_def WithTraceID_def split: option.splits)
  have "(''request_id'', v) \<notin> set (ll_attrs l)" if "l \<in> set (access_line (dp_Log deps) am r ops)" for l ops v
    using log_at_attrs [OF that [unfolded access_line_def]] FromContext_attrs [OF c assms(2)] by (auto simp: image_iff)
  moreover have "(''request_id'', v) \<notin> set (ll_attrs l)" if "l \<in> set (panic_line (dp_Log deps) am r p)" for l p v
    using log_at_attrs [OF that [unfolded panic_line_def]] FromContext_attrs [OF assms] by (auto simp: image_iff)
  ultimately show ?thesis
    using server_chain_eq [where mux = "ServeMux (routes cfg deps ext am)", OF refl st, of "dp_Log deps"]
    by (auto simp: NewServer_def Let_def split: option.splits)
qed

definition header_op :: "rw_op \<Rightarrow> bool" where
  "header_op op \<longleftrightarrow> (case op of WriteHeader c \<Rightarrow> False | Write b \<Rightarrow> False | SetHeader k v \<Rightarrow> True | DelHeader k \<Rightarrow> True)"

lemma foldl_header_ops:
  assumes "list_all header_op ops"
  shows "\<exists>h. foldl apply_op \<lparr>rs_header = h0, rs_wrote = None, rs_body = []\<rparr> ops = \<lparr>rs_header = h, rs_wrote = None, rs_body = []\<rparr>"
  using assms by (induction ops arbitrary: h0) (auto simp: header_op_def split: rw_op.splits)

lemma canonical_error_headers:
  "CanonicalHeaderKey ''Content-Length'' = ''Content-Length''"
  "CanonicalHeaderKey ''X-Content-Type-Options'' = ''X-Content-Type-Options''"
  by code_simp+

lemma answer_http_Error:
  assumes "list_all header_op ops"
  shows "rs_status (answer (ops @ http_Error msg c)) = c" "rs_body (answer (ops @ http_Error msg c)) = msg @ newline"
    "rs_sent_header (answer (ops @ http_Error msg c)) ''Content-Type'' = ''text/plain; charset=utf-8''"
proof -
  obtain h where h: "foldl apply_op \<lparr>rs_header = Map.empty, rs_wrote = None, rs_body = []\<rparr> ops =
      \<lparr>rs_header = h, rs_wrote = None, rs_body = []\<rparr>"
    using foldl_header_ops [OF assms] by blast
  show "rs_status (answer (ops @ http_Error msg c)) = c" "rs_body (answer (ops @ http_Error msg c)) = msg @ newline"
    "rs_sent_header (answer (ops @ http_Error msg c)) ''Content-Type'' = ''text/plain; charset=utf-8''"
    by (simp_all add: answer_def h http_Error_def rs_status_def rs_sent_header_def apply_header_def Let_def
        Header_Set_def Header_Get_def canonical_content_type canonical_error_headers)
qed

text \<open>
  A panic before the response has begun. The answer is 500 with the request id; the JSON content type
  that \<open>Recover\<close> sets is overridden by \<open>http.Error\<close>, so the JSON text goes out as plain text.
\<close>

theorem panic_answer:
  assumes "h_panic (ServeMux (routes cfg deps ext am) (inner_request am r) (m, s)) = Some p"
    and "list_all header_op (h_ops (ServeMux (routes cfg deps ext am) (inner_request am r) (m, s)))"
  shows "let ans = answer (h_ops (hs_Handler (NewServer cfg deps ext) am r (m, s))) in
    rs_status ans = 500 \<and> rs_body ans = ''{\"error\":\"internal http error\"}'' @ newline \<and>
    rs_sent_header ans ''Content-Type'' = ''text/plain; charset=utf-8''"
proof -
  let ?inner = "ServeMux (routes cfg deps ext am) (inner_request am r) (m, s)"
  obtain m' s' where st: "h_state ?inner = (m', s')" by (metis prod.collapse)
  let ?ops = "SetHeader ''X-Request-ID'' (request_id am r) # h_ops ?inner @ [SetHeader ''Content-Type'' ''application/json'']"
  have ops: "h_ops (hs_Handler (NewServer cfg deps ext) am r (m, s)) =
      ?ops @ http_Error ''{\"error\":\"internal http error\"}'' 500"
    using server_chain_eq [where mux = "ServeMux (routes cfg deps ext am)", OF refl st, of "dp_Log deps"] assms(1)
    by (simp add: NewServer_def Let_def panic_ops_def)
  have "list_all header_op ?ops" using assms(2) by (simp add: header_op_def)
  then show ?thesis unfolding ops Let_def using answer_http_Error by blast
qed

lemma match_path_in: "match_path path rts = Some rt \<Longrightarrow> rt \<in> set rts \<and> path_matches (rt_path rt) path"
  by (induction rts) (auto split: option.splits if_splits)

lemma mux_match_in:
  "mux_match rts meth path = Some rt \<Longrightarrow> rt \<in> set rts \<and> path_matches (rt_path rt) path \<and>
   (rt_method rt = None \<or> rt_method rt = Some meth \<or> meth = ''HEAD'' \<and> rt_method rt = Some ''GET'')"
  by (auto simp: mux_match_def of_method_def split: option.splits if_splits dest!: match_path_in)

text \<open>Every request is answered by the mux itself or by the handler of a route that matches it.\<close>

lemma ServeMux_cases:
  obtains ops where "ServeMux rts r z = reply_with ops z"
  | rt where "rt \<in> set rts" "path_matches (rt_path rt) (hr_path r)" "ServeMux rts r z = rt_handler rt r z"
      "rt_method rt = None \<or> rt_method rt = Some (hr_method r) \<or> hr_method r = ''HEAD'' \<and> rt_method rt = Some ''GET''"
proof (cases "\<exists>ops. ServeMux rts r z = reply_with ops z")
  case False
  then have c: "cleanPath (hr_path r) = hr_path r" "mux_match rts (hr_method r) (hr_path r) \<noteq> None"
    by (auto simp: ServeMux_def moved_def Let_def split: if_splits option.splits)
  then obtain rt where rt: "mux_match rts (hr_method r) (hr_path r) = Some rt" by blast
  then have "ServeMux rts r z = rt_handler rt r z"
    using c False by (auto simp: ServeMux_def moved_def Let_def split: if_splits)
  then show thesis using mux_match_in [OF rt] that(2) by blast
qed (use that in blast)

lemma moved_answer: "h_state (moved p r z) = z" "h_panic (moved p r z) = None"
    "rs_status (answer (h_ops (moved p r z))) = 301"
  by (simp_all add: moved_def reply_with_def answer_def rs_status_def apply_header_def Let_def)

lemma no_pprof_route:
  assumes "\<not> sc_PprofEnabled cfg" "HasPrefix path ''/debug/pprof''"
  shows "mux_match (routes cfg deps ext am) meth path = None"
proof (rule ccontr)
  assume "\<not> ?thesis"
  then obtain rt where "rt \<in> set (routes cfg deps ext am)" "path_matches (rt_path rt) path"
    using mux_match_in by blast
  then show False using assms by (auto simp: routes_def path_matches_def ends_slash_def HasPrefix_iff)
qed

text \<open>
  The profiling endpoints exist only when they are enabled. With \<open>PprofEnabled\<close> false no request below
  \<open>/debug/pprof\<close>, under any method and however the path is written, reaches a handler: the answer is a
  redirect to the clean path or 404, and the stores and the metrics are untouched.
\<close>

theorem pprof_disabled:
  assumes "\<not> sc_PprofEnabled cfg" and "HasPrefix (cleanPath (hr_path r)) ''/debug/pprof''"
  shows "let res = ServeMux (routes cfg deps ext am) r z in
    h_state res = z \<and> h_panic res = None \<and> rs_status (answer (h_ops res)) \<in> {301, 404}"
proof -
  let ?rts = "routes cfg deps ext am" and ?p = "cleanPath (hr_path r)"
  have "HasPrefix (?p @ ''/'') ''/debug/pprof''" using assms(2) by (auto simp: HasPrefix_iff)
  then have n: "mux_match ?rts meth ?p = None" "mux_match ?rts meth (?p @ ''/'') = None" for meth
    using no_pprof_route [OF assms(1)] assms(2) by blast+
  have "allowed_methods ?rts ?p = []"
    using assms by (auto simp: allowed_methods_def routes_def path_matches_def ends_slash_def HasPrefix_iff
        list_ex_iff filter_empty_conv Let_def split: if_splits)
  moreover have "rs_status (answer (http_Error msg 404)) = 404" for msg
    using answer_http_Error(1) [of "[]" msg 404] by simp
  moreover have "?p = hr_path r \<Longrightarrow> allowed_methods ?rts ?p = [] \<Longrightarrow>
      ServeMux ?rts r z = reply_with (http_Error ''404 page not found'' 404) z"
    unfolding ServeMux_def Let_def n by (simp add: exact_match_def)
  moreover have "?p \<noteq> hr_path r \<Longrightarrow> ServeMux ?rts r z = moved ?p r z"
    unfolding ServeMux_def Let_def n by (simp add: exact_match_def)
  ultimately show ?thesis
    by (cases "?p = hr_path r") (simp_all add: moved_answer, simp_all add: reply_with_def)
qed

section \<open>The server of the stack\<close>

text \<open>The dependencies as \<open>RunServer\<close> wires them; \<open>ping\<close> is that of the PostgreSQL pool.\<close>

definition server_deps ::
  "'s pg_driver \<Rightarrow> 's kafka_writer \<Rightarrow> (HeaderCarrier \<Rightarrow> HeaderCarrier) \<Rightarrow> 's ch_conn \<Rightarrow> ('s \<Rightarrow> time)
     \<Rightarrow> (duration \<Rightarrow> 's \<Rightarrow> go_error option \<times> 's) \<Rightarrow> string \<Rightarrow> duration \<Rightarrow> logger \<Rightarrow> 's Deps" where
  "server_deps db w tr conn now ping topic ttl log = \<lparr>
     dp_Ping = (\<lambda>d (m, s). case ping d s of (e, s') \<Rightarrow> (e, (m, s'))),
     dp_IngestEvent = server_ingest db w tr now topic, dp_IdemStore = NewIdempotencyStore db,
     dp_EventQuerier = NewEventQuerier conn, dp_Log = log, dp_IdempotencyTTL = ttl\<rparr>"

text \<open>
  C22: only the webhook endpoint writes. For any part of the state that pinging the database, querying
  ClickHouse and the handlers of other packages leave alone, a request other than a POST of
  \<open>/webhooks/events\<close> leaves it alone, whatever its method, path, headers and body.
\<close>

theorem only_webhook_writes:
  assumes "\<And>d s. view (snd (ping d s)) = view s"
    and "\<And>q a b s. view (snd (ch_Query conn q a b s)) = view s"
    and "\<And>n r m s. view (snd (h_state (ext n r (m, s)))) = view s"
    and "\<not> (hr_method r = ''POST'' \<and> hr_path r = ''/webhooks/events'')"
  shows "view (snd (h_state (hs_Handler
      (NewServer cfg (server_deps db w tr conn now ping topic ttl log) ext) am r (m, s)))) = view s"
proof -
  let ?deps = "server_deps db w tr conn now ping topic ttl log"
  let ?r = "inner_request am r"
  let ?inner = "ServeMux (routes cfg ?deps ext am) ?r (m, s)"
  have r: "hr_method ?r = hr_method r" "hr_path ?r = hr_path r" by (simp_all add: inner_request_def)
  have h: "view (snd (h_state (Health x (m, s)))) = view s" for x by (simp add: Health_def reply_with_def)
  have p: "view (snd (h_state (Ready (dp_Ping ?deps) x (m, s)))) = view s" for x
    using assms(1) [of ready_timeout s]
    by (auto simp: Ready_def server_deps_def reply_with_def split: prod.splits option.splits)
  have q: "view (snd (DailyEvents (NewEventQuerier conn) a b s)) = view s" for a b
    using assms(2) [of daily_query a b s]
    by (auto simp: NewEventQuerier_def ch_DailyEvents_def split: prod.splits sum.splits option.splits)
  have a: "view (snd (h_state (analytics_DailyEvents (NewAnalyticsHandler (dp_EventQuerier ?deps) lg) x (m, s)))) = view s" for x lg
    using q by (auto simp: analytics_DailyEvents_def NewAnalyticsHandler_def server_deps_def reply_with_def Let_def
        split: prod.splits sum.splits option.splits) (metis snd_conv)+
  have inner: "view (snd (h_state ?inner)) = view s"
  proof (cases rule: ServeMux_cases [of "routes cfg ?deps ext am" ?r "(m, s)"])
    case (1 ops)
    then show ?thesis by (simp add: reply_with_def)
  next
    case (2 rt)
    from 2(1,2,4) assms(4) h p a assms(3) show ?thesis unfolding 2(3) r
      by (auto simp: routes_def path_matches_def ends_slash_def split: if_splits)
  qed
  obtain m' s' where st: "h_state ?inner = (m', s')" by (metis prod.collapse)
  from server_chain_eq [where mux = "ServeMux (routes cfg ?deps ext am)", OF refl st, of "dp_Log ?deps"] inner st
  show ?thesis by (auto simp: NewServer_def Let_def split: option.splits)
qed

section \<open>Instances\<close>

definition demo_deps :: "world Deps" where
  "demo_deps = server_deps world_db world_writer id world_conn w_now (\<lambda>d s. (None, s)) ''events'' hour
     (New_logger ''info'' ''json'')"

definition demo_server :: server_config where
  "demo_server = \<lparr>sc_Host = ''0.0.0.0'', sc_Port = 8080, sc_ReadTimeout = 15 * second,
     sc_WriteTimeout = 15 * second, sc_IdleTimeout = 60 * second, sc_PprofEnabled = False\<rparr>"

definition demo_ambient :: ambient where
  "demo_ambient = \<lparr>am_newid = ''req-1'', am_trace = None, am_latency = ''1ms'', am_stack = ''goroutine 1'',
     am_label_error = (\<lambda>ls. ''label value is not valid UTF-8''), am_event = demo_env\<rparr>"

definition demo_get :: "string \<Rightarrow> string \<Rightarrow> http_req" where
  "demo_get path query = demo_request\<lparr>hr_method := ''GET'', hr_path := path, hr_query := query, hr_body := []\<rparr>"

definition broken_ext :: "string \<Rightarrow> world shared handler" where
  "broken_ext n r z = \<lparr>h_ops = [SetHeader ''Content-Encoding'' ''gzip''], h_panic = Some ''boom'', h_logs = [], h_state = z\<rparr>"

text \<open>The longest range the analytics endpoint answers: 367 dates, 366 days apart.\<close>

lemma demo_range: "map query_pair (query_parts ''from=2024-01-01&to=2025-01-01'') =
    [[(''from'', ''2024-01-01'')], [(''to'', ''2025-01-01'')]]"
  "parse_date ''2024-01-01'' = Some 1704067200000000000" "parse_date ''2025-01-01'' = Some 1735689600000000000"
  "1735689600000000000 = (1704067200000000000 + 366 * day_nanos :: int)"
  by code_simp+

lemma demo_panic:
  "h_panic (ServeMux (routes demo_server demo_deps broken_ext demo_ambient)
     (inner_request demo_ambient (demo_get ''/metrics'' [])) (new_metrics, demo_world [])) = Some ''boom''"
  "list_all header_op (h_ops (ServeMux (routes demo_server demo_deps broken_ext demo_ambient)
     (inner_request demo_ambient (demo_get ''/metrics'' [])) (new_metrics, demo_world [])))"
  by code_simp+

theorem access_log_lacks_request_id_witness:
  "hd (h_ops (hs_Handler (NewServer demo_server demo_deps broken_ext) demo_ambient
     (demo_get ''/health'' []) (new_metrics, demo_world []))) =
   SetHeader ''X-Request-ID'' (request_id demo_ambient (demo_get ''/health'' []))"
proof -
  have "cx_request_id (hr_ctx (demo_get ''/health'' [])) = None"
    "''request_id'' \<notin> fst ` set (lg_attrs (dp_Log demo_deps))"
    by (simp_all add: demo_get_def demo_request_def demo_deps_def server_deps_def New_logger_def)
  from access_log_lacks_request_id [OF this, of demo_server broken_ext demo_ambient new_metrics "demo_world []"]
  show ?thesis by (simp add: Let_def)
qed

theorem panic_answer_witness:
  "rs_status (answer (h_ops (hs_Handler (NewServer demo_server demo_deps broken_ext) demo_ambient
     (demo_get ''/metrics'' []) (new_metrics, demo_world [])))) = 500"
  using panic_answer [OF demo_panic] by (simp add: Let_def)

theorem pprof_disabled_witness:
  "rs_status (answer (h_ops (ServeMux (routes demo_server demo_deps broken_ext demo_ambient)
     (demo_get ''/debug/pprof/heap'' []) (new_metrics, demo_world [])))) \<in> {301, 404}"
proof -
  have "\<not> sc_PprofEnabled demo_server" "HasPrefix (cleanPath (hr_path (demo_get ''/debug/pprof/heap'' []))) ''/debug/pprof''"
    by code_simp+
  from pprof_disabled [OF this, of demo_deps broken_ext demo_ambient "(new_metrics, demo_world [])"] show ?thesis by (simp add: Let_def)
qed

theorem only_webhook_writes_witness:
  "w_tabs (snd (h_state (hs_Handler (NewServer demo_server demo_deps broken_ext) demo_ambient
     (demo_get ''/webhooks/events'' []) (new_metrics, world_keyed 5)))) = w_tabs (world_keyed 5)"
  unfolding demo_deps_def
  by (rule only_webhook_writes)
    (simp_all add: broken_ext_def world_conn_def world_read_keeps demo_get_def)

end
