(* ===== verification/Service.thy ===== *)
theory Service
  imports Config Server "HOL-Library.Word"
begin

text \<open>
  The binaries: \<open>internal/platform/tracing\<close>, the opening of the stores (\<open>postgres.go\<close>, \<open>clickhouse.go\<close>),
  \<open>internal/app/service\<close> and the \<open>main\<close> functions. A run of a binary is the result with the list of the
  resources it acquires and releases, in order; what the client libraries and the outside world answer
  is the record \<open>host\<close>. Log lines are left out.
\<close>

section \<open>Resources\<close>

datatype resource = Tracer | Pool | KafkaWriter | ClickHouseConn | EventsReader | DLQReader | Listener | Consumers

datatype action = Acquire resource | Release resource

type_synonym 'a run = "(go_error + 'a) \<times> action list"

text \<open>
  \<open>attempt r fail ok\<close> is \<open>x, err := r; if err != nil { fail }; ok\<close>; \<open>deferred acts r\<close> is the rest \<open>r\<close> of a
  function after \<open>defer\<close>.
\<close>

definition attempt :: "'a run \<Rightarrow> (go_error \<Rightarrow> 'b run) \<Rightarrow> ('a \<Rightarrow> 'b run) \<Rightarrow> 'b run" where
  "attempt r fail ok = (case r of
      (Inl e, tr) \<Rightarrow> (case fail e of (x, tr') \<Rightarrow> (x, tr @ tr'))
    | (Inr a, tr) \<Rightarrow> (case ok a of (x, tr') \<Rightarrow> (x, tr @ tr')))"

definition deferred :: "action list \<Rightarrow> 'a run \<Rightarrow> 'a run" where
  "deferred acts r = (case r of (x, tr) \<Rightarrow> (x, tr @ acts))"

definition acquire :: "resource \<Rightarrow> 'a run \<Rightarrow> 'a run" where
  "acquire c r = (case r of (x, tr) \<Rightarrow> (x, Acquire c # tr))"

section \<open>platform/tracing\<close>

datatype exporter = OTLPExporter string | StdoutExporter

text \<open>The shutdown function: that of a provider, or one that does nothing.\<close>

datatype shutdown_func = ProviderShutdown exporter string | NoShutdown

record tracing_config =
  tc_Enabled :: bool
  tc_ServiceName :: string
  tc_ExporterType :: string
  tc_Endpoint :: string

definition buildExporter :: "(exporter \<Rightarrow> go_error option) \<Rightarrow> tracing_config \<Rightarrow> go_error + exporter" where
  "buildExporter create cfg =
     (if tc_ExporterType cfg = ''otlp''
      then (case create (OTLPExporter (tc_Endpoint cfg)) of
          Some err \<Rightarrow> Inl (Wrap ''create otlp exporter: '' err) | None \<Rightarrow> Inr (OTLPExporter (tc_Endpoint cfg)))
      else (case create StdoutExporter of
          Some err \<Rightarrow> Inl (Wrap ''create stdout exporter: '' err) | None \<Rightarrow> Inr StdoutExporter))"

definition tracing_Init ::
  "go_error option \<Rightarrow> (exporter \<Rightarrow> go_error option) \<Rightarrow> tracing_config \<Rightarrow> shutdown_func run" where
  "tracing_Init resource_err create cfg =
     (if \<not> tc_Enabled cfg then (Inr NoShutdown, [])
      else case resource_err of
        Some err \<Rightarrow> (Inl (Wrap ''build otel resource: '' err), [])
      | None \<Rightarrow> (case buildExporter create cfg of
          Inl err \<Rightarrow> (Inl err, [])
        | Inr e \<Rightarrow> (Inr (ProviderShutdown e (tc_ServiceName cfg)), [Acquire Tracer])))"

fun call_shutdown :: "shutdown_func \<Rightarrow> action list" where
  "call_shutdown (ProviderShutdown e n) = [Release Tracer]"
| "call_shutdown NoShutdown = []"

section \<open>Opening the stores\<close>

text \<open>The conversions \<open>int32(maxOpen)\<close> and \<open>int32(maxIdle)\<close> keep the low 32 bits.\<close>

record pool_config =
  pl_DSN :: string
  pl_MaxConns :: "32 word"
  pl_MinConns :: "32 word"
  pl_MaxConnLifetime :: duration

definition postgres_New ::
  "(string \<Rightarrow> go_error option) \<Rightarrow> (pool_config \<Rightarrow> go_error option)
     \<Rightarrow> string \<Rightarrow> int \<Rightarrow> int \<Rightarrow> duration \<Rightarrow> pool_config run" where
  "postgres_New parse new dsn maxOpen maxIdle maxLifetime = (case parse dsn of
      Some err \<Rightarrow> (Inl (Wrap ''parse postgres dsn: '' err), [])
    | None \<Rightarrow>
        (let cfg = \<lparr>pl_DSN = dsn, pl_MaxConns = word_of_int maxOpen, pl_MinConns = word_of_int maxIdle,
                    pl_MaxConnLifetime = maxLifetime\<rparr>
         in case new cfg of
           Some err \<Rightarrow> (Inl (Wrap ''create postgres pool: '' err), [])
         | None \<Rightarrow> (Inr cfg, [Acquire Pool])))"

record ch_options =
  co_Addr :: "string list"
  co_Database :: string
  co_Username :: string
  co_Password :: string
  co_DialTimeout :: duration
  co_MaxOpenConns :: int
  co_MaxIdleConns :: int
  co_ConnMaxLifetime :: duration
  co_Compression :: string

definition clickhouse_New ::
  "(ch_options \<Rightarrow> go_error option) \<Rightarrow> go_error option \<Rightarrow> ClickHouseConfig \<Rightarrow> ch_options run" where
  "clickhouse_New open ping cfg =
     (let opts = \<lparr>co_Addr = [cc_Addr cfg], co_Database = cc_Database cfg, co_Username = cc_Username cfg,
                  co_Password = cc_Password cfg, co_DialTimeout = 5 * second, co_MaxOpenConns = 10,
                  co_MaxIdleConns = 5, co_ConnMaxLifetime = 10 * minute, co_Compression = ''lz4''\<rparr>
      in case open opts of
        Some err \<Rightarrow> (Inl (Wrap ''open clickhouse: '' err), [])
      | None \<Rightarrow> (case ping of
          Some err \<Rightarrow> (Inl (Wrap ''ping clickhouse: '' err), [Acquire ClickHouseConn])
        | None \<Rightarrow> (Inr opts, [Acquire ClickHouseConn])))"

section \<open>What a run depends on\<close>

text \<open>
  \<open>ho_serve\<close> is what \<open>RunServer\<close> waits for: the error of the listener, or the end of the context, with
  whether the listener runs then (if both come at once \<open>select\<close> may take the context although the listener
  has failed, or has not started yet);
  \<open>ho_stopped\<close> says whether both consumers end within the 30 s after it.
\<close>

record host =
  ho_env :: env
  ho_frac :: "int \<Rightarrow> int \<Rightarrow> int \<Rightarrow> int"
  ho_resource :: "go_error option"
  ho_exporter :: "exporter \<Rightarrow> go_error option"
  ho_parse_dsn :: "string \<Rightarrow> go_error option"
  ho_new_pool :: "pool_config \<Rightarrow> go_error option"
  ho_ch_open :: "ch_options \<Rightarrow> go_error option"
  ho_ch_ping :: "go_error option"
  ho_serve :: "go_error + bool"
  ho_stopped :: bool

definition tracing_of :: "app_config \<Rightarrow> string \<Rightarrow> tracing_config" where
  "tracing_of cfg suffix = \<lparr>tc_Enabled = oc_Enabled (OTel cfg), tc_ServiceName = oc_ServiceName (OTel cfg) @ suffix,
     tc_ExporterType = oc_ExporterType (OTel cfg), tc_Endpoint = oc_Endpoint (OTel cfg)\<rparr>"

definition open_pool :: "host \<Rightarrow> app_config \<Rightarrow> pool_config run" where
  "open_pool h cfg = postgres_New (ho_parse_dsn h) (ho_new_pool h) (pc_DSN (Postgres cfg))
     (pc_MaxOpenConns (Postgres cfg)) (pc_MaxIdleConns (Postgres cfg)) (pc_ConnMaxLifetime (Postgres cfg))"

definition fail_with :: "string \<Rightarrow> go_error \<Rightarrow> 'a run" where
  "fail_with text err = (Inl (Wrap text err), [])"

section \<open>service/server.go\<close>

definition server_config_of :: "app_config \<Rightarrow> server_config" where
  "server_config_of cfg = \<lparr>sc_Host = hc_Host (HTTP cfg), sc_Port = hc_Port (HTTP cfg),
     sc_ReadTimeout = hc_ReadTimeout (HTTP cfg), sc_WriteTimeout = hc_WriteTimeout (HTTP cfg),
     sc_IdleTimeout = hc_IdleTimeout (HTTP cfg), sc_PprofEnabled = hc_PprofEnabled (HTTP cfg)\<rparr>"

text \<open>From the listener on: \<open>select\<close>, then the shutdown.\<close>

definition serve :: "host \<Rightarrow> shutdown_func \<Rightarrow> unit run" where
  "serve h shutdownTracing = (case ho_serve h of
      Inl err \<Rightarrow> (Inl (Wrap ''http error: '' err), [])
    | Inr running \<Rightarrow> (Inr (), (if running then [Acquire Listener, Release Listener] else []) @
        call_shutdown shutdownTracing))"

definition RunServer :: "host \<Rightarrow> unit run" where
  "RunServer h =
     attempt (Load (ho_frac h) (ho_env h), []) (fail_with ''load config: '') (\<lambda>cfg.
     attempt (tracing_Init (ho_resource h) (ho_exporter h) (tracing_of cfg [])) (fail_with ''init tracing: '')
       (\<lambda>shutdownTracing.
     attempt (open_pool h cfg) (fail_with ''connect postgres: '') (\<lambda>db. deferred [Release Pool] (
     acquire KafkaWriter (deferred [Release KafkaWriter] (
     attempt (clickhouse_New (ho_ch_open h) (ho_ch_ping h) (ClickHouse cfg)) (fail_with ''connect clickhouse: '')
       (\<lambda>chDB. deferred [Release ClickHouseConn] (serve h shutdownTracing))))))))"

section \<open>service/infra.go\<close>

record Infra =
  if_Cfg :: app_config
  if_DB :: pool_config
  if_ChDB :: ch_options
  if_Producer :: writer_config
  if_shutdownTracing :: shutdown_func

definition initInfra :: "host \<Rightarrow> string \<Rightarrow> Infra run" where
  "initInfra h suffix =
     attempt (Load (ho_frac h) (ho_env h), []) (fail_with ''load config: '') (\<lambda>cfg.
     attempt (tracing_Init (ho_resource h) (ho_exporter h) (tracing_of cfg suffix)) (fail_with ''init tracing: '')
       (\<lambda>shutdownTracing.
     attempt (open_pool h cfg)
       (\<lambda>err. (Inl (Wrap ''connect postgres: '' err), call_shutdown shutdownTracing)) (\<lambda>db.
     attempt (clickhouse_New (ho_ch_open h) (ho_ch_ping h) (ClickHouse cfg))
       (\<lambda>err. (Inl (Wrap ''connect clickhouse: '' err), Release Pool # call_shutdown shutdownTracing)) (\<lambda>chDB.
     (Inr \<lparr>if_Cfg = cfg, if_DB = db, if_ChDB = chDB, if_Producer = producer_config (kc_Brokers (Kafka cfg)),
           if_shutdownTracing = shutdownTracing\<rparr>, [Acquire KafkaWriter])))))"

definition infra_Shutdown :: "Infra \<Rightarrow> action list" where
  "infra_Shutdown i = [Release KafkaWriter, Release ClickHouseConn, Release Pool] @
     call_shutdown (if_shutdownTracing i)"

section \<open>service/worker.go\<close>

definition worker_readers :: "app_config \<Rightarrow> reader_config \<times> reader_config" where
  "worker_readers cfg =
     (NewConsumer (kc_Brokers (Kafka cfg)) (kc_TopicEvents (Kafka cfg)) (kc_ConsumerGroup (Kafka cfg)),
      NewConsumer (kc_Brokers (Kafka cfg)) (kc_TopicDLQ (Kafka cfg)) (kc_ConsumerGroup (Kafka cfg) @ ''-dlq''))"

definition RunWorker :: "host \<Rightarrow> unit run" where
  "RunWorker h =
     attempt (initInfra h ''-worker'') (\<lambda>err. (Inl err, [])) (\<lambda>infra.
     acquire EventsReader (deferred [Release EventsReader] (
     acquire DLQReader (deferred [Release DLQReader] (
     acquire Consumers (Inr (), (if ho_stopped h then [Release Consumers] else []) @ infra_Shutdown infra))))))"

section \<open>cmd/server/main.go, cmd/worker/main.go\<close>

text \<open>The exit status and what is printed to the standard error.\<close>

definition main_of :: "unit run \<Rightarrow> int \<times> string" where
  "main_of r = (case fst r of Inl err \<Rightarrow> (1, Error err @ newline) | Inr _ \<Rightarrow> (0, []))"

definition server_main :: "host \<Rightarrow> int \<times> string" where "server_main h = main_of (RunServer h)"
definition worker_main :: "host \<Rightarrow> int \<times> string" where "worker_main h = main_of (RunWorker h)"

section \<open>What is released\<close>

fun held :: "resource list \<Rightarrow> action list \<Rightarrow> resource list" where
  "held rs [] = rs"
| "held rs (Acquire r # as) = held (r # rs) as"
| "held rs (Release r # as) = held (remove1 r rs) as"

text \<open>Nothing is acquired twice, and only what is held is released.\<close>

fun orderly :: "resource list \<Rightarrow> action list \<Rightarrow> bool" where
  "orderly rs [] \<longleftrightarrow> True"
| "orderly rs (Acquire r # as) \<longleftrightarrow> r \<notin> set rs \<and> orderly (r # rs) as"
| "orderly rs (Release r # as) \<longleftrightarrow> r \<in> set rs \<and> orderly (remove1 r rs) as"

lemmas run_defs = attempt_def deferred_def acquire_def fail_with_def tracing_Init_def buildExporter_def
  open_pool_def postgres_New_def clickhouse_New_def serve_def initInfra_def infra_Shutdown_def Let_def

text \<open>
  C23: what the server releases. Resources are acquired once and released only while held. A run that
  ends without an error releases everything, the listener (if it was running when the context ended)
  before tracing and the stores after both. A
  run that ends with an error releases the pool, the Kafka writer and the ClickHouse connection it
  handed out, but keeps the tracer if tracing had been set up, and the ClickHouse connection if its
  first ping failed; nothing else is left.
\<close>

theorem server_releases:
  "let (res, tr) = RunServer h; left = held [] tr in
    orderly [] tr \<and>
    (case res of
       Inr _ \<Rightarrow> left = [] \<and> (\<exists>t \<in> {[], [Tracer]}. tr = map Acquire t @
         map Acquire [Pool, KafkaWriter, ClickHouseConn] @
         (if ho_serve h = Inr True then [Acquire Listener, Release Listener] else []) @
         map Release t @ map Release [ClickHouseConn, KafkaWriter, Pool])
     | Inl _ \<Rightarrow> set left = {c. Acquire c \<in> set tr \<and> (c = Tracer \<or> c = ClickHouseConn \<and> ho_ch_ping h \<noteq> None)})"
  unfolding RunServer_def
  by (auto simp: run_defs split: option.splits sum.splits)

text \<open>
  C24: what the worker releases. Resources are acquired once and released only while held. On every path
  everything is released again, the tracer included, except the ClickHouse connection whose first ping
  failed and, when they do not end in time, the consumers; the readers are closed after the stores.
\<close>

theorem worker_releases:
  "let (res, tr) = RunWorker h; left = held [] tr in
    orderly [] tr \<and>
    (case res of
       Inr _ \<Rightarrow> left = (if ho_stopped h then [] else [Consumers]) \<and>
         (\<exists>as. tr = as @ [Release DLQReader, Release EventsReader])
     | Inl _ \<Rightarrow> set left = {c. Acquire c \<in> set tr \<and> c = ClickHouseConn \<and> ho_ch_ping h \<noteq> None})"
  unfolding RunWorker_def
  by (auto simp: run_defs split: option.splits sum.splits)

text \<open>
  The size of the connection pool. The pool is opened with the configured maximum and minimum as 32-bit
  integers: exactly what was configured when that fits, and otherwise what is left of it modulo \<open>2^32\<close>.
\<close>

theorem pool_size_wraps:
  assumes "open_pool h cfg = (Inr pool, tr)"
  shows "sint (pl_MaxConns pool) = (pc_MaxOpenConns (Postgres cfg) + 2 ^ 31) mod 2 ^ 32 - 2 ^ 31 \<and>
    sint (pl_MinConns pool) = (pc_MaxIdleConns (Postgres cfg) + 2 ^ 31) mod 2 ^ 32 - 2 ^ 31 \<and>
    (sint (pl_MaxConns pool) = pc_MaxOpenConns (Postgres cfg) \<longleftrightarrow>
     - (2 ^ 31) \<le> pc_MaxOpenConns (Postgres cfg) \<and> pc_MaxOpenConns (Postgres cfg) < 2 ^ 31)"
proof -
  have w: "sint (word_of_int n :: 32 word) = (n + 2 ^ 31) mod 2 ^ 32 - 2 ^ 31" for n
    by (simp add: int_word_sint)
  have iff: "(n + 2 ^ 31) mod 2 ^ 32 - 2 ^ 31 = n \<longleftrightarrow> - (2 ^ 31) \<le> n \<and> n < 2 ^ 31" for n :: int
  proof
    assume "(n + 2 ^ 31) mod 2 ^ 32 - 2 ^ 31 = n"
    then have "n + 2 ^ 31 = (n + 2 ^ 31) mod 2 ^ 32" by simp
    moreover have "0 \<le> (n + 2 ^ 31) mod 2 ^ 32" "(n + 2 ^ 31) mod 2 ^ 32 < 2 ^ 32" by simp_all
    ultimately show "- (2 ^ 31) \<le> n \<and> n < 2 ^ 31" by simp
  qed simp
  have p: "pl_MaxConns pool = word_of_int (pc_MaxOpenConns (Postgres cfg))"
    "pl_MinConns pool = word_of_int (pc_MaxIdleConns (Postgres cfg))"
    using assms by (auto simp: open_pool_def postgres_New_def Let_def split: option.splits)
  show ?thesis unfolding p w by (intro conjI refl iff)
qed

section \<open>Instances\<close>

definition demo_host :: host where
  "demo_host = \<lparr>ho_env = [''POSTGRES_DSN'' \<mapsto> ''postgres://db'', ''OTEL_ENABLED'' \<mapsto> ''true'',
       ''POSTGRES_MAX_OPEN_CONNS'' \<mapsto> ''4294967297''],
     ho_frac = (\<lambda>_ _ _. 0), ho_resource = None, ho_exporter = (\<lambda>e. None), ho_parse_dsn = (\<lambda>d. None),
     ho_new_pool = (\<lambda>p. None), ho_ch_open = (\<lambda>opts. None), ho_ch_ping = Some DeadlineExceeded,
     ho_serve = Inr True, ho_stopped = True\<rparr>"

lemma demo_runs:
  "RunServer demo_host = (Inl (Wrap ''connect clickhouse: '' (Wrap ''ping clickhouse: '' DeadlineExceeded)),
     [Acquire Tracer, Acquire Pool, Acquire KafkaWriter, Acquire ClickHouseConn, Release KafkaWriter, Release Pool])"
  "RunWorker demo_host = (Inl (Wrap ''connect clickhouse: '' (Wrap ''ping clickhouse: '' DeadlineExceeded)),
     [Acquire Tracer, Acquire Pool, Acquire ClickHouseConn, Release Pool, Release Tracer])"
  by code_simp+

theorem pool_size_wraps_witness:
  "\<exists>pool. fst (open_pool demo_host (read_config (ho_frac demo_host) (ho_env demo_host) ''postgres://db'')) = Inr pool \<and>
     sint (pl_MaxConns pool) = 1"
proof -
  let ?cfg = "read_config (ho_frac demo_host) (ho_env demo_host) ''postgres://db''"
  have c: "pc_MaxOpenConns (Postgres ?cfg) = 4294967297" by code_simp
  obtain pool where p: "open_pool demo_host ?cfg = (Inr pool, [Acquire Pool])"
    by (simp add: open_pool_def postgres_New_def demo_host_def)
  from pool_size_wraps [OF p] c p show ?thesis by simp
qed

end
