(* ===== verification/Spec2Isabelle.thy ===== *)
theory Spec2Isabelle
  imports Notifier Memory Contract Duplicates Service Migrate
begin

text \<open>
  A verification development for the event observability platform (a Go program): a server that takes
  webhook events over HTTP, workers that process them from a Kafka topic, and a runner of migrations.

  The program. A POST of \<open>/webhooks/events\<close> is checked, looked up by its idempotency key, stored as a
  pending row of PostgreSQL (\<open>webhook_events\<close>), queued as a message (event id, attempt) on the events
  topic, and its response kept under the key (\<open>idempotency_keys\<close>). A worker fetches the message, reads
  the event, marks it processing, writes a row of ClickHouse (\<open>events_log\<close>) and marks it processed; a
  failure counts a retry and publishes the message again with the next attempt or, at the last attempt,
  marks the event failed and publishes a dead letter, which a second consumer handles. A GET of
  \<open>/analytics/daily-events\<close> aggregates the ClickHouse rows. The code is a ring of ports: the use cases of
  \<open>internal/core\<close> know the stores and the broker as interfaces (\<open>internal/core/port\<close>), which
  \<open>internal/infra\<close> implements over the drivers, and \<open>internal/app\<close> wires.

  How it is modelled. A Go interface value is a record of its methods over a state \<open>'s\<close>; a call takes the
  state and returns a result and the next state. An error is a value of \<open>go_error\<close>; a result with an
  error is a sum, a pair where Go returns both, an option where it returns only an error; a panic is a
  branch of \<open>outcome\<close> (\<open>h_panic\<close> in a handler's result). \<open>int\<close>, \<open>int64\<close> and \<open>time.Duration\<close> are integers
  with the bounds (\<open>in_int64\<close>) and the wrap-around (\<open>wrap64\<close>) written out, the 32-bit pool sizes words.
  Strings are lists of bytes. An instant is the nanoseconds of the Unix epoch. What is random or read from the
  clock (event ids, jitter, \<open>time.Now\<close>) is an argument or a function of the state. Third-party code is
  a parameter whose documented behaviour is the assumption of a locale: \<open>pg_driver_laws\<close> (pgx and the
  meaning of the program's SQL on its two tables), \<open>kafka_writer_laws\<close>, \<open>ch_conn_laws\<close>, put together as
  \<open>drivers\<close>. A call of theirs may fail, and one that reports a failure may have taken effect all the same.
  Every locale is interpreted on the model's own definitions: the interfaces of \<open>port\<close> on the stores, the
  producer and the writer of \<open>internal/infra\<close>, and \<open>drivers\<close> on an executable world with a list of
  faults (\<open>Environment\<close>), on which the properties are evaluated.

  The theories, from the bottom.
  \<^item> \<open>Prelude\<close>: integers, durations, errors and \<open>errors.Is\<close>, the functions of \<open>strings\<close>, outcomes.
  \<^item> \<open>Breaker\<close> (\<open>outbound/httpclient/breaker.go\<close>): the circuit breaker; it refines a specification with
    three states (\<open>breaker_refines_spec\<close>), trips exactly at \<open>MaxFailures\<close>, fails fast, recovers.
  \<^item> \<open>HttpClient\<close>, \<open>ClientProps\<close> (\<open>client.go\<close>, \<open>retry.go\<close>): the retrying client; what \<open>Do\<close> returns in terms of
    its attempts, its termination and delays, the bounds of the backoff and where its conversion overflows,
    and the exact operations a call makes on the breaker, which it shares: what other calls do to it
    before each of a call's own operations is a parameter (\<open>before_allow\<close>, \<open>before_record\<close>).
    \<open>Notifier\<close> (\<open>outbound/notifier\<close>) is its one client.
  \<^item> \<open>Metrics\<close> (\<open>platform/metrics\<close>): the instruments as counters by label values.
  \<^item> \<open>Json\<close>, \<open>Calendar\<close>: what the program uses of \<open>encoding/json\<close> and \<open>time\<close>, byte for byte: strings, numbers,
    objects with case-folded keys, dates and RFC 3339 instants; with their round trips.
  \<^item> \<open>Domain\<close> (\<open>core/domain\<close>, \<open>core/dto\<close>, \<open>core/mapper\<close>, \<open>core/service\<close>): the event, its statuses, the message codec and
    its round trip.
  \<^item> \<open>Ports\<close> (\<open>core/port\<close>): the interfaces as locales \<open>event_repo\<close>, \<open>idem_store\<close>, \<open>publishing\<close>, \<open>analytics\<close>, and
    \<open>platform\<close>, the four over one state, in which the lemmas on the use cases are proved once.
  \<^item> \<open>Postgres\<close>, \<open>Memory\<close>, \<open>Messaging\<close>, \<open>Clickhouse\<close> (\<open>infra/storage\<close>, \<open>infra/messaging\<close>): the providers, with the
    proof that they keep the laws; \<open>Environment\<close> puts them together.
  \<^item> \<open>Ingest\<close>, \<open>Process\<close> (\<open>core/usecase\<close>): what each use case does to the stores on every branch.
  \<^item> \<open>Processor\<close> (\<open>app/processor\<close>): the handling of a delivery, the consumer loops, the dead letters.
  \<^item> \<open>Http\<close>, \<open>Webhook\<close>, \<open>Analytics\<close>, \<open>Server\<close> (\<open>platform/logger\<close>, \<open>app/http\<close>): middleware, the handlers, the route
    table over a model of \<open>http.ServeMux\<close>, the server's chain; the answer to every request, what a 202
    and a 200 mean for the stores, what the server does around each handler, and what it does when the
    metrics client refuses a path that is not UTF-8 as a label.
  \<^item> \<open>Pipeline\<close>, \<open>System\<close>: the step relations of the whole. \<open>Pipeline\<close> has one step per use case or delivery
    and the invariant of the reachable states; \<open>System\<close> splits a request at the lookup of its key, lets any
    number of requests be in flight, maps its steps to those of \<open>Pipeline\<close>, and adds the invariant of the stored keys and
    the life of an event. Both rest on \<open>Calls\<close>: what holds across every call of the ports holds across
    the handlers (locales \<open>worker_calls\<close> and \<open>server_calls\<close>).
  \<^item> \<open>Contract\<close>: what the platform promises, said without the code: phases of an event, queues of numbered attempts,
    facts, remembered answers, and the rules by which they may change (\<open>promises\<close>). Every step of a handler, in
    every reachable state and whatever fails, is a step of it (\<open>platform_refines_contract\<close>).
  \<^item> \<open>Progress\<close>: the locale \<open>healthy\<close>, in whose states no driver fails; there a delivery finishes its event, and
    an accepted request has a message whose delivery does so.
  \<^item> \<open>Programs\<close>: the handlers once more, as trees of port calls with their log lines; run alone they are the
    handlers of the theories above (lemmas \<open>webhook_run\<close>, \<open>consume_run\<close>, \<open>dead_run\<close>), and a message that is lost
    is logged.
  \<^item> \<open>Interleave\<close>: any number of requests, deliveries and dead letters take turns at every port call and may be
    cut off between any two (\<open>turn\<close>). A program is \<open>safe\<close> when each of its calls is sound given the ids it
    knows to be stored; all handlers are, so the invariant of the pipeline holds in every configuration
    (\<open>interleaved_invariant\<close>). A handler run to its end is one of the interleavings (lemmas \<open>webhook_turns\<close>,
    \<open>consumer_turns\<close>, \<open>dead_turns\<close>).
  \<^item> \<open>Races\<close>: what crashes and overlaps do: an event cut off before its publish is never picked up again, and
    two deliveries that overlap process an event twice. \<open>Duplicates\<close>: two requests with one key that race are
    both ingested; its locale \<open>responsive\<close> adds to \<open>healthy\<close> that a lookup of a key without entry finds none.
  \<^item> \<open>Config\<close>, \<open>Service\<close>, \<open>Migrate\<close> (\<open>config.go\<close>, \<open>app/service\<close>, \<open>platform/tracing\<close>, \<open>app/migrate\<close>, \<open>cmd\<close>): the configuration
    read from the environment, which resources are acquired and released on every path, the exit status.

  Bounds and fuel. \<open>scan_value\<close> of \<open>Json\<close> recurses on fuel, the length of the input and one: each level
  consumes a byte; its other bound is the nesting of 10000 the decoder of Go itself has. The retry loop
  of the client is structural in the attempts left, the parsers terminate by the length of their input.
  The consumer loops may run for ever and are partial functions into \<open>option\<close>: that they end once the
  context is cancelled and never otherwise are theorems of their own (\<open>consumer_stops_on_cancel\<close>,
  \<open>consumer_stops_only_on_cancel\<close>).

  Not modelled. Spans and trace propagation beyond the header carrier, and the log lines of the consumer loops,
  of the HTTP client and of the start and stop of the services: they change no state of the program. The
  steps of \<open>Pipeline\<close> and \<open>System\<close> are handlers run to their end (a request split at its lookup);
  interleaving at each port call and crashes are in \<open>Interleave\<close>, where the metrics, which are
  atomic counters, are not part of the configuration. The inside of pgx, kafka-go, clickhouse-go, goose, the
  OpenTelemetry SDK and the Prometheus registry, which are parameters; their pools and batching. Of
  \<open>net/http\<close>: escapes in a path that stand for a slash or a dot, \<open>CONNECT\<close>, and the connection level; of \<open>net/url\<close> the limit on
  the number of parameters. The rounding of floating point in \<open>time.ParseDuration\<close> and the conversion of
  a float out of the range of \<open>int64\<close> are parameters, since the language leaves the second to the machine;
  so are the table of printable runes beyond Latin-1 (\<open>me_printable\<close>), the date a log line starts with
  (\<open>me_log_prefix\<close>) and the text of the metrics client's error (\<open>am_label_error\<close>).
  \<open>docs/swagger\<close> is generated and has no behaviour.
\<close>

end
